(* ===== verification/Prelude.thy ===== *)
theory Prelude
  imports Main "HOL-Library.Word" "HOL-Library.Char_ord" "HOL-Library.List_Lexorder" "HOL-Library.Signed_Division"
begin

text \<open>
  What the components share: Go's machine integers, the decimal form \<^verbatim>\<open>%d\<close> prints,
  composed string keys, maps with a zero value, and calls that may panic.

  \<^item> \<open>int64\<close> values are \<open>int\<close>s; \<open>i64\<close> writes the wrap-around of an arithmetic result out
    and \<open>in_i64\<close> is the range of the type.
  \<^item> \<open>uint64\<close> values, whose bits the sequencer packs, are \<open>64 word\<close>s.
  \<^item> A Go \<open>error\<close> result is the left summand of a sum; a call that may panic returns
    an \<open>outcome\<close>.
\<close>

named_theorems wrap_simps \<open>removing the wrap-around of in-range int64 arithmetic\<close>
named_theorems fmt_inj \<open>injectivity of formatted keys\<close>

type_synonym u64 = "64 word"
type_synonym go_error = string

section \<open>Signed 64-bit integers\<close>

definition i64 :: "int \<Rightarrow> int" where
  "i64 x = (x + 2 ^ 63) mod 2 ^ 64 - 2 ^ 63"

definition in_i64 :: "int \<Rightarrow> bool" where
  "in_i64 x \<longleftrightarrow> - (2 ^ 63) \<le> x \<and> x < 2 ^ 63"

lemma i64_id [wrap_simps]: "in_i64 x \<Longrightarrow> i64 x = x"
  by (simp add: i64_def in_i64_def)

lemma in_i64_i64 [simp]: "in_i64 (i64 x)"
  by (simp add: i64_def in_i64_def)

lemma i64_mod_cong: "x mod 2 ^ 64 = y mod 2 ^ 64 \<Longrightarrow> i64 x = i64 y"
  unfolding i64_def by (metis mod_add_left_eq)

lemma i64_mod: "i64 x mod 2 ^ 64 = x mod 2 ^ 64"
  unfolding i64_def by (simp add: mod_simps)

text \<open>Adding back what was subtracted restores the value, whatever wrapped on the way.\<close>

lemma i64_add_diff: "i64 (f + i64 (q - f)) = i64 q"
proof (rule i64_mod_cong)
  have "(f + i64 (q - f)) mod 2 ^ 64 = (f + i64 (q - f) mod 2 ^ 64) mod 2 ^ 64"
    by (simp only: mod_add_right_eq)
  also have "\<dots> = (f + (q - f)) mod 2 ^ 64"
    by (simp only: i64_mod mod_add_right_eq)
  finally show "(f + i64 (q - f)) mod 2 ^ 64 = q mod 2 ^ 64"
    by simp
qed

lemma in_i64_between: "in_i64 a \<Longrightarrow> in_i64 b \<Longrightarrow> a \<le> x \<Longrightarrow> x \<le> b \<Longrightarrow> in_i64 x"
  by (simp add: in_i64_def)

lemma in_i64_0 [simp]: "in_i64 0"
  by (simp add: in_i64_def)

text \<open>Go's integer quotient rounds toward zero.\<close>

definition go_div :: "int \<Rightarrow> int \<Rightarrow> int" where
  "go_div a b = a sdiv b"

lemma go_div_nonneg [simp]: "0 \<le> a \<Longrightarrow> 0 < b \<Longrightarrow> go_div a b = a div b"
  by (cases "a = 0") (simp_all add: go_div_def signed_divide_int_def)

definition go_rem :: "int \<Rightarrow> int \<Rightarrow> int" where
  "go_rem a b = a smod b"

lemma go_rem_nonneg [simp]: "0 \<le> a \<Longrightarrow> 0 < b \<Longrightarrow> go_rem a b = a mod b"
  by (cases "a = 0") (simp_all add: go_rem_def signed_modulo_int_def signed_divide_int_def minus_div_mult_eq_mod)

section \<open>Calls that may panic\<close>

datatype 'a outcome = Returns 'a | Panics

section \<open>Maps with Go's zero value\<close>

text \<open>Reading a Go map at an absent key gives the zero value of the element type.\<close>

definition mget :: "'v \<Rightarrow> ('k \<rightharpoonup> 'v) \<Rightarrow> 'k \<Rightarrow> 'v" where
  "mget z m k = (case m k of None \<Rightarrow> z | Some v \<Rightarrow> v)"

lemma mget_upd [simp]: "mget z (m(k \<mapsto> v)) k' = (if k' = k then v else mget z m k')"
  by (simp add: mget_def)

lemma mget_empty [simp]: "mget z Map.empty k = z"
  by (simp add: mget_def)

lemma in_map_filter: "k \<in> set ks \<Longrightarrow> f k = Some r \<Longrightarrow> r \<in> set (List.map_filter f ks)"
  by (induction ks) (auto split: option.split)

lemma map_eq_mono:
  assumes mono: "\<And>a b. f a = f b \<Longrightarrow> g a = g b"
  shows "map f xs = map f ys \<Longrightarrow> map g xs = map g ys"
proof (induction xs arbitrary: ys)
  case (Cons x xs)
  from Cons.prems obtain y ys' where ys: "ys = y # ys'" "f x = f y" "map f xs = map f ys'" by (cases ys) simp_all
  from ys(1) mono [OF ys(2)] Cons.IH [OF ys(3)] show ?case by simp
qed simp

lemma map_eq_iff:
  assumes "\<And>a b. f a = f b \<longleftrightarrow> g a = g b"
  shows "map f xs = map f ys \<longleftrightarrow> map g xs = map g ys"
  using map_eq_mono [of f g, OF iffD1 [OF assms]] map_eq_mono [of g f, OF iffD2 [OF assms]] by (rule iffI)

section \<open>Decimal formatting\<close>

definition digit :: "nat \<Rightarrow> char" where
  "digit d = char_of (48 + d)"

fun show_nat :: "nat \<Rightarrow> string" where
  "show_nat n = (if n < 10 then [digit n] else show_nat (n div 10) @ [digit (n mod 10)])"

declare show_nat.simps [simp del]

definition show_int :: "int \<Rightarrow> string" where
  "show_int i = (if i < 0 then CHR ''-'' # show_nat (nat (- i)) else show_nat (nat i))"

definition read_digit :: "char \<Rightarrow> nat option" where
  "read_digit c = (let d = of_char c :: nat in if 48 \<le> d \<and> d \<le> 57 then Some (d - 48) else None)"

definition digits_val :: "string \<Rightarrow> nat" where
  "digits_val s = foldl (\<lambda>acc c. 10 * acc + (of_char c - 48)) 0 s"

lemma digit_chars [simp]:
  "digit 0 = CHR ''0''" "digit (Suc 0) = CHR ''1''" "digit 1 = CHR ''1''" "digit 2 = CHR ''2''"
  "digit 3 = CHR ''3''" "digit 4 = CHR ''4''" "digit 5 = CHR ''5''" "digit 6 = CHR ''6''"
  "digit 7 = CHR ''7''" "digit 8 = CHR ''8''" "digit 9 = CHR ''9''"
  by code_simp+

lemma of_char_digit: "d < 10 \<Longrightarrow> of_char (digit d) = 48 + d"
  by (simp add: digit_def)

lemma digits_val_snoc: "digits_val (s @ [c]) = 10 * digits_val s + (of_char c - 48)"
  by (simp add: digits_val_def)

lemma digits_val_show_nat [simp]: "digits_val (show_nat n) = n"
proof (induction n rule: show_nat.induct)
  case (1 n)
  show ?case
  proof (cases "n < 10")
    case True
    then show ?thesis
      by (simp add: show_nat.simps [of n] digits_val_def of_char_digit)
  next
    case False
    with "1.IH" show ?thesis
      by (simp add: show_nat.simps [of n] digits_val_snoc of_char_digit)
  qed
qed

lemma show_nat_inject [simp, fmt_inj]: "show_nat m = show_nat n \<longleftrightarrow> m = n"
  by (metis digits_val_show_nat)

lemma show_nat_digits: "c \<in> set (show_nat n) \<Longrightarrow> \<exists>d < 10. c = digit d"
proof (induction n rule: show_nat.induct)
  case (1 n)
  show ?case
  proof (cases "n < 10")
    case True
    with "1.prems" show ?thesis by (auto simp: show_nat.simps [of n])
  next
    case False
    with "1.prems" have "c \<in> set (show_nat (n div 10)) \<or> c = digit (n mod 10)"
      by (auto simp: show_nat.simps [of n])
    with False "1.IH" show ?thesis by (auto intro: exI [of _ "n mod 10"])
  qed
qed

lemma digit_neq_minus: "d < 10 \<Longrightarrow> digit d \<noteq> CHR ''-''"
  using of_char_digit by fastforce

lemma digit_neq_colon: "d < 10 \<Longrightarrow> digit d \<noteq> CHR '':''"
  using of_char_digit by fastforce

lemma minus_notin_show_nat [simp]: "CHR ''-'' \<notin> set (show_nat n)"
  using show_nat_digits digit_neq_minus by metis

lemma colon_notin_show_nat [simp]: "CHR '':'' \<notin> set (show_nat n)"
  using show_nat_digits digit_neq_colon by metis

lemma show_nat_chars: "c \<in> set (show_nat n) \<Longrightarrow> 48 \<le> (of_char c :: nat) \<and> of_char c < (58 :: nat)"
  using show_nat_digits [of c n] by (auto simp: of_char_digit)

lemma show_int_chars: "c \<in> set (show_int i) \<Longrightarrow> c = CHR ''-'' \<or> 48 \<le> (of_char c :: nat) \<and> of_char c < (58 :: nat)"
  using show_nat_chars by (auto simp: show_int_def split: if_splits)

lemma show_int_inject [simp, fmt_inj]: "show_int i = show_int j \<longleftrightarrow> i = j"
proof
  assume eq: "show_int i = show_int j"
  have "CHR ''-'' \<in> set (show_int k) \<longleftrightarrow> k < 0" for k by (simp add: show_int_def)
  with eq have "i < 0 \<longleftrightarrow> j < 0" by metis
  with eq show "i = j" by (cases "i < 0") (simp_all add: show_int_def)
qed simp

lemma replicate_numeral: "replicate (numeral n) x = x # replicate (pred_numeral n) x"
  by (simp add: numeral_eq_Suc)

section \<open>Composed keys\<close>

lemma append_sep_inject:
  "c \<notin> set a \<Longrightarrow> c \<notin> set a' \<Longrightarrow> a @ c # b = a' @ c # b' \<longleftrightarrow> a = a' \<and> b = b'"
proof (induction a arbitrary: a')
  case Nil
  then show ?case by (cases a') auto
next
  case (Cons x a)
  then show ?case by (cases a') auto
qed

text \<open>The key \<^verbatim>\<open>fmt.Sprintf("%s:%s", a, b)\<close>.\<close>

definition colon_key :: "string \<Rightarrow> string \<Rightarrow> string" where
  "colon_key a b = a @ CHR '':'' # b"

lemma colon_key_inject [fmt_inj]:
  "CHR '':'' \<notin> set a \<Longrightarrow> CHR '':'' \<notin> set a' \<Longrightarrow>
   colon_key a b = colon_key a' b' \<longleftrightarrow> a = a' \<and> b = b'"
  by (simp add: colon_key_def append_sep_inject)

end
