(* ===== verification/SkipList.thy ===== *)
theory SkipList
  imports Prelude
begin

text \<open>
  The ordered map the order book keeps its price levels in. It is the third-party package
  \<^verbatim>\<open>github.com/huandu/skiplist\<close>, so its operations are the fields of a record that the order
  book's definitions take as an argument, and what they do is the locale \<open>skip_list\<close>: the elements
  are kept in the order of one strict linear order of the keys, which the comparator given to
  \<^verbatim>\<open>skiplist.New\<close> determines, with at most one element per key.

  The package documents that a comparator's \<open>CalcScore\<close> agrees with its \<open>Compare\<close>. The comparators
  of \<^verbatim>\<open>orderbook.go\<close> do not, so the locale leaves open which order the list is in; theorems that
  need a particular one name it.
\<close>

section \<open>Operations\<close>

text \<open>An element is its key and value; \<open>sl_Next\<close> finds the element after the one with a given key.\<close>

record ('s, 'c, 'v) skiplist_ops =
  sl_New :: "'c \<Rightarrow> 's"
  sl_Len :: "'s \<Rightarrow> nat"
  sl_Front :: "'s \<Rightarrow> (int \<times> 'v) option"
  sl_Next :: "'s \<Rightarrow> int \<Rightarrow> (int \<times> 'v) option"
  sl_Get :: "'s \<Rightarrow> int \<Rightarrow> 'v option"
  sl_Set :: "int \<Rightarrow> 'v \<Rightarrow> 's \<Rightarrow> 's"
  sl_Remove :: "int \<Rightarrow> 's \<Rightarrow> 's"

text \<open>The element after a key in a list of elements.\<close>

fun after :: "int \<Rightarrow> (int \<times> 'v) list \<Rightarrow> (int \<times> 'v) option" where
  "after k ((j, v) # kvs) = (if j = k then (case kvs of [] \<Rightarrow> None | x # _ \<Rightarrow> Some x) else after k kvs)"
| "after k [] = None"

text \<open>What replacing the value of a key, or dropping a key, does to a list of elements.\<close>

definition set_val :: "int \<Rightarrow> 'v \<Rightarrow> (int \<times> 'v) list \<Rightarrow> (int \<times> 'v) list" where
  "set_val k v kvs = map (\<lambda>(j, w). (j, if j = k then v else w)) kvs"

definition drop_key :: "int \<Rightarrow> (int \<times> 'v) list \<Rightarrow> (int \<times> 'v) list" where
  "drop_key k kvs = filter (\<lambda>(j, w). j \<noteq> k) kvs"

section \<open>Sorted lists are determined by their maps\<close>

definition strict_linear :: "(int \<Rightarrow> int \<Rightarrow> bool) \<Rightarrow> bool" where
  "strict_linear lt \<longleftrightarrow>
     (\<forall>a. \<not> lt a a) \<and> (\<forall>a b c. lt a b \<longrightarrow> lt b c \<longrightarrow> lt a c) \<and> (\<forall>a b. a \<noteq> b \<longrightarrow> lt a b \<or> lt b a)"

lemma strict_linear_less: "strict_linear (<)" "strict_linear (\<lambda>a b. b < a)"
  by (auto simp: strict_linear_def)

lemma strict_linear_asym: "strict_linear lt \<Longrightarrow> lt a b \<Longrightarrow> \<not> lt b a"
  unfolding strict_linear_def by blast

lemma sorted_distinct: "strict_linear lt \<Longrightarrow> sorted_wrt lt ks \<Longrightarrow> distinct ks"
  by (induction ks) (auto simp: strict_linear_def)

lemma sorted_set_unique:
  assumes "strict_linear lt" "sorted_wrt lt xs" "sorted_wrt lt ys" "set xs = set ys"
  shows "xs = ys"
  using assms(2-4)
proof (induction xs arbitrary: ys)
  case (Cons x xs)
  then obtain y zs where ys: "ys = y # zs" by (cases ys) auto
  have "x = y \<or> lt y x" "x = y \<or> lt x y"
    using Cons.prems by (auto simp: ys)
  then have "x = y" using strict_linear_asym [OF assms(1)] by blast
  moreover have "x \<notin> set xs" "y \<notin> set zs"
    using sorted_distinct [OF assms(1) Cons.prems(1)] sorted_distinct [OF assms(1) Cons.prems(2)]
    by (auto simp: ys)
  moreover have "insert x (set xs) = insert y (set zs)"
    using Cons.prems(3) by (simp add: ys)
  ultimately have "set xs = set zs" by (metis insert_ident)
  with Cons.IH [of zs] Cons.prems \<open>x = y\<close> show ?case by (simp add: ys)
qed simp

lemma map_of_unique:
  assumes "strict_linear lt" "sorted_wrt lt (map fst xs)" "sorted_wrt lt (map fst ys)"
    and "map_of xs = map_of ys"
  shows "xs = ys"
proof -
  have "map fst xs = map fst ys"
    using assms by (intro sorted_set_unique [of lt]) (auto simp flip: dom_map_of_conv_image_fst)
  moreover have "map snd xs = map snd ys"
    using assms(4) sorted_distinct [OF assms(1,2)] calculation
    by (intro map_of_zip_inject [of "map snd xs" "map fst xs" "map snd ys"])
      (auto simp: zip_map_fst_snd, metis length_map, metis zip_map_fst_snd)
  ultimately show ?thesis by (rule pair_list_eqI)
qed

lemma map_fst_set_val [simp]: "map fst (set_val k v kvs) = map fst kvs"
  by (auto simp: set_val_def)

lemma map_of_set_val_at:
  "map_of (set_val k v kvs) j = (if j = k \<and> k \<in> fst ` set kvs then Some v else map_of kvs j)"
  unfolding set_val_def by (induction kvs) (auto simp: rev_image_eqI)

lemma map_of_set_val: "k \<in> fst ` set kvs \<Longrightarrow> map_of (set_val k v kvs) = (map_of kvs)(k \<mapsto> v)"
  by (simp add: fun_eq_iff map_of_set_val_at)

lemma set_val_id: "k \<notin> fst ` set kvs \<Longrightarrow> set_val k v kvs = kvs"
  unfolding set_val_def by (induction kvs) auto

lemma map_of_middle:
  "k \<notin> fst ` set xs \<Longrightarrow> k \<notin> fst ` set ys \<Longrightarrow> map_of (xs @ ys) = (map_of (xs @ (k, v) # ys))(k := None)"
  by (induction xs) (auto simp: fun_eq_iff map_of_eq_None_iff)

lemma map_of_drop_key: "map_of (drop_key k kvs) = (map_of kvs)(k := None)"
  unfolding drop_key_def by (induction kvs) (auto simp: fun_eq_iff)

lemma sorted_drop_key: "sorted_wrt lt (map fst kvs) \<Longrightarrow> sorted_wrt lt (map fst (drop_key k kvs))"
  unfolding drop_key_def by (induction kvs) auto

lemma drop_key_id: "k \<notin> fst ` set kvs \<Longrightarrow> drop_key k kvs = kvs"
  unfolding drop_key_def by (induction kvs) auto

section \<open>The contract\<close>

text \<open>
  \<open>ok\<close> holds of the lists the operations make, \<open>items\<close> are the elements in list order, \<open>cmp\<close> is
  the comparator a list was made with and \<open>precedes\<close> the order of its keys.
\<close>

locale skip_list =
  fixes ops :: "('s, 'c, 'v) skiplist_ops"
    and ok :: "'s \<Rightarrow> bool"
    and items :: "'s \<Rightarrow> (int \<times> 'v) list"
    and cmp :: "'s \<Rightarrow> 'c"
    and precedes :: "'c \<Rightarrow> int \<Rightarrow> int \<Rightarrow> bool"
  assumes before_linear: "strict_linear (precedes c)"
    and items_sorted: "ok s \<Longrightarrow> sorted_wrt (precedes (cmp s)) (map fst (items s))"
    and New: "ok (sl_New ops c)" "items (sl_New ops c) = []" "cmp (sl_New ops c) = c"
    and Len: "ok s \<Longrightarrow> sl_Len ops s = length (items s)"
    and Front: "ok s \<Longrightarrow> sl_Front ops s = (case items s of [] \<Rightarrow> None | x # _ \<Rightarrow> Some x)"
    and Next: "ok s \<Longrightarrow> sl_Next ops s k = after k (items s)"
    and Get: "ok s \<Longrightarrow> sl_Get ops s k = map_of (items s) k"
    and Set: "ok s \<Longrightarrow> ok (sl_Set ops k v s)" "ok s \<Longrightarrow> cmp (sl_Set ops k v s) = cmp s"
      "ok s \<Longrightarrow> map_of (items (sl_Set ops k v s)) = (map_of (items s))(k \<mapsto> v)"
    and Remove: "ok s \<Longrightarrow> ok (sl_Remove ops k s)" "ok s \<Longrightarrow> cmp (sl_Remove ops k s) = cmp s"
      "ok s \<Longrightarrow> map_of (items (sl_Remove ops k s)) = (map_of (items s))(k := None)"
begin

lemma items_distinct: "ok s \<Longrightarrow> distinct (map fst (items s))"
  using items_sorted before_linear by (blast intro: sorted_distinct)

lemma items_Set_mem:
  assumes "ok s" "k \<in> fst ` set (items s)"
  shows "items (sl_Set ops k v s) = set_val k v (items s)"
  using assms Set [OF assms(1)] items_sorted [OF assms(1)] items_sorted [OF Set(1) [OF assms(1)], of k v]
  by (intro map_of_unique [OF before_linear, of "cmp s"]) (simp_all add: map_of_set_val)

lemma items_Remove:
  assumes "ok s"
  shows "items (sl_Remove ops k s) = drop_key k (items s)"
  using Remove [OF assms] items_sorted [OF assms] items_sorted [OF Remove(1) [OF assms], of k]
  by (intro map_of_unique [OF before_linear, of "cmp s"])
    (simp_all add: map_of_drop_key sorted_drop_key)

lemma items_front:
  assumes "ok s" "items s = (k, w) # rest"
  shows "items (sl_Set ops k v s) = (k, v) # rest" "items (sl_Remove ops k s) = rest"
proof -
  have notin: "k \<notin> fst ` set rest" using items_distinct [OF assms(1)] assms(2) by auto
  then have "set_val k v rest = rest" by (rule set_val_id)
  then show "items (sl_Set ops k v s) = (k, v) # rest"
    using items_Set_mem [OF assms(1), of k] assms(2) by (simp add: set_val_def)
  show "items (sl_Remove ops k s) = rest"
    using items_Remove [OF assms(1)] assms(2) drop_key_id [OF notin] by (simp add: drop_key_def)
qed

text \<open>A new key goes between the keys before it and those after it.\<close>

lemma items_Set_new:
  assumes "ok s" "k \<notin> fst ` set (items s)"
  shows "\<exists>xs ys. items s = xs @ ys \<and> items (sl_Set ops k v s) = xs @ (k, v) # ys"
proof -
  let ?t = "sl_Set ops k v s"
  have "map_of (items ?t) k = Some v" using Set(3) [OF assms(1)] by simp
  then obtain xs ys where t: "items ?t = xs @ (k, v) # ys"
    by (meson map_of_SomeD split_list)
  have dist: "distinct (map fst (items ?t))" using items_distinct Set(1) assms(1) by blast
  have "map_of (xs @ ys) = (map_of (items ?t))(k := None)"
    using dist unfolding t by (intro map_of_middle) auto
  also have "\<dots> = map_of (items s)"
    using Set(3) [OF assms(1)] assms(2) by (metis fun_upd_triv fun_upd_upd map_of_eq_None_iff)
  finally have "map_of (xs @ ys) = map_of (items s)" .
  moreover have "sorted_wrt (precedes (cmp s)) (map fst (xs @ ys))"
    using items_sorted [OF Set(1) [OF assms(1)], of k v] Set(2) [OF assms(1)] unfolding t
    by (auto simp: sorted_wrt_append)
  ultimately have "xs @ ys = items s"
    using items_sorted [OF assms(1)] by (intro map_of_unique [OF before_linear])
  with t show ?thesis by metis
qed

end

section \<open>A reference implementation\<close>

text \<open>A list in key order with its comparator, for any order of the keys.\<close>

fun ins_key :: "(int \<Rightarrow> int \<Rightarrow> bool) \<Rightarrow> int \<Rightarrow> 'v \<Rightarrow> (int \<times> 'v) list \<Rightarrow> (int \<times> 'v) list" where
  "ins_key lt k v [] = [(k, v)]"
| "ins_key lt k v ((j, w) # kvs) =
     (if j = k then (k, v) # kvs
      else if lt k j then (k, v) # (j, w) # kvs
      else (j, w) # ins_key lt k v kvs)"

definition list_ops ::
  "('c \<Rightarrow> int \<Rightarrow> int \<Rightarrow> bool) \<Rightarrow> ('c \<times> (int \<times> 'v) list, 'c, 'v) skiplist_ops" where
  "list_ops precedes =
     \<lparr>sl_New = (\<lambda>c. (c, [])),
      sl_Len = (\<lambda>s. length (snd s)),
      sl_Front = (\<lambda>s. case snd s of [] \<Rightarrow> None | x # _ \<Rightarrow> Some x),
      sl_Next = (\<lambda>s k. after k (snd s)),
      sl_Get = (\<lambda>s k. map_of (snd s) k),
      sl_Set = (\<lambda>k v s. (fst s, ins_key (precedes (fst s)) k v (snd s))),
      sl_Remove = (\<lambda>k s. (fst s, drop_key k (snd s)))\<rparr>"

definition list_ok :: "('c \<Rightarrow> int \<Rightarrow> int \<Rightarrow> bool) \<Rightarrow> 'c \<times> (int \<times> 'v) list \<Rightarrow> bool" where
  "list_ok precedes s \<longleftrightarrow> sorted_wrt (precedes (fst s)) (map fst (snd s))"

lemma map_of_ins_key:
  "strict_linear lt \<Longrightarrow> sorted_wrt lt (map fst kvs) \<Longrightarrow> map_of (ins_key lt k v kvs) = (map_of kvs)(k \<mapsto> v)"
  by (induction lt k v kvs rule: ins_key.induct) (auto simp: fun_eq_iff)

lemma keys_ins_key: "set (map fst (ins_key lt k v kvs)) = insert k (set (map fst kvs))"
  by (induction lt k v kvs rule: ins_key.induct) auto

lemma sorted_ins_key:
  assumes "strict_linear lt" "sorted_wrt lt (map fst kvs)"
  shows "sorted_wrt lt (map fst (ins_key lt k v kvs))"
  using assms(2)
proof (induction kvs)
  case (Cons x kvs)
  obtain j w where x: "x = (j, w)" by (cases x)
  have "lt j k" if "j \<noteq> k" "\<not> lt k j" using assms(1) that by (auto simp: strict_linear_def)
  moreover have "lt k i" if "lt k j" "lt j i" for i
    using assms(1) that unfolding strict_linear_def by blast
  ultimately show ?case
    using Cons keys_ins_key [of lt k v kvs] by (auto simp: x)
qed simp

lemma skip_list_list_ops:
  assumes "\<And>c. strict_linear (precedes c)"
  shows "skip_list (list_ops precedes) (list_ok precedes) snd fst precedes"
  by unfold_locales
    (auto simp: list_ops_def list_ok_def assms sorted_ins_key map_of_ins_key map_of_drop_key
      sorted_drop_key)

end
