(* ===== verification/Sequencer.thy ===== *)
theory Sequencer
  imports Prelude
begin

text \<open>
  \<^verbatim>\<open>src/biz/service/sequencer.go\<close>: the generator of global sequence numbers. A number is the
  10-bit node id above a 40-bit local counter; the local counter is an atomic \<open>uint64\<close>, so one
  call of \<open>NextGlobalSeq\<close> is one step of the state.
\<close>

unbundle bit_operations_syntax

record Sequencer =
  sq_nodeID :: u64
  sq_localSeq :: u64
  sq_symbolSeq :: "string \<rightharpoonup> u64"

definition NewSequencer :: Sequencer where
  "NewSequencer = \<lparr>sq_nodeID = 0, sq_localSeq = 0, sq_symbolSeq = Map.empty\<rparr>"

definition NewSequencerWithNodeID :: "u64 \<Rightarrow> Sequencer outcome" where
  "NewSequencerWithNodeID nodeID =
     (if nodeID > 1023 then Panics
      else Returns \<lparr>sq_nodeID = nodeID AND 0x3FF, sq_localSeq = 0, sq_symbolSeq = Map.empty\<rparr>)"

definition global_seq :: "u64 \<Rightarrow> u64 \<Rightarrow> u64" where
  "global_seq nodeID local =
     (if nodeID = 0 then local else push_bit 40 nodeID OR (local AND 0xFFFFFFFFFF))"

definition NextGlobalSeq :: "Sequencer \<Rightarrow> u64 \<times> Sequencer" where
  "NextGlobalSeq s =
     (let local = sq_localSeq s + 1
      in (global_seq (sq_nodeID s) local, s\<lparr>sq_localSeq := local\<rparr>))"

definition NextSymbolSeq :: "string \<Rightarrow> Sequencer \<Rightarrow> u64 \<times> Sequencer" where
  "NextSymbolSeq symbol s =
     (let seq = mget 0 (sq_symbolSeq s) symbol + 1
      in (seq, s\<lparr>sq_symbolSeq := (sq_symbolSeq s)(symbol \<mapsto> seq)\<rparr>))"

definition GetCurrentGlobalSeq :: "Sequencer \<Rightarrow> u64" where
  "GetCurrentGlobalSeq s = global_seq (sq_nodeID s) (sq_localSeq s)"

definition GetNodeID :: "Sequencer \<Rightarrow> u64" where
  "GetNodeID s = sq_nodeID s"

definition GetSymbolSeq :: "string \<Rightarrow> Sequencer \<Rightarrow> u64" where
  "GetSymbolSeq symbol s = mget 0 (sq_symbolSeq s) symbol"

definition SetSymbolSeq :: "string \<Rightarrow> u64 \<Rightarrow> Sequencer \<Rightarrow> Sequencer" where
  "SetSymbolSeq symbol seq s = s\<lparr>sq_symbolSeq := (sq_symbolSeq s)(symbol \<mapsto> seq)\<rparr>"

text \<open>The numbers that \<open>n\<close> calls of \<open>NextGlobalSeq\<close> in a row return.\<close>

fun next_seqs :: "nat \<Rightarrow> Sequencer \<Rightarrow> u64 list \<times> Sequencer" where
  "next_seqs 0 s = ([], s)"
| "next_seqs (Suc n) s =
     (let (x, s1) = NextGlobalSeq s; (xs, s2) = next_seqs n s1 in (x # xs, s2))"

text \<open>The sequencer after other goroutines have drawn \<open>n\<close> numbers from it.\<close>

definition others_draw :: "nat \<Rightarrow> Sequencer \<Rightarrow> Sequencer" where
  "others_draw n s = snd (next_seqs n s)"

section \<open>The two fields of a number\<close>

lemma mask40: "(0xFFFFFFFFFF :: u64) = mask 40"
  by (simp add: mask_eq_exp_minus_1)

lemma mask10: "(0x3FF :: u64) = mask 10"
  by (simp add: mask_eq_exp_minus_1)

lemma small_and_mask10: "(n :: u64) \<le> 1023 \<Longrightarrow> n AND 0x3FF = n"
  using less_mask_eq [of n 10] by (simp add: word_le_nat_alt word_less_nat_alt flip: mask10)

lemma drop_global_seq:
  assumes "n \<noteq> 0" "n \<le> (1023 :: u64)"
  shows "drop_bit 40 (global_seq n l) = n"
proof (rule bit_word_eqI)
  fix i assume "i < LENGTH(64)"
  have bound: "bit n i \<Longrightarrow> i < 10"
    using small_and_mask10 [OF assms(2)] unfolding mask10
    by (metis bit_and_iff bit_mask_iff)
  show "bit (drop_bit 40 (global_seq n l)) i = bit n i"
    using assms(1) bound
    by (auto simp: global_seq_def mask40 bit_simps)
qed

lemma take_global_seq:
  "n \<noteq> 0 \<Longrightarrow> take_bit 40 (global_seq n l) = take_bit 40 l"
  by (rule bit_word_eqI) (auto simp: global_seq_def mask40 bit_simps)

lemma NewSequencerWithNodeID_id:
  "NewSequencerWithNodeID n = Returns s \<Longrightarrow> sq_nodeID s = n \<and> n \<le> 1023"
  by (auto simp: NewSequencerWithNodeID_def small_and_mask10 not_less split: if_splits)

section \<open>Runs of one sequencer\<close>

lemma next_seqs_run:
  "next_seqs n s =
     (map (\<lambda>i. global_seq (sq_nodeID s) (sq_localSeq s + 1 + of_nat i)) [0..<n],
      s\<lparr>sq_localSeq := sq_localSeq s + of_nat n\<rparr>)"
proof (induction n arbitrary: s)
  case 0
  then show ?case by simp
next
  case (Suc n)
  then show ?case
    by (simp add: NextGlobalSeq_def Let_def map_upt_Suc add_ac del: upt_Suc)
qed

lemma others_draw_run: "others_draw n s = s\<lparr>sq_localSeq := sq_localSeq s + of_nat n\<rparr>"
  by (simp add: others_draw_def next_seqs_run)

lemma local_small: "k < 2 ^ 40 \<Longrightarrow> take_bit 40 (of_nat k :: u64) = of_nat k"
  by (metis of_nat_take_bit take_bit_nat_eq_self)

lemma unat_small: "k < 2 ^ 40 \<Longrightarrow> unat (of_nat k :: u64) = k"
  unfolding unat_of_nat by (rule mod_less) (erule less_le_trans, simp)

lemma uint_fields: "uint w = 2 ^ 40 * uint (drop_bit 40 w) + uint (take_bit 40 w)" for w :: u64
  by (simp add: drop_bit_eq_div take_bit_eq_mod uint_div_distrib uint_mod_distrib)

lemma word_less_fields:
  fixes a b :: u64
  assumes "drop_bit 40 a = drop_bit 40 b" "take_bit 40 a < take_bit 40 b"
  shows "a < b"
  using assms by (simp add: word_less_def uint_fields [of a] uint_fields [of b])

lemma global_seq_less:
  assumes n: "n \<le> (1023 :: u64)" and "j < k" and k: "k < 2 ^ 40"
  shows "global_seq n (of_nat j) < global_seq n (of_nat k)"
proof -
  have j: "j < 2 ^ 40" using \<open>j < k\<close> k by (rule less_trans)
  have less: "(of_nat j :: u64) < of_nat k"
    unfolding word_less_nat_alt unat_small [OF j] unat_small [OF k] by fact
  show ?thesis
  proof (cases "n = 0")
    case True
    with less show ?thesis by (simp add: global_seq_def)
  next
    case False
    show ?thesis
    proof (rule word_less_fields)
      show "drop_bit 40 (global_seq n (of_nat j)) = drop_bit 40 (global_seq n (of_nat k))"
        by (simp only: drop_global_seq [OF False n])
      show "take_bit 40 (global_seq n (of_nat j)) < take_bit 40 (global_seq n (of_nat k))"
        unfolding take_global_seq [OF False] local_small [OF j] local_small [OF k] by (fact less)
    qed
  qed
qed

lemma global_seq_bound:
  assumes n: "n \<le> (1023 :: u64)" and k: "k < 2 ^ 40"
  shows "unat (global_seq n (of_nat k)) < 2 ^ 50"
proof (cases "n = 0")
  case True
  with k show ?thesis by (simp add: global_seq_def unat_small)
next
  case False
  define t where "t = uint (take_bit 40 (of_nat k :: u64))"
  have "uint n \<le> 1023" using n by (simp add: word_le_def)
  moreover have "t < 2 ^ 40"
    unfolding t_def take_bit_eq_mask by (rule and_mask_lt_2p)
  ultimately have "2 ^ 40 * uint n + t < 2 ^ 50" by simp
  then have "uint (global_seq n (of_nat k)) < 2 ^ 50"
    unfolding uint_fields [of "global_seq n (of_nat k)"] drop_global_seq [OF False n]
      take_global_seq [OF False] t_def .
  then show ?thesis unfolding unat_eq_nat_uint by (simp add: nat_less_iff del: nat_uint_eq)
qed

lemma set_next_seqs:
  "set (fst (next_seqs k s)) =
     (\<lambda>i. global_seq (sq_nodeID s) (sq_localSeq s + 1 + of_nat i)) ` {0..<k}"
  by (simp add: next_seqs_run)

lemma New_next_seqs:
  assumes "NewSequencerWithNodeID n = Returns s"
  shows "fst (next_seqs k s) = map (\<lambda>i. global_seq n (of_nat (Suc i))) [0..<k]"
  using assms by (auto simp: next_seqs_run NewSequencerWithNodeID_def small_and_mask10 not_less
      split: if_splits)

section \<open>Properties\<close>

text \<open>
  C11. A sequencer made by \<open>NewSequencerWithNodeID\<close> returns strictly increasing numbers, all below
  \<open>2 ^ 50\<close> (hence positive as the \<open>int64\<close> the tables store), for as long as its 40-bit counter
  has not run out; \<open>GetCurrentGlobalSeq\<close> then reads the last of them.
\<close>

theorem next_global_seq_increasing:
  assumes new: "NewSequencerWithNodeID n = Returns s" and k: "k < 2 ^ 40"
  shows "sorted_wrt (<) (fst (next_seqs k s)) \<and>
         (\<forall>x \<in> set (fst (next_seqs k s)). unat x < 2 ^ 50) \<and>
         (0 < k \<longrightarrow> GetCurrentGlobalSeq (snd (next_seqs k s)) = last (fst (next_seqs k s)))"
proof (intro conjI impI)
  have n: "n \<le> 1023" using NewSequencerWithNodeID_id [OF new] by simp
  show "sorted_wrt (<) (fst (next_seqs k s))"
    unfolding New_next_seqs [OF new] sorted_wrt_map
  proof (rule sorted_wrt_mono_rel [OF _ sorted_wrt_upt])
    fix i j assume "i \<in> set [0..<k]" "j \<in> set [0..<k]" "i < j"
    with k show "global_seq n (of_nat (Suc i)) < global_seq n (of_nat (Suc j))"
      by (intro global_seq_less [OF n]) auto
  qed
  show "\<forall>x \<in> set (fst (next_seqs k s)). unat x < 2 ^ 50"
    unfolding New_next_seqs [OF new] set_map
  proof (intro ballI, elim imageE)
    fix x i assume "x = global_seq n (of_nat (Suc i))" "i \<in> set [0..<k]"
    with k global_seq_bound [OF n, of "Suc i"] show "unat x < 2 ^ 50" by simp
  qed
  show "GetCurrentGlobalSeq (snd (next_seqs k s)) = last (fst (next_seqs k s))" if "0 < k"
    using that by (cases k) (simp_all add: next_seqs_run GetCurrentGlobalSeq_def add_ac)
qed

theorem next_global_seq_increasing_witness:
  "\<exists>s. NewSequencerWithNodeID 7 = Returns s \<and> fst (next_seqs 2 s) = [7696581394433, 7696581394434]
     \<and> sorted_wrt (<) (fst (next_seqs 2 s))"
proof -
  obtain s where s: "NewSequencerWithNodeID 7 = Returns s"
    by (simp add: NewSequencerWithNodeID_def)
  from s have "fst (next_seqs 2 s) = [7696581394433, 7696581394434]"
    by (simp add: New_next_seqs global_seq_def upt_conv_Cons)
  moreover have "(2 :: nat) < 2 ^ 40" by simp
  note conjunct1 [OF next_global_seq_increasing [OF s this]]
  ultimately show ?thesis using s by blast
qed

text \<open>
  The node id can be read back from a number, with id 0 as well as long as the 40-bit counter has not run
  out. So the numbers of two sequencers are disjoint exactly if their node ids differ.
\<close>

lemma drop_node:
  assumes "NewSequencerWithNodeID n = Returns s" "x \<in> set (fst (next_seqs i s))" "i < 2 ^ 40"
  shows "drop_bit 40 x = n"
proof -
  obtain j where j: "j < i" "x = global_seq n (of_nat (Suc j))"
    using assms(2) unfolding New_next_seqs [OF assms(1)] by auto
  show ?thesis
  proof (cases "n = 0")
    case True
    have "unat (of_nat (Suc j) :: u64) = Suc j" using j(1) assms(3) by (intro unat_small) simp
    then have "unat (drop_bit 40 (of_nat (Suc j) :: u64)) = Suc j div 2 ^ 40"
      unfolding unat_drop_bit_eq by (simp only: drop_bit_eq_div)
    also have "\<dots> = 0" using j(1) assms(3) by simp
    finally have "drop_bit 40 (of_nat (Suc j) :: u64) = 0" by (simp only: unat_eq_0)
    with True j(2) show ?thesis by (simp add: global_seq_def del: of_nat_Suc)
  next
    case False
    with j(2) NewSequencerWithNodeID_id [OF assms(1)] show ?thesis by (simp add: drop_global_seq)
  qed
qed

lemma next_global_seq_disjoint_iff:
  assumes a: "NewSequencerWithNodeID m = Returns a" and b: "NewSequencerWithNodeID n = Returns b"
    and j: "0 < j" "j < 2 ^ 40" and k: "0 < k" "k < 2 ^ 40"
  shows "set (fst (next_seqs j a)) \<inter> set (fst (next_seqs k b)) = {} \<longleftrightarrow> m \<noteq> n"
proof (cases "m = n")
  case True
  have "global_seq m (of_nat (Suc 0)) \<in> set (fst (next_seqs j a)) \<inter> set (fst (next_seqs k b))"
    unfolding New_next_seqs [OF a] New_next_seqs [OF b] True set_map
    by (rule IntI; rule imageI; use j(1) k(1) in simp)
  with True show ?thesis by blast
next
  case False
  with drop_node [OF a _ j(2)] drop_node [OF b _ k(2)] show ?thesis by blast
qed

text \<open>
  Each symbol has its own number space: \<open>NextSymbolSeq\<close> steps one of them, and recovery's
  \<open>SetSymbolSeq\<close> makes the next number of that symbol the successor of the restored one.
\<close>

lemma symbol_seq_laws:
  "GetSymbolSeq t (snd (NextSymbolSeq u s)) = (if t = u then GetSymbolSeq t s + 1 else GetSymbolSeq t s)"
  "fst (NextSymbolSeq u s) = GetSymbolSeq u s + 1"
  "GetSymbolSeq t (SetSymbolSeq u q s) = (if t = u then q else GetSymbolSeq t s)"
  "sq_localSeq (snd (NextSymbolSeq u s)) = sq_localSeq s"
  by (simp_all add: GetSymbolSeq_def NextSymbolSeq_def SetSymbolSeq_def Let_def)

end
