(* ===== verification/Json.thy ===== *)
theory Json
  imports Prelude
begin

text \<open>
  The part of Go's \<^verbatim>\<open>encoding/json\<close> the program uses: encoding structs of strings and integers,
  and decoding a document into such a struct. Documents are trees (\<open>json\<close>); their textual syntax
  is not modelled, and bytes that are no JSON text at all are the \<open>None\<close> of a \<open>json option\<close>.

  \<^item> Encoding replaces what is not UTF-8 in a string by U+FFFD (\<open>utf8_coerce\<close>).
  \<^item> Decoding matches keys up to case folding, ignores unknown keys, lets the last of several equal
    keys win, leaves a field alone at \<^verbatim>\<open>null\<close>, and fails when a value has the wrong type or an
    integer is out of range.
\<close>

section \<open>Documents\<close>

datatype json =
    JNull
  | JBool bool
  | JNum string
  | JStr string
  | JArr "json list"
  | JObj "(string \<times> json) list"

section \<open>UTF-8\<close>

definition in_rng :: "nat \<Rightarrow> nat \<Rightarrow> char \<Rightarrow> bool" where
  "in_rng lo hi c \<longleftrightarrow> lo \<le> of_char c \<and> of_char c \<le> hi"

text \<open>The number of bytes of the rune at the front, \<open>0\<close> when the bytes there encode none.\<close>

fun rune_len :: "string \<Rightarrow> nat" where
  "rune_len [] = 0"
| "rune_len (a # s) =
     (if in_rng 0 0x7F a then 1
      else case s of
        [] \<Rightarrow> 0
      | b # s' \<Rightarrow>
          if in_rng 0xC2 0xDF a then (if in_rng 0x80 0xBF b then 2 else 0)
          else case s' of
            [] \<Rightarrow> 0
          | c # s'' \<Rightarrow>
              if in_rng 0xE0 0xEF a then
                (if in_rng (if in_rng 0xE0 0xE0 a then 0xA0 else 0x80)
                      (if in_rng 0xED 0xED a then 0x9F else 0xBF) b \<and> in_rng 0x80 0xBF c
                 then 3 else 0)
              else case s'' of
                [] \<Rightarrow> 0
              | d # _ \<Rightarrow>
                  if in_rng 0xF0 0xF4 a \<and>
                     in_rng (if in_rng 0xF0 0xF0 a then 0x90 else 0x80)
                       (if in_rng 0xF4 0xF4 a then 0x8F else 0xBF) b \<and>
                     in_rng 0x80 0xBF c \<and> in_rng 0x80 0xBF d
                  then 4 else 0)"

definition replacement_rune :: string where
  "replacement_rune = [CHR 0xEF, CHR 0xBF, CHR 0xBD]"

function utf8_coerce :: "string \<Rightarrow> string" where
  "utf8_coerce [] = []"
| "utf8_coerce (c # s) =
     (let n = rune_len (c # s)
      in if n = 0 then replacement_rune @ utf8_coerce s
         else take n (c # s) @ utf8_coerce (drop n (c # s)))"
  by pat_completeness auto
termination
  by (relation "measure length") auto

function utf8_valid :: "string \<Rightarrow> bool" where
  "utf8_valid [] = True"
| "utf8_valid (c # s) =
     (let n = rune_len (c # s) in n \<noteq> 0 \<and> (n \<noteq> 0 \<longrightarrow> utf8_valid (drop n (c # s))))"
  by pat_completeness auto
termination
  by (relation "measure length") auto

declare utf8_coerce.simps(2) [simp del] utf8_valid.simps(2) [simp del]

lemma utf8_coerce_valid [simp]: "utf8_valid s \<Longrightarrow> utf8_coerce s = s"
proof (induction s rule: utf8_coerce.induct)
  case (2 c s)
  then show ?case
    by (simp add: utf8_coerce.simps(2) utf8_valid.simps(2) Let_def)
qed simp

section \<open>Encoding\<close>

definition enc_str :: "string \<Rightarrow> json" where
  "enc_str s = JStr (utf8_coerce s)"

definition enc_i64 :: "int \<Rightarrow> json" where
  "enc_i64 i = JNum (show_int i)"

definition enc_u64 :: "u64 \<Rightarrow> json" where
  "enc_u64 w = JNum (show_nat (unat w))"

section \<open>Decoding\<close>

text \<open>\<^verbatim>\<open>strconv.ParseUint\<close> and \<^verbatim>\<open>strconv.ParseInt\<close> in base 10 on a number literal.\<close>

definition all_digits :: "string \<Rightarrow> bool" where
  "all_digits s \<longleftrightarrow> s \<noteq> [] \<and> list_all (\<lambda>c. in_rng 48 57 c) s"

definition parse_uint :: "string \<Rightarrow> u64 option" where
  "parse_uint s =
     (if all_digits s \<and> digits_val s < 2 ^ 64 then Some (of_nat (digits_val s)) else None)"

definition parse_int :: "string \<Rightarrow> int option" where
  "parse_int s =
     (case s of
        [] \<Rightarrow> None
      | c # t \<Rightarrow>
          let ds = (if c = CHR ''-'' then t else s);
              v = (if c = CHR ''-'' then - int (digits_val t) else int (digits_val s))
          in if all_digits ds \<and> in_i64 v then Some v else None)"

definition dec_str :: "json \<Rightarrow> (string \<Rightarrow> 'e \<Rightarrow> 'e) \<Rightarrow> 'e \<Rightarrow> 'e option" where
  "dec_str j put e = (case j of JStr s \<Rightarrow> Some (put s e) | JNull \<Rightarrow> Some e | _ \<Rightarrow> None)"

definition dec_i64 :: "json \<Rightarrow> (int \<Rightarrow> 'e \<Rightarrow> 'e) \<Rightarrow> 'e \<Rightarrow> 'e option" where
  "dec_i64 j put e =
     (case j of JNum n \<Rightarrow> map_option (\<lambda>v. put v e) (parse_int n) | JNull \<Rightarrow> Some e | _ \<Rightarrow> None)"

definition dec_u64 :: "json \<Rightarrow> (u64 \<Rightarrow> 'e \<Rightarrow> 'e) \<Rightarrow> 'e \<Rightarrow> 'e option" where
  "dec_u64 j put e =
     (case j of JNum n \<Rightarrow> map_option (\<lambda>v. put v e) (parse_uint n) | JNull \<Rightarrow> Some e | _ \<Rightarrow> None)"

text \<open>
  Key matching folds case: ASCII letters, the Kelvin sign and the long s. The codes 97 to 122 are
  those with bits 6 and 5 set, bit 7 clear and the low five bits between 1 and 26.
\<close>

fun upper :: "char \<Rightarrow> char" where
  "upper (Char b0 b1 b2 b3 b4 b5 b6 b7) =
     Char b0 b1 b2 b3 b4
       (b5 \<and> \<not> (\<not> b7 \<and> b6 \<and> (b0 \<or> b1 \<or> b2 \<or> b3 \<or> b4) \<and> \<not> (b4 \<and> b3 \<and> (b2 \<or> b1 \<and> b0)))) b6 b7"

fun fold_name :: "string \<Rightarrow> string" where
  "fold_name [] = []"
| "fold_name (a # s) =
     (case s of
        b # c # t \<Rightarrow>
          if a = CHR 0xE2 \<and> b = CHR 0x84 \<and> c = CHR 0xAA
          then CHR ''K'' # fold_name t
          else if a = CHR 0xC5 \<and> b = CHR 0xBF
          then CHR ''S'' # fold_name (c # t)
          else upper a # fold_name s
      | [b] \<Rightarrow>
          if a = CHR 0xC5 \<and> b = CHR 0xBF then ''S''
          else upper a # fold_name s
      | [] \<Rightarrow> [upper a])"

declare fold_name.simps(2) [simp del]

fun ascii :: "char \<Rightarrow> bool" where
  "ascii (Char b0 b1 b2 b3 b4 b5 b6 b7) = (\<not> b7)"

lemma fold_name_ascii: "list_all ascii s \<Longrightarrow> fold_name s = map upper s"
proof (induction s)
  case (Cons a s)
  then have "a \<noteq> CHR 0xE2" "a \<noteq> CHR 0xC5" by auto
  with Cons show ?case by (auto simp: fold_name.simps(2) [of a s] split: list.split)
qed simp

text \<open>A struct type is its fields in order, each with the action that stores a value.\<close>

type_synonym 'e fields = "(string \<times> (json \<Rightarrow> 'e \<Rightarrow> 'e option)) list"

definition find_field :: "'e fields \<Rightarrow> string \<Rightarrow> (json \<Rightarrow> 'e \<Rightarrow> 'e option) option" where
  "find_field fs k = map_option snd (find (\<lambda>f. fold_name (fst f) = fold_name k) fs)"

fun dec_members :: "'e fields \<Rightarrow> (string \<times> json) list \<Rightarrow> 'e \<Rightarrow> 'e option" where
  "dec_members fs [] e = Some e"
| "dec_members fs ((k, j) # kjs) e =
     (case find_field fs k of
        None \<Rightarrow> dec_members fs kjs e
      | Some act \<Rightarrow> (case act j e of None \<Rightarrow> None | Some e' \<Rightarrow> dec_members fs kjs e'))"

definition dec_struct :: "'e fields \<Rightarrow> 'e \<Rightarrow> json option \<Rightarrow> 'e option" where
  "dec_struct fs zero doc =
     (case doc of
        Some (JObj kjs) \<Rightarrow> dec_members fs kjs zero
      | Some JNull \<Rightarrow> Some zero
      | _ \<Rightarrow> None)"

section \<open>Encoded values decode to themselves\<close>

lemma all_digits_show_nat [simp]: "all_digits (show_nat n)"
proof -
  have "show_nat n \<noteq> []" by (subst show_nat.simps) simp
  then show ?thesis
    by (auto simp: all_digits_def list_all_iff in_rng_def of_char_digit dest!: show_nat_digits)
qed

lemma parse_uint_show [simp]: "parse_uint (show_nat (unat w)) = Some w"
  using unsigned_less [of w, where 'a = nat] by (simp add: parse_uint_def)

lemma show_nat_Cons: "\<exists>c t. show_nat n = c # t \<and> c \<noteq> CHR ''-''"
  using all_digits_show_nat [of n] minus_notin_show_nat [of n]
  by (cases "show_nat n") (auto simp: all_digits_def)

lemma parse_int_show [simp]:
  assumes "in_i64 i"
  shows "parse_int (show_int i) = Some i"
proof (cases "i < 0")
  case True
  with assms show ?thesis by (simp add: parse_int_def show_int_def)
next
  case False
  obtain c t where ct: "show_nat (nat i) = c # t" "c \<noteq> CHR ''-''"
    using show_nat_Cons by blast
  have "all_digits (c # t)" "digits_val (c # t) = nat i"
    using all_digits_show_nat [of "nat i"] digits_val_show_nat [of "nat i"] by (simp_all add: ct)
  with False assms ct show ?thesis by (simp add: parse_int_def show_int_def Let_def)
qed

lemma dec_enc [simp]:
  "utf8_valid s \<Longrightarrow> dec_str (enc_str s) f e = Some (f s e)"
  "in_i64 i \<Longrightarrow> dec_i64 (enc_i64 i) g e = Some (g i e)"
  "dec_u64 (enc_u64 w) h e = Some (h w e)"
  by (simp_all add: dec_str_def enc_str_def dec_i64_def enc_i64_def dec_u64_def enc_u64_def)

text \<open>A struct encoded field by field is decoded field by field.\<close>

fun dec_each :: "(json \<Rightarrow> 'e \<Rightarrow> 'e option) list \<Rightarrow> json list \<Rightarrow> 'e \<Rightarrow> 'e option" where
  "dec_each (act # acts) (j # js) e = (case act j e of None \<Rightarrow> None | Some e' \<Rightarrow> dec_each acts js e')"
| "dec_each acts js e = Some e"

definition fields_ok :: "'e fields \<Rightarrow> bool" where
  "fields_ok fs \<longleftrightarrow> distinct (map fold_name (map fst fs))"

lemma fields_okI:
  assumes "list_all (list_all ascii) (map fst fs)" "distinct (map (map upper) (map fst fs))"
  shows "fields_ok fs"
proof -
  have "map fold_name ns = map (map upper) ns" if "list_all (list_all ascii) ns" for ns
    using that by (induction ns) (simp_all add: fold_name_ascii)
  from this [OF assms(1)] show ?thesis
    unfolding fields_ok_def using assms(2) by (simp only:)
qed

lemma find_field_mem: "fields_ok fs \<Longrightarrow> (k, act) \<in> set fs \<Longrightarrow> find_field fs k = Some act"
  by (induction fs) (auto simp: fields_ok_def find_field_def image_iff)

lemma dec_members_all:
  assumes "fields_ok fs" "set gs \<subseteq> set fs" "length js = length gs"
  shows "dec_members fs (zip (map fst gs) js) e = dec_each (map snd gs) js e"
  using assms(2,3)
proof (induction gs arbitrary: js e)
  case (Cons g gs)
  obtain k act where g: "g = (k, act)" by (cases g)
  obtain j js' where "js = j # js'" using Cons.prems(2) by (cases js) auto
  with Cons g find_field_mem [OF assms(1), of k act] show ?case
    by (simp split: option.split)
qed simp

lemma dec_struct_all:
  assumes "fields_ok fs" "length js = length fs"
  shows "dec_struct fs e (Some (JObj (zip (map fst fs) js))) = dec_each (map snd fs) js e"
  using dec_members_all [OF assms(1) order_refl assms(2)] by (simp add: dec_struct_def)

end
