(* ===== verification/Events.thy ===== *)
theory Events
  imports Json
begin

text \<open>
  \<^verbatim>\<open>src/biz/model/event.go\<close> and \<^verbatim>\<open>event_context.go\<close>: the three event types, the envelope they
  travel in, and the context of an event read from Kafka. \<open>MatchingEngineEvent\<close> is the Go
  interface as the sum of its implementations; a nil event is \<open>None\<close>.
\<close>

type_synonym PriceInNano = int
type_synonym QuantityInNano = int

section \<open>Events\<close>

record OrderSubmittedEvent =
  os_Seq :: u64
  os_Timestamp :: int
  os_OrderID :: string
  os_UserID :: string
  os_SymbolStr :: string
  os_Side :: string
  os_Price :: PriceInNano
  os_Quantity :: QuantityInNano
  os_Status :: string

record TradeExecutedEvent =
  te_Seq :: u64
  te_Timestamp :: int
  te_TradeID :: string
  te_SymbolStr :: string
  te_TakerOrderID :: string
  te_MakerOrderID :: string
  te_TakerUser :: string
  te_MakerUser :: string
  te_Price :: PriceInNano
  te_Quantity :: QuantityInNano
  te_TakerSide :: string

record OrderCancelledEvent =
  oc_Seq :: u64
  oc_Timestamp :: int
  oc_OrderID :: string
  oc_SymbolStr :: string
  oc_Reason :: string

datatype MatchingEngineEvent =
    OrderSubmitted OrderSubmittedEvent
  | TradeExecuted TradeExecutedEvent
  | OrderCancelled OrderCancelledEvent

fun EventType :: "MatchingEngineEvent \<Rightarrow> string" where
  "EventType (OrderSubmitted e) = ''order_submitted''"
| "EventType (TradeExecuted e) = ''trade_executed''"
| "EventType (OrderCancelled e) = ''order_cancelled''"

fun EventSeq :: "MatchingEngineEvent \<Rightarrow> u64" where
  "EventSeq (OrderSubmitted e) = os_Seq e"
| "EventSeq (TradeExecuted e) = te_Seq e"
| "EventSeq (OrderCancelled e) = oc_Seq e"

fun EventTimestamp :: "MatchingEngineEvent \<Rightarrow> int" where
  "EventTimestamp (OrderSubmitted e) = os_Timestamp e"
| "EventTimestamp (TradeExecuted e) = te_Timestamp e"
| "EventTimestamp (OrderCancelled e) = oc_Timestamp e"

fun Symbol :: "MatchingEngineEvent \<Rightarrow> string" where
  "Symbol (OrderSubmitted e) = os_SymbolStr e"
| "Symbol (TradeExecuted e) = te_SymbolStr e"
| "Symbol (OrderCancelled e) = oc_SymbolStr e"

definition Min :: "QuantityInNano \<Rightarrow> QuantityInNano \<Rightarrow> QuantityInNano" where
  "Min a b = (if a < b then a else b)"

section \<open>Envelopes\<close>

record EventEnvelope =
  ee_Seq :: u64
  ee_Timestamp :: int
  ee_EventType :: string
  ee_Symbol :: string
  ee_Payload :: "json option"

text \<open>\<^verbatim>\<open>json.Marshal\<close> of the event structs, whose fields carry no tags.\<close>

fun event_json :: "MatchingEngineEvent \<Rightarrow> json" where
  "event_json (OrderSubmitted e) = JObj
     [(''Seq'', enc_u64 (os_Seq e)), (''Timestamp'', enc_i64 (os_Timestamp e)),
      (''OrderID'', enc_str (os_OrderID e)), (''UserID'', enc_str (os_UserID e)),
      (''SymbolStr'', enc_str (os_SymbolStr e)), (''Side'', enc_str (os_Side e)),
      (''Price'', enc_i64 (os_Price e)), (''Quantity'', enc_i64 (os_Quantity e)),
      (''Status'', enc_str (os_Status e))]"
| "event_json (TradeExecuted e) = JObj
     [(''Seq'', enc_u64 (te_Seq e)), (''Timestamp'', enc_i64 (te_Timestamp e)),
      (''TradeID'', enc_str (te_TradeID e)), (''SymbolStr'', enc_str (te_SymbolStr e)),
      (''TakerOrderID'', enc_str (te_TakerOrderID e)), (''MakerOrderID'', enc_str (te_MakerOrderID e)),
      (''TakerUser'', enc_str (te_TakerUser e)), (''MakerUser'', enc_str (te_MakerUser e)),
      (''Price'', enc_i64 (te_Price e)), (''Quantity'', enc_i64 (te_Quantity e)),
      (''TakerSide'', enc_str (te_TakerSide e))]"
| "event_json (OrderCancelled e) = JObj
     [(''Seq'', enc_u64 (oc_Seq e)), (''Timestamp'', enc_i64 (oc_Timestamp e)),
      (''OrderID'', enc_str (oc_OrderID e)), (''SymbolStr'', enc_str (oc_SymbolStr e)),
      (''Reason'', enc_str (oc_Reason e))]"

definition submitted_fields :: "OrderSubmittedEvent fields" where
  "submitted_fields =
     [(''Seq'', \<lambda>j. dec_u64 j (\<lambda>v. os_Seq_update (\<lambda>_. v))),
      (''Timestamp'', \<lambda>j. dec_i64 j (\<lambda>v. os_Timestamp_update (\<lambda>_. v))),
      (''OrderID'', \<lambda>j. dec_str j (\<lambda>v. os_OrderID_update (\<lambda>_. v))),
      (''UserID'', \<lambda>j. dec_str j (\<lambda>v. os_UserID_update (\<lambda>_. v))),
      (''SymbolStr'', \<lambda>j. dec_str j (\<lambda>v. os_SymbolStr_update (\<lambda>_. v))),
      (''Side'', \<lambda>j. dec_str j (\<lambda>v. os_Side_update (\<lambda>_. v))),
      (''Price'', \<lambda>j. dec_i64 j (\<lambda>v. os_Price_update (\<lambda>_. v))),
      (''Quantity'', \<lambda>j. dec_i64 j (\<lambda>v. os_Quantity_update (\<lambda>_. v))),
      (''Status'', \<lambda>j. dec_str j (\<lambda>v. os_Status_update (\<lambda>_. v)))]"

definition trade_fields :: "TradeExecutedEvent fields" where
  "trade_fields =
     [(''Seq'', \<lambda>j. dec_u64 j (\<lambda>v. te_Seq_update (\<lambda>_. v))),
      (''Timestamp'', \<lambda>j. dec_i64 j (\<lambda>v. te_Timestamp_update (\<lambda>_. v))),
      (''TradeID'', \<lambda>j. dec_str j (\<lambda>v. te_TradeID_update (\<lambda>_. v))),
      (''SymbolStr'', \<lambda>j. dec_str j (\<lambda>v. te_SymbolStr_update (\<lambda>_. v))),
      (''TakerOrderID'', \<lambda>j. dec_str j (\<lambda>v. te_TakerOrderID_update (\<lambda>_. v))),
      (''MakerOrderID'', \<lambda>j. dec_str j (\<lambda>v. te_MakerOrderID_update (\<lambda>_. v))),
      (''TakerUser'', \<lambda>j. dec_str j (\<lambda>v. te_TakerUser_update (\<lambda>_. v))),
      (''MakerUser'', \<lambda>j. dec_str j (\<lambda>v. te_MakerUser_update (\<lambda>_. v))),
      (''Price'', \<lambda>j. dec_i64 j (\<lambda>v. te_Price_update (\<lambda>_. v))),
      (''Quantity'', \<lambda>j. dec_i64 j (\<lambda>v. te_Quantity_update (\<lambda>_. v))),
      (''TakerSide'', \<lambda>j. dec_str j (\<lambda>v. te_TakerSide_update (\<lambda>_. v)))]"

definition cancelled_fields :: "OrderCancelledEvent fields" where
  "cancelled_fields =
     [(''Seq'', \<lambda>j. dec_u64 j (\<lambda>v. oc_Seq_update (\<lambda>_. v))),
      (''Timestamp'', \<lambda>j. dec_i64 j (\<lambda>v. oc_Timestamp_update (\<lambda>_. v))),
      (''OrderID'', \<lambda>j. dec_str j (\<lambda>v. oc_OrderID_update (\<lambda>_. v))),
      (''SymbolStr'', \<lambda>j. dec_str j (\<lambda>v. oc_SymbolStr_update (\<lambda>_. v))),
      (''Reason'', \<lambda>j. dec_str j (\<lambda>v. oc_Reason_update (\<lambda>_. v)))]"

definition zero_submitted :: OrderSubmittedEvent where
  "zero_submitted = \<lparr>os_Seq = 0, os_Timestamp = 0, os_OrderID = [], os_UserID = [],
     os_SymbolStr = [], os_Side = [], os_Price = 0, os_Quantity = 0, os_Status = []\<rparr>"

definition zero_trade :: TradeExecutedEvent where
  "zero_trade = \<lparr>te_Seq = 0, te_Timestamp = 0, te_TradeID = [], te_SymbolStr = [],
     te_TakerOrderID = [], te_MakerOrderID = [], te_TakerUser = [], te_MakerUser = [],
     te_Price = 0, te_Quantity = 0, te_TakerSide = []\<rparr>"

definition zero_cancelled :: OrderCancelledEvent where
  "zero_cancelled =
     \<lparr>oc_Seq = 0, oc_Timestamp = 0, oc_OrderID = [], oc_SymbolStr = [], oc_Reason = []\<rparr>"

text \<open>\<^verbatim>\<open>json.Marshal\<close> cannot fail on these structs, so the error result of the Go function is never
  set.\<close>

definition MarshalEvent :: "MatchingEngineEvent \<Rightarrow> EventEnvelope" where
  "MarshalEvent event =
     \<lparr>ee_Seq = EventSeq event, ee_Timestamp = EventTimestamp event,
      ee_EventType = EventType event, ee_Symbol = Symbol event,
      ee_Payload = Some (event_json event)\<rparr>"

definition UnmarshalEvent :: "EventEnvelope \<Rightarrow> go_error + MatchingEngineEvent option" where
  "UnmarshalEvent envelope =
     (if ee_EventType envelope = ''order_submitted''
      then (case dec_struct submitted_fields zero_submitted (ee_Payload envelope) of
              None \<Rightarrow> Inl ''json'' | Some e \<Rightarrow> Inr (Some (OrderSubmitted e)))
      else if ee_EventType envelope = ''trade_executed''
      then (case dec_struct trade_fields zero_trade (ee_Payload envelope) of
              None \<Rightarrow> Inl ''json'' | Some e \<Rightarrow> Inr (Some (TradeExecuted e)))
      else if ee_EventType envelope = ''order_cancelled''
      then (case dec_struct cancelled_fields zero_cancelled (ee_Payload envelope) of
              None \<Rightarrow> Inl ''json'' | Some e \<Rightarrow> Inr (Some (OrderCancelled e)))
      else Inr None)"

text \<open>Events whose strings are UTF-8 and whose integers are \<open>int64\<close> values.\<close>

fun event_ok :: "MatchingEngineEvent \<Rightarrow> bool" where
  "event_ok (OrderSubmitted e) \<longleftrightarrow>
     list_all utf8_valid [os_OrderID e, os_UserID e, os_SymbolStr e, os_Side e, os_Status e] \<and>
     list_all in_i64 [os_Timestamp e, os_Price e, os_Quantity e]"
| "event_ok (TradeExecuted e) \<longleftrightarrow>
     list_all utf8_valid [te_TradeID e, te_SymbolStr e, te_TakerOrderID e, te_MakerOrderID e,
       te_TakerUser e, te_MakerUser e, te_TakerSide e] \<and>
     list_all in_i64 [te_Timestamp e, te_Price e, te_Quantity e]"
| "event_ok (OrderCancelled e) \<longleftrightarrow>
     list_all utf8_valid [oc_OrderID e, oc_SymbolStr e, oc_Reason e] \<and> in_i64 (oc_Timestamp e)"

lemma event_fields_ok:
  "fields_ok submitted_fields" "fields_ok trade_fields" "fields_ok cancelled_fields"
  by (rule fields_okI; simp add: submitted_fields_def trade_fields_def cancelled_fields_def)+

lemma dec_submitted:
  assumes "event_ok (OrderSubmitted e)"
  shows "dec_struct submitted_fields zero_submitted (Some (event_json (OrderSubmitted e))) = Some e"
proof -
  let ?js = "[enc_u64 (os_Seq e), enc_i64 (os_Timestamp e), enc_str (os_OrderID e),
    enc_str (os_UserID e), enc_str (os_SymbolStr e), enc_str (os_Side e), enc_i64 (os_Price e),
    enc_i64 (os_Quantity e), enc_str (os_Status e)]"
  have doc: "event_json (OrderSubmitted e) = JObj (zip (map fst submitted_fields) ?js)"
    by (simp add: submitted_fields_def)
  have "dec_struct submitted_fields zero_submitted (Some (event_json (OrderSubmitted e))) =
      dec_each (map snd submitted_fields) ?js zero_submitted"
    unfolding doc by (rule dec_struct_all [OF event_fields_ok(1)]) (simp add: submitted_fields_def)
  also have "\<dots> = Some e"
    using assms by (simp add: submitted_fields_def zero_submitted_def)
  finally show ?thesis .
qed

lemma dec_trade:
  assumes "event_ok (TradeExecuted e)"
  shows "dec_struct trade_fields zero_trade (Some (event_json (TradeExecuted e))) = Some e"
proof -
  let ?js = "[enc_u64 (te_Seq e), enc_i64 (te_Timestamp e), enc_str (te_TradeID e),
    enc_str (te_SymbolStr e), enc_str (te_TakerOrderID e), enc_str (te_MakerOrderID e),
    enc_str (te_TakerUser e), enc_str (te_MakerUser e), enc_i64 (te_Price e),
    enc_i64 (te_Quantity e), enc_str (te_TakerSide e)]"
  have doc: "event_json (TradeExecuted e) = JObj (zip (map fst trade_fields) ?js)"
    by (simp add: trade_fields_def)
  have "dec_struct trade_fields zero_trade (Some (event_json (TradeExecuted e))) =
      dec_each (map snd trade_fields) ?js zero_trade"
    unfolding doc by (rule dec_struct_all [OF event_fields_ok(2)]) (simp add: trade_fields_def)
  also have "\<dots> = Some e"
    using assms by (simp add: trade_fields_def zero_trade_def)
  finally show ?thesis .
qed

lemma dec_cancelled:
  assumes "event_ok (OrderCancelled e)"
  shows "dec_struct cancelled_fields zero_cancelled (Some (event_json (OrderCancelled e))) = Some e"
proof -
  let ?js = "[enc_u64 (oc_Seq e), enc_i64 (oc_Timestamp e), enc_str (oc_OrderID e),
    enc_str (oc_SymbolStr e), enc_str (oc_Reason e)]"
  have doc: "event_json (OrderCancelled e) = JObj (zip (map fst cancelled_fields) ?js)"
    by (simp add: cancelled_fields_def)
  have "dec_struct cancelled_fields zero_cancelled (Some (event_json (OrderCancelled e))) =
      dec_each (map snd cancelled_fields) ?js zero_cancelled"
    unfolding doc by (rule dec_struct_all [OF event_fields_ok(3)]) (simp add: cancelled_fields_def)
  also have "\<dots> = Some e"
    using assms by (simp add: cancelled_fields_def zero_cancelled_def)
  finally show ?thesis .
qed

lemma event_roundtrip: "event_ok event \<Longrightarrow> UnmarshalEvent (MarshalEvent event) = Inr (Some event)"
  using dec_submitted dec_trade dec_cancelled
  by (cases event) (simp_all add: UnmarshalEvent_def MarshalEvent_def del: event_json.simps event_ok.simps)

text \<open>
  C12. Every event survives the envelope: \<open>UnmarshalEvent\<close> gives back exactly the event that
  \<open>MarshalEvent\<close> wrapped, for all three event types.
\<close>

theorem unmarshal_marshal_event:
  assumes "event_ok event"
  shows "UnmarshalEvent (MarshalEvent event) = Inr (Some event)"
  by (rule event_roundtrip [OF assms])

theorem unmarshal_marshal_event_witness:
  "UnmarshalEvent (MarshalEvent (OrderCancelled
     \<lparr>oc_Seq = 7, oc_Timestamp = 1000, oc_OrderID = ''o1'', oc_SymbolStr = ''BTC'', oc_Reason = ''user''\<rparr>))
   = Inr (Some (OrderCancelled
     \<lparr>oc_Seq = 7, oc_Timestamp = 1000, oc_OrderID = ''o1'', oc_SymbolStr = ''BTC'', oc_Reason = ''user''\<rparr>))"
  by (rule unmarshal_marshal_event) code_simp

section \<open>The context of an event\<close>

record EventContext =
  ec_Event :: "MatchingEngineEvent option"
  ec_Topic :: string
  ec_Partition :: int
  ec_Offset :: int
  ec_Timestamp :: int
  ec_ProcessedAt :: int
  ec_OwnershipEpoch :: int
  ec_ProcessingNode :: string
  ec_StateChecksum :: string
  ec_OrderCount :: int
  ec_TradeCount :: int

text \<open>\<open>now_nano\<close> is the clock reading of the call.\<close>

definition NewEventContext ::
  "int \<Rightarrow> MatchingEngineEvent option \<Rightarrow> string \<Rightarrow> int \<Rightarrow> int \<Rightarrow> EventContext" where
  "NewEventContext now_nano event topic part offset =
     \<lparr>ec_Event = event, ec_Topic = topic, ec_Partition = part, ec_Offset = offset,
      ec_Timestamp = (case event of Some e \<Rightarrow> EventTimestamp e | None \<Rightarrow> go_div now_nano 1000000),
      ec_ProcessedAt = now_nano, ec_OwnershipEpoch = 0, ec_ProcessingNode = [],
      ec_StateChecksum = [], ec_OrderCount = 0, ec_TradeCount = 0\<rparr>"

definition WithOwnershipEpoch :: "int \<Rightarrow> string \<Rightarrow> EventContext \<Rightarrow> EventContext" where
  "WithOwnershipEpoch epoch nodeID ec = ec\<lparr>ec_OwnershipEpoch := epoch, ec_ProcessingNode := nodeID\<rparr>"

definition Key :: "EventContext option \<Rightarrow> string" where
  "Key c = (case c of
       None \<Rightarrow> []
     | Some ec \<Rightarrow>
         (case ec_Event ec of
            None \<Rightarrow> colon_key (ec_Topic ec) (colon_key (show_int (ec_Partition ec)) (show_int (ec_Offset ec)))
          | Some e \<Rightarrow> colon_key (ec_Topic ec) (colon_key (Symbol e) (show_nat (unat (EventSeq e))))))"

definition IsValid :: "EventContext \<Rightarrow> bool" where
  "IsValid ec \<longleftrightarrow>
     ec_Event ec \<noteq> None \<and> ec_Topic ec \<noteq> [] \<and> ec_Partition ec \<ge> 0 \<and> ec_Offset ec \<ge> 0"

text \<open>
  The key of an event context tells contexts apart: equal keys of two contexts that carry events
  mean the same topic, symbol and sequence number, when topics and symbols contain no colon.
\<close>

lemma event_context_key_inject:
  assumes "ec_Event a = Some d" "ec_Event b = Some e"
    and "CHR '':'' \<notin> set (ec_Topic a)" "CHR '':'' \<notin> set (ec_Topic b)"
    and "CHR '':'' \<notin> set (Symbol d)" "CHR '':'' \<notin> set (Symbol e)"
  shows "Key (Some a) = Key (Some b) \<longleftrightarrow>
         ec_Topic a = ec_Topic b \<and> Symbol d = Symbol e \<and> EventSeq d = EventSeq e"
  using assms by (simp add: Key_def colon_key_inject word_unat_eq_iff)

end
