(* ===== verification/Float64.thy ===== *)
theory Float64
  imports Complex_Main "HOL-Library.Log_Nat" Prelude
begin

text \<open>
  Go's \<open>float64\<close> as far as the program uses it: conversion from and to \<open>int64\<close>, products and
  quotients with \<^verbatim>\<open>1e8\<close>, and \<^verbatim>\<open>%.8f\<close>. A finite value is a rational; every operation rounds its
  exact result to 53 bits, to nearest with ties to even (\<open>fl\<close>).
\<close>

section \<open>Rounding\<close>

definition round_half_even :: "rat \<Rightarrow> int" where
  "round_half_even y =
     (let f = \<lfloor>y\<rfloor>; r = y - of_int f
      in if r < 1 / 2 \<or> r = 1 / 2 \<and> even f then f else f + 1)"

text \<open>The exponent of the last place of a 53-bit significand; subnormals stop at \<open>-1074\<close>.\<close>

definition f64_exp :: "rat \<Rightarrow> int" where
  "f64_exp x =
     (let (n, d) = quotient_of \<bar>x\<bar>; e = bitlen n - bitlen d - 53
      in max (- 1074) (if \<bar>x\<bar> < 2 powi (e + 53) then e else e + 1))"

definition fl :: "rat \<Rightarrow> rat" where
  "fl x = of_int (round_half_even (x / 2 powi f64_exp x)) * 2 powi f64_exp x"

lemma round_half_even_of_int [simp]: "round_half_even (of_int k) = k"
  by (simp add: round_half_even_def)

lemma round_half_even_error: "\<bar>of_int (round_half_even y) - y\<bar> \<le> 1 / 2"
proof -
  have "of_int \<lfloor>y\<rfloor> \<le> y" "y < of_int \<lfloor>y\<rfloor> + 1" by linarith+
  then show ?thesis unfolding round_half_even_def Let_def by (simp add: abs_le_iff)
qed

lemma round_half_even_near:
  assumes "\<bar>y - of_int k\<bar> < 1 / 2"
  shows "round_half_even y = k"
proof -
  have "\<bar>of_int (round_half_even y) - of_int k\<bar> < (1 :: rat)"
    using assms round_half_even_error [of y] by linarith
  then have "\<bar>round_half_even y - k\<bar> < 1"
    by (metis of_int_abs of_int_diff of_int_less_1_iff)
  then show ?thesis by simp
qed

lemma fl_0 [simp]: "fl 0 = 0"
  by (simp add: fl_def round_half_even_def)

text \<open>A normal number's significand lies in \<open>[2 ^ 52, 2 ^ 53)\<close>.\<close>

lemma bitlen_rat:
  assumes "0 < n"
  shows "2 powi (bitlen n - 1) \<le> (of_int n :: rat)" "(of_int n :: rat) < 2 powi bitlen n"
proof -
  have "0 < bitlen n"
    using assms bitlen_nonneg [of n] bitlen_eq_zero_iff [of n] by linarith
  moreover have "(2 :: rat) ^ nat (bitlen n - 1) \<le> of_int n" "of_int n < (2 :: rat) ^ nat (bitlen n)"
    using bitlen_bounds [OF assms] by (simp_all add: numeral_power_le_of_int_cancel_iff of_int_less_numeral_power_cancel_iff)
  ultimately show "2 powi (bitlen n - 1) \<le> (of_int n :: rat)" "(of_int n :: rat) < 2 powi bitlen n"
    by (simp_all add: power_int_def)
qed

lemma quotient_bounds:
  assumes "x \<noteq> 0" "quotient_of \<bar>x\<bar> = (n, d)"
  shows "2 powi (bitlen n - bitlen d - 1) \<le> \<bar>x\<bar>" "\<bar>x\<bar> < 2 powi (bitlen n - bitlen d + 1)"
proof -
  have d: "0 < d" and x: "\<bar>x\<bar> = of_int n / of_int d"
    using assms(2) by (auto simp: quotient_of_denom_pos quotient_of_div)
  then have n: "0 < n"
    using assms(1) zero_less_abs_iff [of x] by (auto simp: zero_less_divide_iff)
  have "2 powi (bitlen n - bitlen d - 1) = 2 powi (bitlen n - 1) / (2 :: rat) powi bitlen d"
    by (simp add: power_int_diff power_int_add field_simps)
  also have "\<dots> \<le> of_int n / of_int d"
    using bitlen_rat [OF n] bitlen_rat [OF d] n d by (intro frac_le) auto
  finally show "2 powi (bitlen n - bitlen d - 1) \<le> \<bar>x\<bar>" unfolding x .
  have "of_int n / of_int d < 2 powi bitlen n / (2 :: rat) powi (bitlen d - 1)"
    using bitlen_rat [OF n] bitlen_rat [OF d] n by (intro frac_less) auto
  also have "\<dots> = 2 powi (bitlen n - bitlen d + 1)"
    by (simp add: power_int_diff power_int_add field_simps)
  finally show "\<bar>x\<bar> < 2 powi (bitlen n - bitlen d + 1)" unfolding x .
qed

lemma f64_exp_upper: "\<bar>x\<bar> < 2 powi (f64_exp x + 53)"
proof (cases "x = 0")
  case False
  obtain n d where nd: "quotient_of \<bar>x\<bar> = (n, d)" by (cases "quotient_of \<bar>x\<bar>")
  define e where "e = bitlen n - bitlen d - 53"
  define e' where "e' = (if \<bar>x\<bar> < 2 powi (e + 53) then e else e + 1)"
  have "\<bar>x\<bar> < 2 powi (e' + 53)"
    using quotient_bounds(2) [OF False nd] by (simp add: e'_def e_def add_ac)
  also have "\<dots> \<le> 2 powi (f64_exp x + 53)"
    by (intro power_int_increasing) (simp_all add: f64_exp_def nd e_def e'_def)
  finally show ?thesis .
qed simp

lemma f64_exp_lower:
  assumes "2 powi (- 1022) \<le> \<bar>x\<bar>"
  shows "2 powi (f64_exp x + 52) \<le> \<bar>x\<bar>"
proof -
  have False if "x = 0" using assms that by (simp add: power_int_def)
  then have "x \<noteq> 0" by blast
  obtain n d where nd: "quotient_of \<bar>x\<bar> = (n, d)" by (cases "quotient_of \<bar>x\<bar>")
  define e where "e = bitlen n - bitlen d - 53"
  define e' where "e' = (if \<bar>x\<bar> < 2 powi (e + 53) then e else e + 1)"
  have up: "\<bar>x\<bar> < 2 powi (e' + 53)"
    using quotient_bounds(2) [OF \<open>x \<noteq> 0\<close> nd] by (simp add: e'_def e_def add_ac)
  have low: "2 powi (e' + 52) \<le> \<bar>x\<bar>"
    using quotient_bounds(1) [OF \<open>x \<noteq> 0\<close> nd] by (simp add: e'_def e_def algebra_simps)
  have "(2 :: rat) powi (- 1022) < 2 powi (e' + 53)" using assms up by (rule le_less_trans)
  then have "- 1022 < e' + 53"
    by (metis not_less one_le_numeral power_int_increasing)
  moreover have "f64_exp x = max (- 1074) e'" by (simp add: f64_exp_def nd e_def e'_def)
  ultimately have "f64_exp x = e'" by simp
  with low show ?thesis by simp
qed

lemma fl_error: "\<bar>fl x - x\<bar> \<le> 2 powi f64_exp x / 2"
proof -
  have "fl x - x = (of_int (round_half_even (x / 2 powi f64_exp x)) - x / 2 powi f64_exp x) * 2 powi f64_exp x"
    by (simp add: fl_def left_diff_distrib)
  then show ?thesis
    using mult_right_mono [OF round_half_even_error, of "2 powi f64_exp x" "x / 2 powi f64_exp x"]
    by (simp add: abs_mult)
qed

lemma fl_relative_error:
  assumes "2 powi (- 1022) \<le> \<bar>x\<bar>"
  shows "\<bar>fl x - x\<bar> \<le> \<bar>x\<bar> / 2 ^ 53"
proof -
  have "2 powi f64_exp x * 2 ^ 52 \<le> \<bar>x\<bar>"
    using f64_exp_lower [OF assms] by (simp add: power_int_add)
  with fl_error [of x] show ?thesis by simp
qed

lemma fl_of_int:
  assumes "\<bar>k\<bar> < 2 ^ 53"
  shows "fl (of_int k) = of_int k"
proof (cases "k = 0")
  case False
  define e where "e = f64_exp (of_int k)"
  have "2 powi (- 1022) \<le> (1 :: rat)" by (simp add: power_int_minus)
  also have "1 \<le> \<bar>of_int k :: rat\<bar>" using False by (simp add: of_int_abs [symmetric] del: of_int_abs)
  finally have "2 powi (e + 52) \<le> \<bar>of_int k :: rat\<bar>" unfolding e_def by (rule f64_exp_lower)
  also have "\<dots> < 2 powi 53"
    using assms by (simp add: of_int_abs [symmetric] power_int_def del: of_int_abs)
  finally have "e + 52 < 53" by (metis not_less one_le_numeral power_int_increasing)
  then have "of_int k / 2 powi e = (of_int (k * 2 ^ nat (- e)) :: rat)"
    by (simp add: power_int_def field_simps)
  then have "fl (of_int k) = of_int (k * 2 ^ nat (- e)) * 2 powi e"
    unfolding fl_def e_def [symmetric] by (simp only: round_half_even_of_int)
  also have "\<dots> = of_int k"
    using \<open>e + 52 < 53\<close> by (simp add: power_int_def field_simps)
  finally show ?thesis .
qed simp

section \<open>Fixed-point output\<close>

definition pad8 :: "nat \<Rightarrow> string" where
  "pad8 m = replicate (8 - length (show_nat m)) CHR ''0'' @ show_nat m"

text \<open>The decimal form of \<open>n\<close> units of \<open>10 ^ -8\<close>.\<close>

definition fixed8 :: "bool \<Rightarrow> nat \<Rightarrow> string" where
  "fixed8 neg n =
     (if neg then ''-'' else []) @ show_nat (n div 10 ^ 8) @ CHR ''.'' # pad8 (n mod 10 ^ 8)"

text \<open>\<^verbatim>\<open>fmt.Sprintf("%.8f", x)\<close>: the exact value rounded to eight places.\<close>

definition format8 :: "rat \<Rightarrow> string" where
  "format8 x = fixed8 (x < 0) (nat (round_half_even (\<bar>x\<bar> * 10 ^ 8)))"

text \<open>\<^verbatim>\<open>float64(p)/1e8\<close>.\<close>

definition nano_to_float :: "int \<Rightarrow> rat" where
  "nano_to_float p = fl (fl (of_int p) / 10 ^ 8)"

lemma nano_to_float_error:
  assumes "\<bar>p\<bar> < 2 ^ 53"
  shows "\<bar>nano_to_float p * 10 ^ 8 - of_int p\<bar> \<le> \<bar>of_int p\<bar> / 2 ^ 53"
proof (cases "p = 0")
  case True
  then show ?thesis by (simp add: nano_to_float_def)
next
  case False
  let ?x = "of_int p / 10 ^ 8 :: rat"
  have "2 powi (- 1022) \<le> (1 / 10 ^ 8 :: rat)" by (simp add: power_int_minus)
  also have "\<dots> \<le> \<bar>?x\<bar>"
    using False by (simp add: of_int_abs [symmetric] divide_right_mono del: of_int_abs)
  finally have "\<bar>fl ?x - ?x\<bar> \<le> \<bar>?x\<bar> / 2 ^ 53" by (rule fl_relative_error)
  then have "\<bar>fl ?x - ?x\<bar> * 10 ^ 8 \<le> \<bar>?x\<bar> / 2 ^ 53 * 10 ^ 8"
    by (rule mult_right_mono) simp
  moreover have "nano_to_float p * 10 ^ 8 - of_int p = (fl ?x - ?x) * 10 ^ 8"
    using fl_of_int [OF assms] by (simp add: nano_to_float_def left_diff_distrib)
  then have "\<bar>nano_to_float p * 10 ^ 8 - of_int p\<bar> = \<bar>fl ?x - ?x\<bar> * 10 ^ 8"
    by (simp only: abs_mult) simp
  ultimately show ?thesis by simp
qed

lemma nano_to_float_sign: "\<bar>p\<bar> < 2 ^ 53 \<Longrightarrow> nano_to_float p < 0 \<longleftrightarrow> p < 0"
proof -
  assume p: "\<bar>p\<bar> < 2 ^ 53"
  have "\<bar>nano_to_float p * 10 ^ 8 - of_int p\<bar> \<le> \<bar>of_int p\<bar> / 2 ^ 53"
    using nano_to_float_error [OF p] .
  then have "nano_to_float p * 10 ^ 8 < 0 \<longleftrightarrow> (of_int p :: rat) < 0" by (auto simp: abs_if split: if_splits)
  then show ?thesis by simp
qed

text \<open>Below \<open>2 ^ 52\<close> the detour through \<open>float64\<close> loses nothing when printing.\<close>

lemma format8_nano:
  assumes "\<bar>p\<bar> < 2 ^ 52"
  shows "format8 (nano_to_float p) = fixed8 (p < 0) (nat \<bar>p\<bar>)"
proof -
  have p: "\<bar>p\<bar> < 2 ^ 53" using assms by simp
  have "\<bar>nano_to_float p\<bar> * 10 ^ 8 = \<bar>nano_to_float p * 10 ^ 8\<bar>" by (simp add: abs_mult)
  then have "\<bar>\<bar>nano_to_float p\<bar> * 10 ^ 8 - of_int \<bar>p\<bar>\<bar> \<le> \<bar>nano_to_float p * 10 ^ 8 - of_int p\<bar>"
    by (simp add: abs_triangle_ineq3)
  also have "\<dots> \<le> \<bar>of_int p\<bar> / 2 ^ 53" using nano_to_float_error [OF p] .
  also have "\<dots> < 1 / 2"
    using assms by (simp add: of_int_abs [symmetric] del: of_int_abs)
  finally have "round_half_even (\<bar>nano_to_float p\<bar> * 10 ^ 8) = \<bar>p\<bar>" by (rule round_half_even_near)
  then show ?thesis by (simp add: format8_def nano_to_float_sign [OF p])
qed

section \<open>Durations\<close>

text \<open>\<^verbatim>\<open>time.Duration.Seconds\<close> of a duration in nanoseconds, and Go's conversion of a float to an integer.\<close>

definition duration_Seconds :: "int \<Rightarrow> rat" where
  "duration_Seconds d =
     fl (fl (of_int (go_div d (10 ^ 9))) + fl (fl (of_int (go_rem d (10 ^ 9))) / 10 ^ 9))"

definition trunc :: "rat \<Rightarrow> int" where
  "trunc x = (if x < 0 then - \<lfloor>- x\<rfloor> else \<lfloor>x\<rfloor>)"

lemma trunc_of_int [simp]: "trunc (of_int k) = k"
  by (simp add: trunc_def)

lemma duration_whole_seconds:
  assumes "0 \<le> k" "k < 2 ^ 53"
  shows "duration_Seconds (k * 10 ^ 9) = of_int k"
  using assms fl_of_int [of k] by (simp add: duration_Seconds_def)

end
