(* ===== verification/OrderBook.thy ===== *)
theory OrderBook
  imports SkipList Sequencer Events Float64
begin

text \<open>
  \<^verbatim>\<open>src/biz/service/orderbook.go\<close>: the order book of one symbol and its matching.

  The price levels are skip lists from price to a queue of pointers, so entries live in a heap
  (\<open>ob_heap\<close>, free from \<open>ob_next\<close> on): matching writes \<open>FilledQty\<close> through the pointers in a queue,
  and \<open>addOrderToBook\<close> makes a copy of the incoming order, which \<open>ob_orders\<close> does not point to.
  Every operation runs under the book's mutex, so it is one step on the book. The sequencer is shared
  with the other books, with \<open>SubmitOrder\<close> and with the event log, which the mutex does not keep out:
  \<open>env i\<close> is the clock reading for the \<open>i\<close>-th event of a call, and how many numbers the other goroutines
  have drawn since the event before it.
\<close>

section \<open>Data\<close>

record OrderBookEntry =
  obe_OrderID :: string
  obe_UserID :: string
  obe_Symbol :: string
  obe_Side :: string
  obe_Price :: PriceInNano
  obe_Quantity :: QuantityInNano
  obe_FilledQty :: QuantityInNano
  obe_SubmitTime :: int
  obe_SequenceNum :: u64

type_synonym addr = nat
type_synonym heap = "addr \<Rightarrow> OrderBookEntry"
type_synonym goroutine_env = "nat \<Rightarrow> int \<times> nat"

datatype comparator = PriceComparatorDesc | PriceComparatorAsc

fun Compare :: "comparator \<Rightarrow> PriceInNano \<Rightarrow> PriceInNano \<Rightarrow> int" where
  "Compare PriceComparatorDesc a b = (if a > b then - 1 else if a < b then 1 else 0)"
| "Compare PriceComparatorAsc a b = (if a < b then - 1 else if a > b then 1 else 0)"

fun CalcScore :: "comparator \<Rightarrow> PriceInNano \<Rightarrow> rat" where
  "CalcScore PriceComparatorDesc p = fl (of_int p)"
| "CalcScore PriceComparatorAsc p = - fl (of_int p)"

type_synonym 's price_ops = "('s, comparator, addr list) skiplist_ops"

record 's OrderBook =
  ob_symbol :: string
  ob_buys :: 's
  ob_sells :: 's
  ob_orders :: "string \<rightharpoonup> addr"
  ob_heap :: heap
  ob_next :: addr

definition zero_entry :: OrderBookEntry where
  "zero_entry = \<lparr>obe_OrderID = [], obe_UserID = [], obe_Symbol = [], obe_Side = [], obe_Price = 0,
     obe_Quantity = 0, obe_FilledQty = 0, obe_SubmitTime = 0, obe_SequenceNum = 0\<rparr>"

definition NewOrderBook :: "'s price_ops \<Rightarrow> string \<Rightarrow> 's OrderBook" where
  "NewOrderBook ops symbol =
     \<lparr>ob_symbol = symbol, ob_buys = sl_New ops PriceComparatorDesc,
      ob_sells = sl_New ops PriceComparatorAsc, ob_orders = Map.empty,
      ob_heap = (\<lambda>_. zero_entry), ob_next = 0\<rparr>"

text \<open>\<^verbatim>\<open>&OrderBookEntry{...}\<close>: a fresh pointer.\<close>

definition alloc_entry :: "OrderBookEntry \<Rightarrow> 's OrderBook \<Rightarrow> addr \<times> 's OrderBook" where
  "alloc_entry e ob =
     (ob_next ob, ob\<lparr>ob_heap := (ob_heap ob)(ob_next ob := e), ob_next := Suc (ob_next ob)\<rparr>)"

section \<open>Matching\<close>

text \<open>
  The loop of \<open>matchBuyOrder\<close> and \<open>matchSellOrder\<close>, which are the same up to the book they walk,
  the price test that stops them and the taker side they record. \<open>stop p\<close> is that test on the price
  of the front level; the state is the opposite book, the heap, \<open>*remainingQty\<close>, the events so far
  and the sequencer.
\<close>

definition trade_event ::
  "goroutine_env \<Rightarrow> string \<Rightarrow> string \<Rightarrow> OrderBookEntry \<Rightarrow> nat \<Rightarrow> u64 \<Rightarrow> PriceInNano \<Rightarrow> OrderBookEntry \<Rightarrow>
   QuantityInNano \<Rightarrow> MatchingEngineEvent" where
  "trade_event env side symbol order i seq price maker tradeQty = TradeExecuted
     \<lparr>te_Seq = seq, te_Timestamp = fst (env i),
      te_TradeID = symbol @ ''-'' @ obe_OrderID order @ ''-'' @ show_nat i,
      te_SymbolStr = symbol, te_TakerOrderID = obe_OrderID order,
      te_MakerOrderID = obe_OrderID maker, te_TakerUser = obe_UserID order,
      te_MakerUser = obe_UserID maker, te_Price = price, te_Quantity = tradeQty,
      te_TakerSide = side\<rparr>"

partial_function (option) match_loop ::
  "'s price_ops \<Rightarrow> goroutine_env \<Rightarrow> (PriceInNano \<Rightarrow> bool) \<Rightarrow> string \<Rightarrow> string \<Rightarrow> OrderBookEntry \<Rightarrow>
   's \<Rightarrow> heap \<Rightarrow> QuantityInNano \<Rightarrow> MatchingEngineEvent list \<Rightarrow> Sequencer \<Rightarrow>
   ('s \<times> heap \<times> QuantityInNano \<times> MatchingEngineEvent list \<times> Sequencer) option" where
  "match_loop ops env stop side symbol order book h remainingQty events sq =
     (if remainingQty > 0 \<and> sl_Len ops book > 0 then
        (case sl_Front ops book of
           None \<Rightarrow> Some (book, h, remainingQty, events, sq)
         | Some (price, queue) \<Rightarrow>
             if stop price then Some (book, h, remainingQty, events, sq)
             else (case queue of
                 [] \<Rightarrow> Some (book, h, remainingQty, events, sq)
               | a # queue' \<Rightarrow>
                   let maker = h a;
                       tradeQty = Min remainingQty (i64 (obe_Quantity maker - obe_FilledQty maker))
                   in if tradeQty \<le> 0
                      then match_loop ops env stop side symbol order
                             (if queue' \<noteq> [] then sl_Set ops price queue' book else sl_Remove ops price book)
                             h remainingQty events sq
                      else
                        let (seq, sq') = NextGlobalSeq (others_draw (snd (env (length events))) sq);
                            event = trade_event env side symbol order (length events) seq price maker tradeQty;
                            maker' = maker\<lparr>obe_FilledQty := i64 (obe_FilledQty maker + tradeQty)\<rparr>;
                            book' = (if obe_FilledQty maker' \<ge> obe_Quantity maker'
                                     then (if queue' = [] then sl_Remove ops price book
                                           else sl_Set ops price queue' book)
                                     else book)
                        in match_loop ops env stop side symbol order book' (h(a := maker'))
                             (i64 (remainingQty - tradeQty)) (events @ [event]) sq'))
      else Some (book, h, remainingQty, events, sq))"

definition matchBuyOrder ::
  "'s price_ops \<Rightarrow> goroutine_env \<Rightarrow> OrderBookEntry \<Rightarrow> QuantityInNano \<Rightarrow> 's OrderBook \<Rightarrow> Sequencer \<Rightarrow>
   (MatchingEngineEvent list \<times> QuantityInNano \<times> 's OrderBook \<times> Sequencer) option" where
  "matchBuyOrder ops env order remainingQty ob sq =
     map_option (\<lambda>(book, h, rem, events, sq'). (events, rem, ob\<lparr>ob_sells := book, ob_heap := h\<rparr>, sq'))
       (match_loop ops env (\<lambda>sellPrice. obe_Price order < sellPrice) ''buy'' (ob_symbol ob) order
          (ob_sells ob) (ob_heap ob) remainingQty [] sq)"

definition matchSellOrder ::
  "'s price_ops \<Rightarrow> goroutine_env \<Rightarrow> OrderBookEntry \<Rightarrow> QuantityInNano \<Rightarrow> 's OrderBook \<Rightarrow> Sequencer \<Rightarrow>
   (MatchingEngineEvent list \<times> QuantityInNano \<times> 's OrderBook \<times> Sequencer) option" where
  "matchSellOrder ops env order remainingQty ob sq =
     map_option (\<lambda>(book, h, rem, events, sq'). (events, rem, ob\<lparr>ob_buys := book, ob_heap := h\<rparr>, sq'))
       (match_loop ops env (\<lambda>buyPrice. obe_Price order > buyPrice) ''sell'' (ob_symbol ob) order
          (ob_buys ob) (ob_heap ob) remainingQty [] sq)"

definition addOrderToBook ::
  "'s price_ops \<Rightarrow> OrderBookEntry \<Rightarrow> QuantityInNano \<Rightarrow> 's OrderBook \<Rightarrow> 's OrderBook" where
  "addOrderToBook ops order qty ob =
     (let book = (if obe_Side order = ''buy'' then ob_buys ob else ob_sells ob);
          queue = (case sl_Get ops book (obe_Price order) of None \<Rightarrow> [] | Some q \<Rightarrow> q);
          (p, ob') = alloc_entry (order\<lparr>obe_Quantity := qty, obe_FilledQty := 0\<rparr>) ob;
          book' = sl_Set ops (obe_Price order) (queue @ [p]) book
      in if obe_Side order = ''buy'' then ob'\<lparr>ob_buys := book'\<rparr> else ob'\<lparr>ob_sells := book'\<rparr>)"

text \<open>\<open>MatchOrder\<close> takes the pointer \<open>oa\<close> of the incoming order.\<close>

definition MatchOrder ::
  "'s price_ops \<Rightarrow> goroutine_env \<Rightarrow> addr \<Rightarrow> 's OrderBook \<Rightarrow> Sequencer \<Rightarrow>
   (MatchingEngineEvent list \<times> QuantityInNano \<times> 's OrderBook \<times> Sequencer) option" where
  "MatchOrder ops env oa ob sq =
     (let order = ob_heap ob oa in
      case (if obe_Side order = ''buy''
            then matchBuyOrder ops env order (obe_Quantity order) ob sq
            else matchSellOrder ops env order (obe_Quantity order) ob sq) of
        None \<Rightarrow> None
      | Some (events, remainingQty, ob1, sq') \<Rightarrow>
          let ob2 = (if remainingQty > 0 then addOrderToBook ops order remainingQty ob1 else ob1)
          in Some (events, remainingQty, ob2\<lparr>ob_orders := (ob_orders ob2)(obe_OrderID order \<mapsto> oa)\<rparr>, sq'))"

section \<open>Depth and cancellation\<close>

definition total_qty :: "heap \<Rightarrow> addr list \<Rightarrow> QuantityInNano" where
  "total_qty h queue =
     foldl (\<lambda>t a. i64 (t + i64 (obe_Quantity (h a) - obe_FilledQty (h a)))) 0 queue"

definition depth_entry :: "heap \<Rightarrow> PriceInNano \<Rightarrow> addr list \<Rightarrow> string \<rightharpoonup> string" where
  "depth_entry h price queue =
     [''price'' \<mapsto> format8 (nano_to_float price),
      ''quantity'' \<mapsto> format8 (nano_to_float (total_qty h queue))]"

fun depth_levels ::
  "'s price_ops \<Rightarrow> 's \<Rightarrow> heap \<Rightarrow> nat \<Rightarrow> (PriceInNano \<times> addr list) option \<Rightarrow> (string \<rightharpoonup> string) list" where
  "depth_levels ops book h 0 elem = []"
| "depth_levels ops book h (Suc n) None = []"
| "depth_levels ops book h (Suc n) (Some (price, queue)) =
     depth_entry h price queue # depth_levels ops book h n (sl_Next ops book price)"

definition GetDepth ::
  "'s price_ops \<Rightarrow> int \<Rightarrow> 's OrderBook \<Rightarrow> (string \<rightharpoonup> string) list \<times> (string \<rightharpoonup> string) list" where
  "GetDepth ops levels ob =
     (depth_levels ops (ob_buys ob) (ob_heap ob) (nat levels) (sl_Front ops (ob_buys ob)),
      depth_levels ops (ob_sells ob) (ob_heap ob) (nat levels) (sl_Front ops (ob_sells ob)))"

definition CancelOrder :: "'s price_ops \<Rightarrow> string \<Rightarrow> 's OrderBook \<Rightarrow> go_error + 's OrderBook" where
  "CancelOrder ops orderID ob =
     (case ob_orders ob orderID of
        None \<Rightarrow> Inl (''order not found: '' @ orderID)
      | Some oa \<Rightarrow>
          let order = ob_heap ob oa in
          if obe_FilledQty order > 0 then Inl (''cannot cancel partially filled order: '' @ orderID)
          else
            let book = (if obe_Side order = ''buy'' then ob_buys ob else ob_sells ob);
                book' = (case sl_Get ops book (obe_Price order) of
                    None \<Rightarrow> book
                  | Some queue \<Rightarrow>
                      let newQueue = filter (\<lambda>q. obe_OrderID (ob_heap ob q) \<noteq> orderID) queue
                      in if newQueue = [] then sl_Remove ops (obe_Price order) book
                         else sl_Set ops (obe_Price order) newQueue book);
                ob' = (if obe_Side order = ''buy'' then ob\<lparr>ob_buys := book'\<rparr> else ob\<lparr>ob_sells := book'\<rparr>)
            in Inr (ob'\<lparr>ob_orders := (ob_orders ob')(orderID := None)\<rparr>))"

end
