(* ===== verification/Matching.thy ===== *)
theory Matching
  imports OrderBook
begin

text \<open>
  The contract of the order book. One side of a book is read as a plain list of resting entries in
  the order matching takes them (\<open>flat\<close>); \<open>fill\<close> is matching on such a list. The loop of the code
  is shown to return and to compute \<open>fill\<close>, on every book that satisfies the invariant \<open>ob_ok\<close>,
  which all operations keep; the properties of matching are then properties of \<open>fill\<close>.
\<close>

section \<open>Matching on a list of resting entries\<close>

definition open_qty :: "OrderBookEntry \<Rightarrow> int" where
  "open_qty e = obe_Quantity e - obe_FilledQty e"

text \<open>
  The trades, the quantity left of the taker and the entries left: entries are consumed in order
  until the taker is filled or a price stops it.
\<close>

fun fill ::
  "(PriceInNano \<Rightarrow> bool) \<Rightarrow> int \<Rightarrow> (PriceInNano \<times> OrderBookEntry) list \<Rightarrow>
   (PriceInNano \<times> OrderBookEntry \<times> int) list \<times> int \<times> (PriceInNano \<times> OrderBookEntry) list" where
  "fill stop rem [] = ([], rem, [])"
| "fill stop rem ((p, e) # pes) =
     (if rem \<le> 0 \<or> stop p then ([], rem, (p, e) # pes)
      else if open_qty e \<le> rem
      then let (ts, rem', pes') = fill stop (rem - open_qty e) pes in ((p, e, open_qty e) # ts, rem', pes')
      else ([(p, e, rem)], 0, (p, e\<lparr>obe_FilledQty := obe_FilledQty e + rem\<rparr>) # pes))"

text \<open>The events of a list of trades, numbered from \<open>i\<close>.\<close>

fun trade_events ::
  "goroutine_env \<Rightarrow> string \<Rightarrow> string \<Rightarrow> OrderBookEntry \<Rightarrow> nat \<Rightarrow>
   (PriceInNano \<times> OrderBookEntry \<times> int) list \<Rightarrow> Sequencer \<Rightarrow> MatchingEngineEvent list \<times> Sequencer" where
  "trade_events env side symbol order i [] sq = ([], sq)"
| "trade_events env side symbol order i ((p, maker, q) # ts) sq =
     (let (seq, sq1) = NextGlobalSeq (others_draw (snd (env i)) sq);
          (es, sq2) = trade_events env side symbol order (Suc i) ts sq1
      in (trade_event env side symbol order i seq p maker q # es, sq2))"

definition trade_qty :: "(PriceInNano \<times> OrderBookEntry \<times> int) list \<Rightarrow> int" where
  "trade_qty ts = sum_list (map (\<lambda>(p, e, q). q) ts)"

definition open_total :: "(PriceInNano \<times> OrderBookEntry) list \<Rightarrow> int" where
  "open_total pes = sum_list (map (\<lambda>(p, e). open_qty e) pes)"

lemma total_simps [simp]:
  "trade_qty [] = 0" "trade_qty ((p, e, q) # ts) = q + trade_qty ts"
  "open_total [] = 0" "open_total ((p, e) # pes) = open_qty e + open_total pes"
  by (simp_all add: trade_qty_def open_total_def)

lemma open_total_append [simp]: "open_total (xs @ ys) = open_total xs + open_total ys"
  by (simp add: open_total_def)

lemma fill_conserves:
  "fill stop rem pes = (ts, rem', pes') \<Longrightarrow> trade_qty ts + rem' = rem \<and> open_total pes = open_total pes' + trade_qty ts"
  by (induction stop rem pes arbitrary: ts rem' pes' rule: fill.induct)
    (auto simp: open_qty_def split: if_splits prod.splits)

lemma fill_nonneg: "fill stop rem pes = (ts, rem', pes') \<Longrightarrow> 0 \<le> rem \<Longrightarrow> 0 \<le> rem'"
  by (induction stop rem pes arbitrary: ts rem' pes' rule: fill.induct) (auto split: if_splits prod.splits)

lemma fill_trades:
  assumes "fill stop rem pes = (ts, rem', pes')" "(p, e, q) \<in> set ts" "\<forall>(p, e) \<in> set pes. 0 < open_qty e"
  shows "\<not> stop p \<and> 0 < q \<and> q \<le> open_qty e \<and> (p, e) \<in> set pes"
  using assms
  by (induction stop rem pes arbitrary: ts rem' pes' rule: fill.induct)
    (auto split: if_splits prod.splits)

lemma fill_rem_le:
  "fill stop rem pes = (ts, rem', pes') \<Longrightarrow> \<forall>(p, e) \<in> set pes. 0 < open_qty e \<Longrightarrow> rem' \<le> rem"
  by (induction stop rem pes arbitrary: ts rem' pes' rule: fill.induct) (fastforce split: if_splits prod.splits)+

lemma fill_left: "fill stop rem pes = (ts, rem', pes') \<Longrightarrow> fst ` set pes' \<subseteq> fst ` set pes"
  by (induction stop rem pes arbitrary: ts rem' pes' rule: fill.induct) (auto split: if_splits prod.splits)

text \<open>Trades take the entries from the front, each but the last to its full open quantity.\<close>

lemma fill_prefix:
  "fill stop rem pes = (ts, rem', pes') \<Longrightarrow>
   \<exists>rest. pes = map (\<lambda>(p, e, q). (p, e)) ts @ rest \<and> (\<forall>(p, e, q) \<in> set (butlast ts). q = open_qty e)"
proof (induction stop rem pes arbitrary: ts rem' pes' rule: fill.induct)
  case (2 stop rem p e pes)
  then show ?case by (fastforce split: if_splits prod.splits)
qed simp

text \<open>The prices split into those traded and those left; a partly filled entry has its price in both.\<close>

lemma fill_split:
  "fill stop rem pes = (ts, rem', pes') \<Longrightarrow>
   map fst pes = map fst ts @ map fst pes' \<or>
   (\<exists>ts' p x. ts = ts' @ [(p, x)] \<and> (\<exists>y pes''. pes' = (p, y) # pes'') \<and> map fst pes = map fst ts' @ map fst pes')"
proof (induction stop rem pes arbitrary: ts rem' pes' rule: fill.induct)
  case (2 stop rem p e pes)
  consider "rem \<le> 0 \<or> stop p" | "\<not> (rem \<le> 0 \<or> stop p)" "open_qty e \<le> rem" | "\<not> (rem \<le> 0 \<or> stop p)" "\<not> open_qty e \<le> rem"
    by blast
  then show ?case
  proof cases
    case 2
    obtain ts1 where "fill stop (rem - open_qty e) pes = (ts1, rem', pes')" "ts = (p, e, open_qty e) # ts1"
      using "2.prems" 2 by (auto split: prod.splits)
    with "2.IH" [OF 2] show ?thesis by (fastforce intro: exI [of _ "(p, e, open_qty e) # ts'" for ts'])
  qed (use "2.prems" in auto)
qed auto

text \<open>On a sorted list no trade is after another one or after an entry that is left.\<close>

lemma fill_sorted:
  assumes "fill stop rem pes = (ts, rem', pes')" "sorted_wrt R (map fst pes)" "\<And>x. R x x"
  shows "sorted_wrt R (map fst ts)" "\<forall>p \<in> fst ` set ts. \<forall>p' \<in> fst ` set pes'. R p p'" "sorted_wrt R (map fst pes')"
  using fill_split [OF assms(1)] assms(2,3) by (auto simp: sorted_wrt_append) force+

text \<open>If the taker is not filled, nothing is left that it would trade with next.\<close>

lemma fill_remaining:
  "fill stop rem pes = (ts, rem', pes') \<Longrightarrow> 0 < rem' \<Longrightarrow> pes' = [] \<or> stop (fst (hd pes'))"
  by (induction stop rem pes arbitrary: ts rem' pes' rule: fill.induct) (auto split: if_splits prod.splits)

text \<open>There is a trade exactly if the front does not stop the taker.\<close>

lemma fill_trades_iff:
  assumes "fill stop rem pes = (ts, rem', pes')"
  shows "ts \<noteq> [] \<longleftrightarrow> 0 < rem \<and> pes \<noteq> [] \<and> \<not> stop (fst (hd pes))"
  using assms by (cases pes) (auto split: if_splits prod.splits)

section \<open>One side of a book\<close>

definition flat :: "(PriceInNano \<times> addr list) list \<Rightarrow> heap \<Rightarrow> (PriceInNano \<times> OrderBookEntry) list" where
  "flat its h = concat (map (\<lambda>(p, q). map (\<lambda>a. (p, h a)) q) its)"

definition addrs :: "(PriceInNano \<times> addr list) list \<Rightarrow> addr list" where
  "addrs its = concat (map snd its)"

definition entry_ok :: "(string \<Rightarrow> bool) \<Rightarrow> PriceInNano \<Rightarrow> OrderBookEntry \<Rightarrow> bool" where
  "entry_ok sd p e \<longleftrightarrow>
     obe_Price e = p \<and> sd (obe_Side e) \<and> 0 \<le> obe_FilledQty e \<and> obe_FilledQty e < obe_Quantity e \<and>
     in_i64 (obe_Quantity e)"

definition side_ok :: "(string \<Rightarrow> bool) \<Rightarrow> (PriceInNano \<times> addr list) list \<Rightarrow> heap \<Rightarrow> bool" where
  "side_ok sd its h \<longleftrightarrow>
     distinct (addrs its) \<and> (\<forall>(p, q) \<in> set its. q \<noteq> []) \<and>
     (\<forall>(p, q) \<in> set its. \<forall>a \<in> set q. entry_ok sd p (h a))"

lemma flat_simps [simp]:
  "flat [] h = []"
  "flat ((p, q) # its) h = map (\<lambda>a. (p, h a)) q @ flat its h"
  by (simp_all add: flat_def)

lemma addrs_simps [simp]:
  "addrs [] = []"
  "addrs ((p, q) # its) = q @ addrs its"
  by (simp_all add: addrs_def)

lemma flat_cong: "(\<And>a. a \<in> set (addrs its) \<Longrightarrow> h' a = h a) \<Longrightarrow> flat its h' = flat its h"
  by (induction its) (auto simp: flat_def addrs_def)

lemma side_ok_Nil [simp]: "side_ok sd [] h"
  by (simp add: side_ok_def addrs_def)

lemma side_ok_Cons:
  "side_ok sd ((p, q) # its) h \<longleftrightarrow>
     q \<noteq> [] \<and> distinct q \<and> set q \<inter> set (addrs its) = {} \<and> (\<forall>a \<in> set q. entry_ok sd p (h a)) \<and> side_ok sd its h"
  by (auto simp: side_ok_def)

lemma side_ok_cong:
  "(\<And>a. a \<in> set (addrs its) \<Longrightarrow> h' a = h a) \<Longrightarrow> side_ok sd its h' = side_ok sd its h"
  by (auto simp: side_ok_def addrs_def) fastforce+

lemma side_upd [simp]:
  "a \<notin> set (addrs its) \<Longrightarrow> flat its (h(a := e)) = flat its h"
  "a \<notin> set (addrs its) \<Longrightarrow> side_ok sd its (h(a := e)) = side_ok sd its h"
  by (auto intro!: flat_cong side_ok_cong)

lemma level_upd [simp]:
  "a \<notin> set q \<Longrightarrow> map (\<lambda>b. (p, (h(a := e)) b)) q = map (\<lambda>b. (p, h b)) q"
  "a \<notin> set q \<Longrightarrow> map (\<lambda>b. (p, if b = a then e else h b)) q = map (\<lambda>b. (p, h b)) q"
  by auto

text \<open>The entries resting at one price, oldest first.\<close>

definition at_price :: "PriceInNano \<Rightarrow> (PriceInNano \<times> OrderBookEntry) list \<Rightarrow> OrderBookEntry list" where
  "at_price p pes = map snd (filter (\<lambda>pe. fst pe = p) pes)"

lemma at_price_append [simp]: "at_price p (xs @ ys) = at_price p xs @ at_price p ys"
  by (simp add: at_price_def)

lemma at_price_level: "at_price p (map (\<lambda>a. (p', h a)) q) = (if p' = p then map h q else [])"
  by (auto simp: at_price_def filter_map o_def)

lemma at_price_absent: "p \<notin> fst ` set its \<Longrightarrow> at_price p (flat its h) = []"
  by (induction its) (auto simp: at_price_level, simp add: at_price_def)

lemma flat_append [simp]: "flat (xs @ ys) h = flat xs h @ flat ys h"
  by (simp add: flat_def)

lemma addrs_append [simp]: "addrs (xs @ ys) = addrs xs @ addrs ys"
  by (simp add: addrs_def)

lemma side_ok_append:
  "side_ok sd (xs @ ys) h \<longleftrightarrow> side_ok sd xs h \<and> side_ok sd ys h \<and> set (addrs xs) \<inter> set (addrs ys) = {}"
  by (simp add: side_ok_def ball_Un) blast

lemma entry_ok_open:
  assumes "entry_ok sd p e"
  shows "0 < open_qty e" "i64 (obe_Quantity e - obe_FilledQty e) = open_qty e"
    "0 \<le> q \<Longrightarrow> q \<le> open_qty e \<Longrightarrow> i64 (obe_FilledQty e + q) = obe_FilledQty e + q"
  using assms by (auto simp: entry_ok_def open_qty_def in_i64_def intro!: i64_id)

lemma side_ok_entries: "side_ok sd its h \<Longrightarrow> (p, e) \<in> set (flat its h) \<Longrightarrow> entry_ok sd p e"
  by (auto simp: side_ok_def flat_def)

text \<open>The entries of a side come in the order of its prices.\<close>

lemma flat_sorted:
  assumes "sorted_wrt lt (map fst its)"
  shows "sorted_wrt (\<lambda>x y. x = y \<or> lt x y) (map fst (flat its h))"
proof -
  have level: "sorted_wrt (\<lambda>x y. x = y \<or> lt x y) (map (\<lambda>a. p) q)" for p :: int and q :: "addr list"
    by (induction q) auto
  show ?thesis using assms
  proof (induction its)
    case (Cons pq its)
    then show ?case
      by (cases pq) (auto simp: sorted_wrt_append level o_def flat_def)
  qed simp
qed

lemma at_price_mem: "(p, e) \<in> set pes \<longleftrightarrow> e \<in> set (at_price p pes)"
  by (force simp: at_price_def)

section \<open>A whole book\<close>

text \<open>The resting bids and asks in matching order, and the two sides as an order sees them.\<close>

definition bids :: "('s \<Rightarrow> (PriceInNano \<times> addr list) list) \<Rightarrow> 's OrderBook \<Rightarrow> (PriceInNano \<times> OrderBookEntry) list" where
  "bids items ob = flat (items (ob_buys ob)) (ob_heap ob)"

definition asks :: "('s \<Rightarrow> (PriceInNano \<times> addr list) list) \<Rightarrow> 's OrderBook \<Rightarrow> (PriceInNano \<times> OrderBookEntry) list" where
  "asks items ob = flat (items (ob_sells ob)) (ob_heap ob)"

definition is_buy :: "OrderBookEntry \<Rightarrow> bool" where
  "is_buy order \<longleftrightarrow> obe_Side order = ''buy''"

definition opposite where
  "opposite items order ob = (if is_buy order then asks items ob else bids items ob)"

definition own_side where
  "own_side items order ob = (if is_buy order then bids items ob else asks items ob)"

definition stops :: "OrderBookEntry \<Rightarrow> PriceInNano \<Rightarrow> bool" where
  "stops order p \<longleftrightarrow> (if is_buy order then obe_Price order < p else p < obe_Price order)"

definition taker_side :: "OrderBookEntry \<Rightarrow> string" where
  "taker_side order = (if is_buy order then ''buy'' else ''sell'')"

text \<open>
  The invariant: both skip lists are well formed, their queues are not empty and hold distinct
  pointers to open entries of the right price and side; the pointers in \<open>ob_orders\<close> are others, and
  what they point to was never filled.
\<close>

definition ob_ok ::
  "('s \<Rightarrow> bool) \<Rightarrow> ('s \<Rightarrow> (PriceInNano \<times> addr list) list) \<Rightarrow> ('s \<Rightarrow> comparator) \<Rightarrow> 's OrderBook \<Rightarrow> bool" where
  "ob_ok ok items cmp ob \<longleftrightarrow>
     ok (ob_buys ob) \<and> ok (ob_sells ob) \<and>
     cmp (ob_buys ob) = PriceComparatorDesc \<and> cmp (ob_sells ob) = PriceComparatorAsc \<and>
     side_ok (\<lambda>s. s = ''buy'') (items (ob_buys ob)) (ob_heap ob) \<and>
     side_ok (\<lambda>s. s \<noteq> ''buy'') (items (ob_sells ob)) (ob_heap ob) \<and>
     set (addrs (items (ob_buys ob))) \<inter> set (addrs (items (ob_sells ob))) = {} \<and>
     (\<forall>a \<in> set (addrs (items (ob_buys ob))) \<union> set (addrs (items (ob_sells ob))). a < ob_next ob) \<and>
     (\<forall>a \<in> ran (ob_orders ob). a < ob_next ob \<and> obe_FilledQty (ob_heap ob a) = 0 \<and>
        a \<notin> set (addrs (items (ob_buys ob))) \<union> set (addrs (items (ob_sells ob))))"

definition book_addrs :: "('s \<Rightarrow> (PriceInNano \<times> addr list) list) \<Rightarrow> 's OrderBook \<Rightarrow> addr set" where
  "book_addrs items ob = set (addrs (items (ob_buys ob))) \<union> set (addrs (items (ob_sells ob)))"

text \<open>What matching leaves of the rest of the book.\<close>

definition frame ::
  "('s \<Rightarrow> (PriceInNano \<times> addr list) list) \<Rightarrow> 's OrderBook \<Rightarrow> 's OrderBook \<Rightarrow> bool" where
  "frame items ob ob' \<longleftrightarrow>
     ob_symbol ob' = ob_symbol ob \<and> ob_orders ob' = ob_orders ob \<and> ob_next ob \<le> ob_next ob' \<and>
     book_addrs items ob' \<subseteq> book_addrs items ob \<union> {ob_next ob ..< ob_next ob'} \<and>
     (\<forall>a < ob_next ob. a \<notin> book_addrs items ob \<longrightarrow> ob_heap ob' a = ob_heap ob a)"

text \<open>A pointer to an order that is not yet in the book.\<close>

definition fresh_order ::
  "('s \<Rightarrow> (PriceInNano \<times> addr list) list) \<Rightarrow> addr \<Rightarrow> 's OrderBook \<Rightarrow> bool" where
  "fresh_order items oa ob \<longleftrightarrow>
     oa < ob_next ob \<and> oa \<notin> book_addrs items ob \<and>
     obe_FilledQty (ob_heap ob oa) = 0 \<and> in_i64 (obe_Quantity (ob_heap ob oa))"

section \<open>The loop computes \<open>fill\<close>\<close>

text \<open>The front entry is popped, or its level goes with it.\<close>

definition pop :: "'s price_ops \<Rightarrow> 's \<Rightarrow> PriceInNano \<Rightarrow> addr list \<Rightarrow> 's" where
  "pop ops book p q = (if q = [] then sl_Remove ops p book else sl_Set ops p q book)"

locale price_levels = skip_list ops ok items cmp precedes
  for ops :: "'s price_ops" and ok :: "'s \<Rightarrow> bool" and items :: "'s \<Rightarrow> (int \<times> addr list) list"
    and cmp :: "'s \<Rightarrow> comparator" and precedes :: "comparator \<Rightarrow> int \<Rightarrow> int \<Rightarrow> bool"
begin

lemma pop_props:
  assumes "ok book" "items book = (p, a # q) # its"
  shows "ok (pop ops book p q)" "cmp (pop ops book p q) = cmp book"
    "items (pop ops book p q) = (if q = [] then its else (p, q) # its)"
  using assms items_front [OF assms] Set [OF assms(1)] Remove [OF assms(1)] by (simp_all add: pop_def)

lemma match_loop_stop:
  assumes "ok book" "rem \<le> 0 \<or> items book = [] \<or> (\<exists>p q its. items book = (p, q) # its \<and> stop p)"
  shows "match_loop ops env stop side symbol order book h rem es sq = Some (book, h, rem, es, sq)"
  using assms by (subst match_loop.simps) (auto simp: Len Front)

lemma match_loop_trade:
  assumes "ok book" "items book = (p, a # q) # its" "entry_ok sd p (h a)" "\<not> stop p" "0 < rem" "in_i64 rem"
  shows "match_loop ops env stop side symbol order book h rem es sq =
    (let t = min rem (open_qty (h a)); (seq, sq') = NextGlobalSeq (others_draw (snd (env (length es))) sq)
     in match_loop ops env stop side symbol order (if open_qty (h a) \<le> rem then pop ops book p q else book)
          (h(a := (h a)\<lparr>obe_FilledQty := obe_FilledQty (h a) + t\<rparr>)) (rem - t)
          (es @ [trade_event env side symbol order (length es) seq p (h a) t]) sq')"
proof -
  define t where "t = min rem (open_qty (h a))"
  have t: "0 < t" "t \<le> rem" "t \<le> open_qty (h a)" "Min rem (open_qty (h a)) = t"
    using entry_ok_open(1) [OF assms(3)] assms(5) by (auto simp: t_def Events.Min_def)
  have rem: "i64 (rem - t) = rem - t"
    using t assms(6) by (intro i64_id) (auto simp: in_i64_def)
  have full: "obe_FilledQty (h a) + t \<ge> obe_Quantity (h a) \<longleftrightarrow> open_qty (h a) \<le> rem"
    using t(1) by (auto simp: t_def open_qty_def min_def)
  show ?thesis
    using assms t
    by (subst match_loop.simps)
      (simp add: Len Front entry_ok_open [OF assms(3)] rem full pop_def Let_def flip: t_def
        split: prod.split)
qed

text \<open>What a call of the loop is to return, for the state it is called in.\<close>

definition loop_spec ::
  "(string \<Rightarrow> bool) \<Rightarrow> 's \<Rightarrow> heap \<Rightarrow> (PriceInNano \<times> OrderBookEntry) list \<Rightarrow> 's \<Rightarrow> heap \<Rightarrow> bool" where
  "loop_spec sd book h pes book' h' \<longleftrightarrow>
     ok book' \<and> cmp book' = cmp book \<and> side_ok sd (items book') h' \<and> flat (items book') h' = pes \<and>
     set (addrs (items book')) \<subseteq> set (addrs (items book)) \<and>
     (\<forall>a. a \<notin> set (addrs (items book)) \<longrightarrow> h' a = h a)"

lemma loop_spec_refl: "ok book \<Longrightarrow> side_ok sd (items book) h \<Longrightarrow> loop_spec sd book h (flat (items book) h) book h"
  by (simp add: loop_spec_def)

lemma fill_stop:
  assumes "side_ok sd its h" "rem \<le> 0 \<or> its = [] \<or> (\<exists>p q its'. its = (p, q) # its' \<and> stop p)"
  shows "fill stop rem (flat its h) = ([], rem, flat its h)"
  using assms by (cases "flat its h") (auto simp: side_ok_Cons neq_Nil_conv)

text \<open>A trade that uses the front entry up.\<close>

lemma pop_fill:
  assumes "ok book" "items book = (p, a # q) # its" "side_ok sd (items book) h"
    and "open_qty (h a) \<le> rem" "0 < rem" "\<not> stop p"
  shows "fill stop rem (flat (items book) h) =
      (let (ts, rem', pes) = fill stop (rem - open_qty (h a)) (flat (items (pop ops book p q)) (h(a := e)))
       in ((p, h a, open_qty (h a)) # ts, rem', pes))"
  using assms pop_props [OF assms(1,2)] by (auto simp: side_ok_Cons)

lemma pop_spec:
  assumes "ok book" "items book = (p, a # q) # its" "side_ok sd (items book) h"
  shows "side_ok sd (items (pop ops book p q)) (h(a := e))"
    and "loop_spec sd (pop ops book p q) (h(a := e)) pes book' h' \<Longrightarrow> loop_spec sd book h pes book' h'"
  using assms pop_props [OF assms(1,2)] by (auto simp: side_ok_Cons loop_spec_def split: if_splits)

lemma pop_shorter:
  "ok book \<Longrightarrow> items book = (p, a # q) # its \<Longrightarrow>
   length (addrs (items (pop ops book p q))) < length (addrs (items book))"
  by (simp add: pop_props)

text \<open>A trade that fills the taker and leaves the front entry in place.\<close>

lemma last_step:
  assumes "ok book" "items book = (p, a # q) # its" "side_ok sd (items book) h"
    and "\<not> open_qty (h a) \<le> rem" "0 < rem" "\<not> stop p"
  defines "h1 \<equiv> h(a := (h a)\<lparr>obe_FilledQty := obe_FilledQty (h a) + rem\<rparr>)"
  shows "fill stop rem (flat (items book) h) = ([(p, h a, rem)], 0, flat (items book) h1)"
    and "loop_spec sd book h (flat (items book) h1) book h1"
  using assms by (auto simp: side_ok_Cons loop_spec_def entry_ok_def open_qty_def)

lemma match_loop_fill:
  assumes "ok book" "side_ok sd (items book) h" "in_i64 rem"
    and "fill stop rem (flat (items book) h) = (ts, rem', pes)"
    and "trade_events env side symbol order (length es) ts sq = (new, sq')"
  shows "\<exists>book' h'. match_loop ops env stop side symbol order book h rem es sq =
        Some (book', h', rem', es @ new, sq') \<and> loop_spec sd book h pes book' h'"
  using assms
proof (induction "length (addrs (items book))" arbitrary: book h rem es sq ts rem' pes new rule: less_induct)
  case less
  note prems = less.prems
  show ?case
  proof (cases "rem \<le> 0 \<or> items book = [] \<or> (\<exists>p q its. items book = (p, q) # its \<and> stop p)")
    case True
    with prems match_loop_stop [OF prems(1) True] fill_stop [where stop = stop, OF prems(2) True]
      loop_spec_refl [OF prems(1,2)] show ?thesis by auto
  next
    case False
    then obtain p a q its where its: "items book = (p, a # q) # its" and go: "0 < rem" "\<not> stop p"
      using prems(2) by (cases "items book") (auto simp: side_ok_Cons neq_Nil_conv)
    have a: "entry_ok sd p (h a)" using prems(2) by (auto simp: its side_ok_Cons)
    obtain seq sq1 where seq: "NextGlobalSeq (others_draw (snd (env (length es))) sq) = (seq, sq1)" by fastforce
    note step = match_loop_trade [where h = h and a = a and p = p and stop = stop,
        OF prems(1) its a go(2,1) prems(3), of env side symbol order es sq, unfolded seq Let_def prod.case]
    show ?thesis
    proof (cases "open_qty (h a) \<le> rem")
      case True
      let ?e = "(h a)\<lparr>obe_FilledQty := obe_FilledQty (h a) + open_qty (h a)\<rparr>"
      let ?ev = "trade_event env side symbol order (length es) seq p (h a) (open_qty (h a))"
      note pop = pop_spec [where e = ?e, OF prems(1) its prems(2)]
      obtain ts1 where ts: "ts = (p, h a, open_qty (h a)) # ts1"
        and fill: "fill stop (rem - open_qty (h a)) (flat (items (pop ops book p q)) (h(a := ?e))) = (ts1, rem', pes)"
        using prems(4) pop_fill [where stop = stop and e = ?e, OF prems(1) its prems(2) True go]
        by (auto split: prod.splits)
      obtain new1 where new: "new = ?ev # new1"
        and ev: "trade_events env side symbol order (length (es @ [?ev])) ts1 sq1 = (new1, sq')"
        using prems(5) by (auto simp: ts seq split: prod.splits)
      have "in_i64 (rem - open_qty (h a))"
        using entry_ok_open(1) [OF a] True prems(3) by (auto simp: in_i64_def)
      from less.hyps [OF pop_shorter [OF prems(1) its] pop_props(1) [OF prems(1) its] pop(1) this fill ev] show ?thesis
        using step True pop(2) by (auto simp: new min_def)
    next
      case False
      note last = last_step [where stop = stop, OF prems(1) its prems(2) False go]
      have "ts = [(p, h a, rem)]" "rem' = 0" "new = [trade_event env side symbol order (length es) seq p (h a) rem]"
        "sq' = sq1"
        using prems(4,5) last(1) by (auto simp: seq)
      with step False last(2) prems(4) match_loop_stop [OF prems(1)] show ?thesis
        by (auto simp: last(1) min_def)
    qed
  qed
qed

text \<open>Appending an entry to the queue of its price.\<close>

lemma Set_append:
  assumes "ok book" "side_ok sd (items book) h"
  obtains xs q ys where "items book = xs @ (if q = [] then [] else [(p, q)]) @ ys"
    and "items (sl_Set ops p ((case sl_Get ops book p of None \<Rightarrow> [] | Some q \<Rightarrow> q) @ [a]) book) = xs @ (p, q @ [a]) # ys"
    and "p \<notin> fst ` set xs" "p \<notin> fst ` set ys"
proof (cases "sl_Get ops book p")
  case None
  then have new: "p \<notin> fst ` set (items book)" by (simp add: Get [OF assms(1)] map_of_eq_None_iff)
  then obtain xs ys where "items book = xs @ ys" "items (sl_Set ops p [a] book) = xs @ (p, [a]) # ys"
    using items_Set_new [OF assms(1)] by blast
  with None new that [of xs "[]" ys] show ?thesis by auto
next
  case (Some q)
  then have "(p, q) \<in> set (items book)" by (simp add: Get [OF assms(1)] map_of_SomeD)
  then obtain xs ys where its: "items book = xs @ (p, q) # ys" by (meson split_list)
  have notin: "p \<notin> fst ` set xs" "p \<notin> fst ` set ys"
    using items_distinct [OF assms(1)] by (auto simp: its)
  have "set_val p (q @ [a]) (items book) = set_val p (q @ [a]) xs @ (p, q @ [a]) # set_val p (q @ [a]) ys"
    by (simp add: its set_val_def)
  then have "items (sl_Set ops p (q @ [a]) book) = xs @ (p, q @ [a]) # ys"
    using items_Set_mem [OF assms(1), of p "q @ [a]"] by (simp add: its notin set_val_id)
  moreover have "q \<noteq> []" using assms(2) by (auto simp: its side_ok_def)
  ultimately show ?thesis using Some notin its that [of xs q ys] by simp
qed

lemma add_to_side:
  assumes "ok book" "side_ok sd (items book) h" "a \<notin> set (addrs (items book))" "entry_ok sd p e"
  defines "book' \<equiv> sl_Set ops p ((case sl_Get ops book p of None \<Rightarrow> [] | Some q \<Rightarrow> q) @ [a]) book"
  shows "ok book'" "cmp book' = cmp book" "side_ok sd (items book') (h(a := e))"
    and "set (addrs (items book')) = insert a (set (addrs (items book)))"
    and "at_price p' (flat (items book') (h(a := e))) =
         at_price p' (flat (items book) h) @ (if p' = p then [e] else [])"
    and "open_total (flat (items book') (h(a := e))) = open_total (flat (items book) h) + open_qty e"
proof -
  show "ok book'" "cmp book' = cmp book" using Set [OF assms(1)] by (simp_all add: book'_def)
  obtain xs q ys where its: "items book = xs @ (if q = [] then [] else [(p, q)]) @ ys"
    "items book' = xs @ (p, q @ [a]) # ys" "p \<notin> fst ` set xs" "p \<notin> fst ` set ys"
    using Set_append [OF assms(1,2), of p a] unfolding book'_def by metis
  show "set (addrs (items book')) = insert a (set (addrs (items book)))"
    by (auto simp: its(1,2))
  have notin: "a \<notin> set (addrs xs)" "a \<notin> set q" "a \<notin> set (addrs ys)"
    using assms(3) by (auto simp: its(1) split: if_splits)
  with assms(2,4) show "side_ok sd (items book') (h(a := e))"
    by (auto simp: its(1,2) side_ok_append side_ok_Cons split: if_splits)
  show "at_price p' (flat (items book') (h(a := e))) =
         at_price p' (flat (items book) h) @ (if p' = p then [e] else [])"
    using notin at_price_absent [OF its(3)] at_price_absent [OF its(4)]
    by (simp add: its(1,2) at_price_level) (auto simp: at_price_def)
  show "open_total (flat (items book') (h(a := e))) = open_total (flat (items book) h) + open_qty e"
    using notin by (simp add: its(1,2))
qed

lemma NewOrderBook_ok: "ob_ok ok items cmp (NewOrderBook ops symbol)"
  by (simp add: ob_ok_def NewOrderBook_def New)

lemma alloc_ok:
  assumes "ob_ok ok items cmp ob" "alloc_entry e ob = (oa, ob')"
  shows "ob_ok ok items cmp ob'"
    and "obe_FilledQty e = 0 \<Longrightarrow> in_i64 (obe_Quantity e) \<Longrightarrow> fresh_order items oa ob'"
    and "bids items ob' = bids items ob" "asks items ob' = asks items ob" "ob_heap ob' oa = e"
proof -
  have notin: "ob_next ob \<notin> set (addrs (items (ob_buys ob)))" "ob_next ob \<notin> set (addrs (items (ob_sells ob)))"
    using assms(1) unfolding ob_ok_def by blast+
  have ob': "oa = ob_next ob" "ob' = ob\<lparr>ob_heap := (ob_heap ob)(ob_next ob := e), ob_next := Suc (ob_next ob)\<rparr>"
    using assms(2) by (auto simp: alloc_entry_def)
  show "ob_ok ok items cmp ob'"
    using assms(1) notin by (auto simp: ob_ok_def ob' less_Suc_eq)
  show "fresh_order items oa ob'" if "obe_FilledQty e = 0" "in_i64 (obe_Quantity e)"
    using that notin by (simp add: fresh_order_def book_addrs_def ob')
  show "bids items ob' = bids items ob" "asks items ob' = asks items ob" "ob_heap ob' oa = e"
    using notin by (simp_all add: bids_def asks_def ob')
qed

lemma matchBuyOrder_fill:
  assumes "ob_ok ok items cmp ob" "in_i64 rem"
    and "fill (\<lambda>p. obe_Price order < p) rem (asks items ob) = (ts, rem', pes)"
    and "trade_events env ''buy'' (ob_symbol ob) order 0 ts sq = (es, sq')"
  shows "\<exists>ob'. matchBuyOrder ops env order rem ob sq = Some (es, rem', ob', sq') \<and> ob_ok ok items cmp ob' \<and>
    asks items ob' = pes \<and> bids items ob' = bids items ob \<and> frame items ob ob'"
proof -
  let ?sd = "\<lambda>s. s \<noteq> ''buy''" and ?its = "items (ob_buys ob)"
  from assms(1) have "ok (ob_sells ob)" "side_ok ?sd (items (ob_sells ob)) (ob_heap ob)"
    by (auto simp: ob_ok_def)
  from match_loop_fill [OF this assms(2) assms(3) [unfolded asks_def], of env "''buy''" "ob_symbol ob" order "[]" sq es sq']
  obtain book h where
    loop: "match_loop ops env (\<lambda>p. obe_Price order < p) ''buy'' (ob_symbol ob) order
             (ob_sells ob) (ob_heap ob) rem [] sq = Some (book, h, rem', es, sq')"
    and spec: "loop_spec ?sd (ob_sells ob) (ob_heap ob) pes book h"
    using assms(4) by auto
  have keep: "h a = ob_heap ob a" if "a \<notin> set (addrs (items (ob_sells ob)))" for a
    using spec that by (simp add: loop_spec_def)
  have other: "h a = ob_heap ob a" if "a \<in> set (addrs ?its)" for a
    using that assms(1) by (intro keep) (auto simp: ob_ok_def)
  have "side_ok (\<lambda>s. s = ''buy'') ?its h = side_ok (\<lambda>s. s = ''buy'') ?its (ob_heap ob)"
    by (rule side_ok_cong) (rule other)
  moreover have "flat ?its h = flat ?its (ob_heap ob)" by (rule flat_cong) (rule other)
  ultimately show ?thesis
    using spec assms(1) keep
    by (auto simp: matchBuyOrder_def loop ob_ok_def loop_spec_def bids_def asks_def frame_def book_addrs_def)
qed

lemma matchSellOrder_fill:
  assumes "ob_ok ok items cmp ob" "in_i64 rem"
    and "fill (\<lambda>p. obe_Price order > p) rem (bids items ob) = (ts, rem', pes)"
    and "trade_events env ''sell'' (ob_symbol ob) order 0 ts sq = (es, sq')"
  shows "\<exists>ob'. matchSellOrder ops env order rem ob sq = Some (es, rem', ob', sq') \<and> ob_ok ok items cmp ob' \<and>
    bids items ob' = pes \<and> asks items ob' = asks items ob \<and> frame items ob ob'"
proof -
  let ?sd = "\<lambda>s. s = ''buy''" and ?its = "items (ob_sells ob)"
  from assms(1) have "ok (ob_buys ob)" "side_ok ?sd (items (ob_buys ob)) (ob_heap ob)"
    by (auto simp: ob_ok_def)
  from match_loop_fill [OF this assms(2) assms(3) [unfolded bids_def], of env "''sell''" "ob_symbol ob" order "[]" sq es sq']
  obtain book h where
    loop: "match_loop ops env (\<lambda>p. obe_Price order > p) ''sell'' (ob_symbol ob) order
             (ob_buys ob) (ob_heap ob) rem [] sq = Some (book, h, rem', es, sq')"
    and spec: "loop_spec ?sd (ob_buys ob) (ob_heap ob) pes book h"
    using assms(4) by auto
  have keep: "h a = ob_heap ob a" if "a \<notin> set (addrs (items (ob_buys ob)))" for a
    using spec that by (simp add: loop_spec_def)
  have other: "h a = ob_heap ob a" if "a \<in> set (addrs ?its)" for a
    using that assms(1) by (intro keep) (auto simp: ob_ok_def)
  have "side_ok (\<lambda>s. s \<noteq> ''buy'') ?its h = side_ok (\<lambda>s. s \<noteq> ''buy'') ?its (ob_heap ob)"
    by (rule side_ok_cong) (rule other)
  moreover have "flat ?its h = flat ?its (ob_heap ob)" by (rule flat_cong) (rule other)
  ultimately show ?thesis
    using spec assms(1) keep
    by (auto simp: matchSellOrder_def loop ob_ok_def loop_spec_def asks_def bids_def frame_def book_addrs_def)
qed

lemma addOrderToBook_ok:
  fixes order :: OrderBookEntry
  assumes "ob_ok ok items cmp ob" "0 < qty" "in_i64 qty"
  defines "ob' \<equiv> addOrderToBook ops order qty ob" and "e \<equiv> order\<lparr>obe_Quantity := qty, obe_FilledQty := 0\<rparr>"
  shows "ob_ok ok items cmp ob' \<and> opposite items order ob' = opposite items order ob \<and> frame items ob ob' \<and>
    (\<forall>p. at_price p (own_side items order ob') =
         at_price p (own_side items order ob) @ (if p = obe_Price order then [e] else [])) \<and>
    open_total (own_side items order ob') = open_total (own_side items order ob) + qty"
proof -
  have notin: "ob_next ob \<notin> set (addrs (items (ob_buys ob)))" "ob_next ob \<notin> set (addrs (items (ob_sells ob)))"
    using assms(1) unfolding ob_ok_def by blast+
  have e: "entry_ok (\<lambda>s. (s = ''buy'') = is_buy order) (obe_Price order) e"
    using assms by (simp add: entry_ok_def is_buy_def)
  show ?thesis
  proof (cases "is_buy order")
    case True
    with assms(1) have "ok (ob_buys ob)" "side_ok (\<lambda>s. s = ''buy'') (items (ob_buys ob)) (ob_heap ob)"
      "entry_ok (\<lambda>s. s = ''buy'') (obe_Price order) e"
      using e by (auto simp: ob_ok_def)
    note add = add_to_side [OF this(1,2) notin(1) this(3)]
    show ?thesis
      using True assms(1) add notin
      by (auto simp: ob'_def addOrderToBook_def alloc_entry_def is_buy_def Let_def e_def ob_ok_def
          opposite_def own_side_def frame_def book_addrs_def bids_def asks_def less_Suc_eq open_qty_def)
  next
    case False
    with assms(1) have "ok (ob_sells ob)" "side_ok (\<lambda>s. s \<noteq> ''buy'') (items (ob_sells ob)) (ob_heap ob)"
      "entry_ok (\<lambda>s. s \<noteq> ''buy'') (obe_Price order) e"
      using e by (auto simp: ob_ok_def entry_ok_def)
    note add = add_to_side [OF this(1,2) notin(2) this(3)]
    show ?thesis
      using False assms(1) add notin
      by (auto simp: ob'_def addOrderToBook_def alloc_entry_def is_buy_def Let_def e_def ob_ok_def
          opposite_def own_side_def frame_def book_addrs_def bids_def asks_def less_Suc_eq open_qty_def)
  qed
qed

lemma opposite_entry:
  assumes "ob_ok ok items cmp ob" "(p, e) \<in> set (opposite items order ob)"
  shows "obe_Price e = p" "0 < open_qty e"
proof -
  obtain sd its where "side_ok sd its (ob_heap ob)" "opposite items order ob = flat its (ob_heap ob)"
    using assms(1) by (cases "is_buy order") (auto simp: ob_ok_def opposite_def bids_def asks_def)
  with assms(2) have "entry_ok sd p e" using side_ok_entries by simp
  then show "obe_Price e = p" "0 < open_qty e" using entry_ok_open(1) by (auto simp: entry_ok_def)
qed

lemma opposite_open:
  "ob_ok ok items cmp ob \<Longrightarrow> \<forall>(p, e) \<in> set (opposite items order ob). 0 < open_qty e"
  using opposite_entry(2) by blast

lemma frame_ob_ok:
  assumes "ob_ok ok items cmp ob" "ob_ok ok items cmp ob'" "frame items ob ob'" "fresh_order items oa ob"
  shows "ob_ok ok items cmp (ob'\<lparr>ob_orders := (ob_orders ob')(i \<mapsto> oa)\<rparr>)" "ob_heap ob' oa = ob_heap ob oa"
proof -
  show same: "ob_heap ob' oa = ob_heap ob oa" using assms(3,4) by (simp add: frame_def fresh_order_def)
  have "oa < ob_next ob'" "oa \<notin> book_addrs items ob'"
    using assms(3,4) by (auto simp: frame_def fresh_order_def)
  then show "ob_ok ok items cmp (ob'\<lparr>ob_orders := (ob_orders ob')(i \<mapsto> oa)\<rparr>)"
    using assms(2,4) same by (auto simp: ob_ok_def book_addrs_def fresh_order_def ran_def)
qed

lemma frame_trans:
  assumes "frame items x y" "frame items y z"
  shows "frame items x z"
proof -
  have "ob_heap z a = ob_heap x a" if "a < ob_next x" "a \<notin> book_addrs items x" for a
  proof -
    have "a \<notin> book_addrs items y" "a < ob_next y" using assms(1) that by (auto simp: frame_def)
    then show ?thesis using assms that by (simp add: frame_def)
  qed
  moreover have "book_addrs items z \<subseteq> book_addrs items x \<union> {ob_next x ..< ob_next z}"
    using assms by (auto simp: frame_def dest!: subsetD)
  ultimately show ?thesis using assms by (simp add: frame_def)
qed

lemma match_side:
  assumes "ob_ok ok items cmp ob" "in_i64 rem"
    and "fill (stops order) rem (opposite items order ob) = (ts, rem', pes)"
    and "trade_events env (taker_side order) (ob_symbol ob) order 0 ts sq = (es, sq')"
  shows "\<exists>ob'. (if obe_Side order = ''buy'' then matchBuyOrder ops env order rem ob sq
               else matchSellOrder ops env order rem ob sq) = Some (es, rem', ob', sq') \<and>
    ob_ok ok items cmp ob' \<and> opposite items order ob' = pes \<and>
    own_side items order ob' = own_side items order ob \<and> frame items ob ob'"
proof (cases "is_buy order")
  case True
  then have "stops order = (\<lambda>p. obe_Price order < p)" by (simp add: stops_def fun_eq_iff)
  with True assms matchBuyOrder_fill [OF assms(1,2)] show ?thesis
    by (simp add: opposite_def own_side_def taker_side_def is_buy_def)
next
  case False
  then have "stops order = (\<lambda>p. obe_Price order > p)" by (simp add: stops_def fun_eq_iff)
  with False assms matchSellOrder_fill [OF assms(1,2)] show ?thesis
    by (simp add: opposite_def own_side_def taker_side_def is_buy_def)
qed

lemma MatchOrder_fill:
  assumes ob: "ob_ok ok items cmp ob" and oa: "fresh_order items oa ob"
  defines "order \<equiv> ob_heap ob oa"
  shows "\<exists>ts es rem ob' sq'. MatchOrder ops env oa ob sq = Some (es, rem, ob', sq') \<and>
    fill (stops order) (obe_Quantity order) (opposite items order ob) = (ts, rem, opposite items order ob') \<and>
    trade_events env (taker_side order) (ob_symbol ob) order 0 ts sq = (es, sq') \<and>
    ob_ok ok items cmp ob' \<and>
    (\<forall>p. at_price p (own_side items order ob') = at_price p (own_side items order ob) @
       (if 0 < rem \<and> p = obe_Price order then [order\<lparr>obe_Quantity := rem, obe_FilledQty := 0\<rparr>] else [])) \<and>
    open_total (own_side items order ob') = open_total (own_side items order ob) + max 0 rem \<and>
    ob_orders ob' = (ob_orders ob)(obe_OrderID order \<mapsto> oa) \<and> ob_symbol ob' = ob_symbol ob \<and>
    ob_heap ob' oa = order"
proof -
  obtain ts rem pes where fill:
    "fill (stops order) (obe_Quantity order) (opposite items order ob) = (ts, rem, pes)"
    by (metis prod_cases3)
  obtain es sq' where ev: "trade_events env (taker_side order) (ob_symbol ob) order 0 ts sq = (es, sq')"
    by (metis prod.exhaust)
  have q: "in_i64 (obe_Quantity order)" using oa by (simp add: fresh_order_def order_def)
  obtain ob1 where run: "(if obe_Side order = ''buy'' then matchBuyOrder ops env order (obe_Quantity order) ob sq
               else matchSellOrder ops env order (obe_Quantity order) ob sq) = Some (es, rem, ob1, sq')"
    and ob1: "ob_ok ok items cmp ob1" "opposite items order ob1 = pes"
      "own_side items order ob1 = own_side items order ob" "frame items ob ob1"
    using match_side [OF ob q fill ev] by blast
  define ob2 where "ob2 = (if rem > 0 then addOrderToBook ops order rem ob1 else ob1)"
  have "rem \<le> obe_Quantity order" using fill_rem_le [OF fill opposite_open [OF ob]] .
  then have "0 < rem \<Longrightarrow> in_i64 rem" using q by (auto simp: in_i64_def)
  note add = addOrderToBook_ok [where order = order, OF ob1(1) _ this]
  have ob2: "ob_ok ok items cmp ob2" "opposite items order ob2 = pes" "frame items ob ob2"
    "\<forall>p. at_price p (own_side items order ob2) = at_price p (own_side items order ob) @
       (if 0 < rem \<and> p = obe_Price order then [order\<lparr>obe_Quantity := rem, obe_FilledQty := 0\<rparr>] else [])"
    "open_total (own_side items order ob2) = open_total (own_side items order ob) + max 0 rem"
    using ob1 add frame_trans [OF ob1(4)] by (auto simp: ob2_def)
  let ?ob' = "ob2\<lparr>ob_orders := (ob_orders ob2)(obe_OrderID order \<mapsto> oa)\<rparr>"
  have "MatchOrder ops env oa ob sq = Some (es, rem, ?ob', sq')"
    using run by (simp add: MatchOrder_def ob2_def Let_def flip: order_def)
  moreover have "opposite items order ?ob' = opposite items order ob2" "own_side items order ?ob' = own_side items order ob2"
    by (simp_all add: opposite_def own_side_def bids_def asks_def)
  ultimately show ?thesis
    using fill ev ob2 frame_ob_ok [OF ob ob2(1,3) oa]
    by (intro exI [of _ ts] exI [of _ es] exI [of _ rem] exI [of _ ?ob'] exI [of _ sq'])
      (auto simp: frame_def order_def)
qed

text \<open>Dropping some entries of one price.\<close>

lemma drop_from_side:
  fixes p :: PriceInNano and P :: "OrderBookEntry \<Rightarrow> bool"
  assumes "ok book" "side_ok sd (items book) h"
  defines "book' \<equiv> (case sl_Get ops book p of None \<Rightarrow> book
      | Some q \<Rightarrow> (let q' = filter (\<lambda>a. P (h a)) q in if q' = [] then sl_Remove ops p book else sl_Set ops p q' book))"
  shows "ok book'" "cmp book' = cmp book" "side_ok sd (items book') h"
    and "set (addrs (items book')) \<subseteq> set (addrs (items book))"
    and "at_price p' (flat (items book') h) =
         (if p' = p then filter P (at_price p' (flat (items book) h)) else at_price p' (flat (items book) h))"
proof -
  obtain xs q ys where its: "items book = xs @ (if q = [] then [] else [(p, q)]) @ ys"
    "items book' = xs @ (if filter (\<lambda>a. P (h a)) q = [] then [] else [(p, filter (\<lambda>a. P (h a)) q)]) @ ys"
    "p \<notin> fst ` set xs" "p \<notin> fst ` set ys"
  proof (cases "sl_Get ops book p")
    case None
    then have "p \<notin> fst ` set (items book)" by (simp add: Get [OF assms(1)] map_of_eq_None_iff)
    with None that [of "items book" "[]" "[]"] show ?thesis by (simp add: book'_def)
  next
    case (Some q)
    then have "(p, q) \<in> set (items book)" by (simp add: Get [OF assms(1)] map_of_SomeD)
    then obtain xs ys where xy: "items book = xs @ (p, q) # ys" by (meson split_list)
    have notin: "p \<notin> fst ` set xs" "p \<notin> fst ` set ys"
      using items_distinct [OF assms(1)] by (auto simp: xy)
    have "drop_key p (items book) = xs @ ys"
      using drop_key_id [OF notin(1)] drop_key_id [OF notin(2)] by (simp add: xy drop_key_def)
    moreover have "set_val p v (items book) = xs @ (p, v) # ys" for v
      using set_val_id [OF notin(1), of v] set_val_id [OF notin(2), of v] by (simp add: xy set_val_def)
    moreover have "q \<noteq> []" using assms(2) by (auto simp: xy side_ok_def)
    ultimately show ?thesis
      using Some notin that [of xs q ys] items_Set_mem [OF assms(1), of p] items_Remove [OF assms(1), of p]
      by (auto simp: book'_def xy Let_def)
  qed
  show "ok book'" "cmp book' = cmp book"
    using Set [OF assms(1)] Remove [OF assms(1)] assms(1) by (auto simp: book'_def Let_def split: option.split)
  show "side_ok sd (items book') h" "set (addrs (items book')) \<subseteq> set (addrs (items book))"
    using assms(2) by (auto simp: its(1,2) side_ok_append side_ok_Cons split: if_splits)
  show "at_price p' (flat (items book') h) =
         (if p' = p then filter P (at_price p' (flat (items book) h)) else at_price p' (flat (items book) h))"
    using at_price_absent [OF its(3)] at_price_absent [OF its(4)]
    by (auto simp: its(1,2) at_price_level filter_map o_def) (auto simp: at_price_def filter_empty_conv)
qed

lemma CancelOrder_ok:
  assumes ob: "ob_ok ok items cmp ob" and oa: "ob_orders ob orderID = Some oa"
  defines "order \<equiv> ob_heap ob oa"
  shows "\<exists>ob'. CancelOrder ops orderID ob = Inr ob' \<and> ob_ok ok items cmp ob' \<and>
    ob_orders ob' = (ob_orders ob)(orderID := None) \<and> opposite items order ob' = opposite items order ob \<and>
    (\<forall>p. at_price p (own_side items order ob') =
      (if p = obe_Price order then filter (\<lambda>e. obe_OrderID e \<noteq> orderID) (at_price p (own_side items order ob))
       else at_price p (own_side items order ob)))"
proof -
  let ?book = "if is_buy order then ob_buys ob else ob_sells ob"
  define book' where "book' = (case sl_Get ops ?book (obe_Price order) of None \<Rightarrow> ?book
      | Some q \<Rightarrow> (let q' = filter (\<lambda>a. obe_OrderID (ob_heap ob a) \<noteq> orderID) q
          in if q' = [] then sl_Remove ops (obe_Price order) ?book else sl_Set ops (obe_Price order) q' ?book))"
  have zero: "obe_FilledQty order = 0" using ob oa by (auto simp: ob_ok_def order_def ran_def)
  have "ok ?book" "side_ok (\<lambda>s. (s = ''buy'') = is_buy order) (items ?book) (ob_heap ob)"
    using ob by (auto simp: ob_ok_def)
  note side = drop_from_side [where p = "obe_Price order" and P = "\<lambda>e. obe_OrderID e \<noteq> orderID",
      OF this, folded book'_def]
  let ?ob1 = "if is_buy order then ob\<lparr>ob_buys := book'\<rparr> else ob\<lparr>ob_sells := book'\<rparr>"
  let ?ob' = "?ob1\<lparr>ob_orders := (ob_orders ?ob1)(orderID := None)\<rparr>"
  have "CancelOrder ops orderID ob = Inr ?ob'"
    using zero by (simp add: CancelOrder_def oa Let_def book'_def is_buy_def flip: order_def)
  moreover have "ob_ok ok items cmp ?ob'"
    using ob side(1-4) by (cases "is_buy order") (auto simp: ob_ok_def ran_def)
  ultimately show ?thesis
    using side(5) by (intro exI [of _ ?ob'])
      (cases "is_buy order", simp_all add: opposite_def own_side_def bids_def asks_def)
qed

end

end
