(* ===== verification/OrderBookLaws.thy ===== *)
theory OrderBookLaws
  imports Matching
begin

text \<open>
  The properties of the order book: what \<open>MatchOrder\<close>, \<open>CancelOrder\<close> and \<open>GetDepth\<close> do on every
  book that can be reached, and which of them depend on the order the skip list keeps its keys in.
  The hypothesis \<open>price_levels\<close> of a theorem is the contract of the skip list package.
\<close>

section \<open>Trade events\<close>

fun event_qty :: "MatchingEngineEvent \<Rightarrow> QuantityInNano" where
  "event_qty (TradeExecuted t) = te_Quantity t"
| "event_qty _ = 0"

fun event_price :: "MatchingEngineEvent \<Rightarrow> PriceInNano" where
  "event_price (TradeExecuted t) = te_Price t"
| "event_price _ = 0"

lemma trade_events_price:
  "trade_events env side symbol order i ts sq = (es, sq') \<Longrightarrow> map event_price es = map fst ts"
  by (induction env side symbol order i ts sq arbitrary: es sq' rule: trade_events.induct)
    (auto simp: trade_event_def split: prod.splits)

lemma trade_events_qty:
  "trade_events env side symbol order i ts sq = (es, sq') \<Longrightarrow> sum_list (map event_qty es) = trade_qty ts"
  by (induction env side symbol order i ts sq arbitrary: es sq' rule: trade_events.induct)
    (auto simp: trade_event_def split: prod.splits)

lemma trade_events_length:
  "trade_events env side symbol order i ts sq = (es, sq') \<Longrightarrow> length es = length ts"
  by (induction env side symbol order i ts sq arbitrary: es sq' rule: trade_events.induct)
    (auto split: prod.splits)

text \<open>The value of the counter for the \<open>j\<close>-th of the trades numbered from \<open>i\<close>, counted from the call's start.\<close>

definition draws :: "goroutine_env \<Rightarrow> nat \<Rightarrow> nat \<Rightarrow> nat" where
  "draws env i j = Suc j + (\<Sum>k \<in> {i..i + j}. snd (env k))"

lemma draws_0: "draws env i 0 = Suc (snd (env i))"
  by (simp add: draws_def)

lemma draws_Suc: "draws env i (Suc j) = draws env i 0 + draws env (Suc i) j"
  by (simp add: draws_def sum.atLeast_Suc_atMost)

lemma draws_less: "j < j' \<Longrightarrow> draws env i j < draws env i j'"
  unfolding draws_def by (intro add_less_le_mono sum_mono2) auto

lemma trade_events_nth:
  "trade_events env side symbol order i ts sq = (es, sq') \<Longrightarrow> j < length ts \<Longrightarrow> ts ! j = (p, maker, q) \<Longrightarrow>
   es ! j = trade_event env side symbol order (i + j)
     (global_seq (sq_nodeID sq) (sq_localSeq sq + of_nat (draws env i j))) p maker q"
proof (induction env side symbol order i ts sq arbitrary: es sq' j rule: trade_events.induct)
  case (2 env side symbol order i p' maker' q' ts sq)
  obtain seq sq1 where seq: "NextGlobalSeq (others_draw (snd (env i)) sq) = (seq, sq1)" by fastforce
  then have sq1: "seq = global_seq (sq_nodeID sq) (sq_localSeq sq + of_nat (draws env i 0))"
      "sq_nodeID sq1 = sq_nodeID sq" "sq_localSeq sq1 = sq_localSeq sq + of_nat (draws env i 0)"
    by (auto simp: NextGlobalSeq_def others_draw_run draws_0 add_ac Let_def)
  obtain es1 sq2 where es1: "trade_events env side symbol order (Suc i) ts sq1 = (es1, sq2)" by fastforce
  show ?case
    using "2.prems" "2.IH" [OF seq [symmetric] refl es1, of "j - 1"]
    by (cases j) (auto simp: seq es1 sq1 draws_Suc add_ac split: prod.splits)
qed simp

lemma trade_events_set:
  assumes "trade_events env side symbol order i ts sq = (es, sq')" "ev \<in> set es"
  shows "\<exists>n seq p maker q. ev = trade_event env side symbol order n seq p maker q \<and> (p, maker, q) \<in> set ts"
proof -
  obtain j where j: "j < length ts" "ev = es ! j"
    using assms trade_events_length [OF assms(1)] by (metis in_set_conv_nth)
  obtain p maker q where ts: "ts ! j = (p, maker, q)" by (cases "ts ! j")
  then have "(p, maker, q) \<in> set ts" using j(1) nth_mem by metis
  with trade_events_nth [OF assms(1) j(1) ts] j(2) show ?thesis by blast
qed

section \<open>The comparators\<close>

text \<open>The order of a list that compares scores first and falls back on \<open>Compare\<close>.\<close>

definition score_before :: "comparator \<Rightarrow> PriceInNano \<Rightarrow> PriceInNano \<Rightarrow> bool" where
  "score_before c a b \<longleftrightarrow>
     CalcScore c a < CalcScore c b \<or> CalcScore c a = CalcScore c b \<and> Compare c a b < 0"

lemma strict_linear_score: "strict_linear (score_before c)"
  by (cases c) (auto simp: strict_linear_def score_before_def split: if_splits)

interpretation by_score: price_levels "list_ops score_before" "list_ok score_before" snd fst score_before
  unfolding price_levels_def by (rule skip_list_list_ops) (rule strict_linear_score)

text \<open>
  Both comparators contradict themselves: \<open>CalcScore\<close> is decreasing in the order that \<open>Compare\<close>
  defines, for all prices below \<open>2 ^ 53\<close>. A skip list that trusts the score keeps its keys in the
  reverse of the order the book is written for.
\<close>

lemma comparator_score_reversed:
  assumes "\<bar>a\<bar> < 2 ^ 53" "\<bar>b\<bar> < 2 ^ 53"
  shows "Compare c a b < 0 \<longleftrightarrow> CalcScore c b < CalcScore c a"
  using assms by (cases c) (simp_all add: fl_of_int)

section \<open>Reachable books\<close>

text \<open>
  The books a symbol goes through: made by \<open>NewOrderBook\<close>, then any sequence of orders that
  \<open>processOrder\<close> builds (\<open>FilledQty\<close> zero) and matches, and of cancellations.
\<close>

inductive book_reach :: "'s price_ops \<Rightarrow> string \<Rightarrow> 's OrderBook \<Rightarrow> bool" for ops symbol where
  new: "book_reach ops symbol (NewOrderBook ops symbol)"
| match: "book_reach ops symbol ob \<Longrightarrow> obe_FilledQty e = 0 \<Longrightarrow> in_i64 (obe_Quantity e) \<Longrightarrow>
    alloc_entry e ob = (oa, ob1) \<Longrightarrow> MatchOrder ops env oa ob1 sq = Some (es, rem, ob', sq') \<Longrightarrow>
    book_reach ops symbol ob'"
| cancel: "book_reach ops symbol ob \<Longrightarrow> CancelOrder ops orderID ob = Inr ob' \<Longrightarrow> book_reach ops symbol ob'"

lemma CancelOrder_cases:
  assumes "price_levels ops ok items cmp precedes" "ob_ok ok items cmp ob" "CancelOrder ops orderID ob = Inr ob'"
  shows "ob_ok ok items cmp ob'"
proof (cases "ob_orders ob orderID")
  case None
  with assms(3) show ?thesis by (simp add: CancelOrder_def)
next
  case (Some oa)
  with price_levels.CancelOrder_ok [OF assms(1,2)] assms(3) show ?thesis by fastforce
qed

lemma book_reach_ok:
  assumes pl: "price_levels ops ok items cmp precedes"
  shows "book_reach ops symbol ob \<Longrightarrow> ob_ok ok items cmp ob"
proof (induction rule: book_reach.induct)
  case new
  show ?case by (rule price_levels.NewOrderBook_ok [OF pl])
next
  case (match ob e oa ob1 env sq es rem ob' sq')
  note alloc = price_levels.alloc_ok [OF pl match.IH match.hyps(4)]
  from price_levels.MatchOrder_fill [OF pl alloc(1) alloc(2) [OF match.hyps(2,3)], of env sq] match.hyps(5)
  show ?case by auto
next
  case (cancel ob orderID ob')
  with CancelOrder_cases [OF pl] show ?case by blast
qed

text \<open>
  C1. \<open>MatchOrder\<close> always returns, and what it returns is \<open>fill\<close>: the entries of the opposite side
  are consumed in the skip list's order until the order is filled or its limit price stops it, a
  trade event is made for each of them, and a rest of the order joins the end of the queue at its
  price on its own side. The book stays well formed.
\<close>

theorem match_order_refines_fill:
  assumes "price_levels ops ok items cmp precedes" "ob_ok ok items cmp ob" "fresh_order items oa ob"
    and "order = ob_heap ob oa"
  shows "\<exists>ts es rem ob' sq'. MatchOrder ops env oa ob sq = Some (es, rem, ob', sq') \<and>
    fill (stops order) (obe_Quantity order) (opposite items order ob) = (ts, rem, opposite items order ob') \<and>
    trade_events env (taker_side order) (ob_symbol ob) order 0 ts sq = (es, sq') \<and>
    ob_ok ok items cmp ob' \<and>
    (\<forall>p. at_price p (own_side items order ob') = at_price p (own_side items order ob) @
       (if 0 < rem \<and> p = obe_Price order then [order\<lparr>obe_Quantity := rem, obe_FilledQty := 0\<rparr>] else [])) \<and>
    ob_orders ob' = (ob_orders ob)(obe_OrderID order \<mapsto> oa)"
  using price_levels.MatchOrder_fill [OF assms(1-3), of env sq] unfolding assms(4) by blast

text \<open>A book with one resting sell order and a buy order that is about to be matched.\<close>

definition demo_order :: "string \<Rightarrow> string \<Rightarrow> PriceInNano \<Rightarrow> QuantityInNano \<Rightarrow> OrderBookEntry" where
  "demo_order i side price qty = \<lparr>obe_OrderID = i, obe_UserID = i, obe_Symbol = ''BTC'', obe_Side = side,
     obe_Price = price, obe_Quantity = qty, obe_FilledQty = 0, obe_SubmitTime = 0, obe_SequenceNum = 0\<rparr>"

lemma demo_order_simps [simp]:
  "obe_Quantity (demo_order i s p q) = q" "obe_FilledQty (demo_order i s p q) = 0"
  "obe_Price (demo_order i s p q) = p" "obe_Side (demo_order i s p q) = s" "obe_OrderID (demo_order i s p q) = i"
  "(demo_order i s p q)\<lparr>obe_Quantity := r, obe_FilledQty := 0\<rparr> = demo_order i s p r"
  by (simp_all add: demo_order_def)

definition demo_book :: "(comparator \<times> (PriceInNano \<times> addr list) list) OrderBook" where
  "demo_book = \<lparr>ob_symbol = ''BTC'', ob_buys = (PriceComparatorDesc, []),
     ob_sells = (PriceComparatorAsc, [(100, [0])]), ob_orders = Map.empty,
     ob_heap = (\<lambda>a. if a = 0 then demo_order ''m'' ''sell'' 100 5 else demo_order ''t'' ''buy'' 101 8),
     ob_next = 2\<rparr>"

lemma demo_ok:
  "ob_ok (list_ok score_before) snd fst demo_book" "fresh_order snd 1 demo_book"
  "ob_heap demo_book 1 = demo_order ''t'' ''buy'' 101 8"
  by (simp_all add: ob_ok_def fresh_order_def demo_book_def list_ok_def side_ok_def
      entry_ok_def in_i64_def book_addrs_def)

lemma demo_fill:
  "fill (stops (demo_order ''t'' ''buy'' 101 8)) 8 (asks snd demo_book) =
   ([(100, demo_order ''m'' ''sell'' 100 5, 5)], 3, [])"
  by (simp add: demo_book_def is_buy_def asks_def stops_def open_qty_def)

lemma demo_sides [simp]:
  "opposite snd (demo_order i ''buy'' p q) ob = asks snd ob" "own_side snd (demo_order i ''buy'' p q) ob = bids snd ob"
  "bids snd demo_book = []" "at_price p [] = []"
  by (simp_all add: opposite_def own_side_def is_buy_def bids_def demo_book_def at_price_def)

theorem match_order_refines_fill_witness:
  "\<exists>es ob' sq'. MatchOrder (list_ops score_before) (\<lambda>_. (0, 0)) 1 demo_book NewSequencer = Some (es, 3, ob', sq') \<and>
     length es = 1 \<and> asks snd ob' = [] \<and>
     at_price 101 (bids snd ob') = [demo_order ''t'' ''buy'' 101 3]"
  using match_order_refines_fill [OF by_score.price_levels_axioms demo_ok(1,2) demo_ok(3) [symmetric],
      of "\<lambda>_. (0, 0)" NewSequencer]
  by (auto simp: demo_fill split: prod.splits)

section \<open>Matching: quantities, prices, numbers\<close>

text \<open>The call of \<open>MatchOrder\<close> that the following properties are about.\<close>

lemma match_call:
  assumes "price_levels ops ok items cmp precedes" "ob_ok ok items cmp ob" "fresh_order items oa ob"
    and "MatchOrder ops env oa ob sq = Some (es, rem, ob', sq')" "order = ob_heap ob oa"
  obtains ts where
    "fill (stops order) (obe_Quantity order) (opposite items order ob) = (ts, rem, opposite items order ob')"
    "trade_events env (taker_side order) (ob_symbol ob) order 0 ts sq = (es, sq')"
    "ob_ok ok items cmp ob'"
    "\<forall>p. at_price p (own_side items order ob') = at_price p (own_side items order ob) @
       (if 0 < rem \<and> p = obe_Price order then [order\<lparr>obe_Quantity := rem, obe_FilledQty := 0\<rparr>] else [])"
    "open_total (own_side items order ob') = open_total (own_side items order ob) + max 0 rem"
  using price_levels.MatchOrder_fill [OF assms(1-3), of env sq] assms(4) unfolding assms(5) by auto

text \<open>
  C2. Matching creates and destroys no quantity: what the order traded plus what is left of it is what
  it asked for, the opposite side's open quantity falls by exactly what was traded, and the order's
  own side grows by exactly what is left.
\<close>

theorem match_order_conserves:
  assumes "price_levels ops ok items cmp precedes" "ob_ok ok items cmp ob" "fresh_order items oa ob"
    and "MatchOrder ops env oa ob sq = Some (es, rem, ob', sq')" "order = ob_heap ob oa"
  shows "sum_list (map event_qty es) + rem = obe_Quantity order \<and>
    open_total (opposite items order ob) = open_total (opposite items order ob') + sum_list (map event_qty es) \<and>
    open_total (own_side items order ob') = open_total (own_side items order ob) + max 0 rem"
proof -
  obtain ts where "fill (stops order) (obe_Quantity order) (opposite items order ob) = (ts, rem, opposite items order ob')"
    and ev: "trade_events env (taker_side order) (ob_symbol ob) order 0 ts sq = (es, sq')"
    and own: "open_total (own_side items order ob') = open_total (own_side items order ob) + max 0 rem"
    using match_call [OF assms] .
  from fill_conserves [OF this(1)] own show ?thesis by (simp add: trade_events_qty [OF ev])
qed

lemma demo_run:
  obtains es ob' sq' where
    "MatchOrder (list_ops score_before) env 1 demo_book NewSequencer = Some (es, 3, ob', sq')" "length es = 1"
  using by_score.MatchOrder_fill [OF demo_ok(1,2), of env NewSequencer]
  unfolding demo_ok(3) by (auto simp: demo_fill split: prod.splits)

theorem match_order_conserves_witness:
  "\<exists>es ob' sq'. MatchOrder (list_ops score_before) (\<lambda>_. (0, 0)) 1 demo_book NewSequencer = Some (es, 3, ob', sq') \<and>
     sum_list (map event_qty es) = 5"
proof -
  obtain es ob' sq' where run: "MatchOrder (list_ops score_before) (\<lambda>_. (0, 0)) 1 demo_book NewSequencer = Some (es, 3, ob', sq')"
    using demo_run .
  from match_order_conserves [OF by_score.price_levels_axioms demo_ok(1,2) run demo_ok(3) [symmetric]]
  have "sum_list (map event_qty es) = 5" by simp
  with run show ?thesis by blast
qed

text \<open>
  C3. Every trade is at the resting order's own price, which is within the incoming order's limit, for
  a positive quantity of at most what the resting order has open, and names both orders and users.
\<close>

theorem match_order_trades:
  assumes "price_levels ops ok items cmp precedes" "ob_ok ok items cmp ob" "fresh_order items oa ob"
    and "MatchOrder ops env oa ob sq = Some (es, rem, ob', sq')" "order = ob_heap ob oa" "ev \<in> set es"
  shows "\<exists>t maker. ev = TradeExecuted t \<and> (te_Price t, maker) \<in> set (opposite items order ob) \<and>
    te_Price t = obe_Price maker \<and>
    (if obe_Side order = ''buy'' then te_Price t \<le> obe_Price order \<and> te_TakerSide t = ''buy''
     else obe_Price order \<le> te_Price t \<and> te_TakerSide t = ''sell'') \<and>
    0 < te_Quantity t \<and> te_Quantity t \<le> open_qty maker \<and> te_SymbolStr t = ob_symbol ob \<and>
    te_TakerOrderID t = obe_OrderID order \<and> te_TakerUser t = obe_UserID order \<and>
    te_MakerOrderID t = obe_OrderID maker \<and> te_MakerUser t = obe_UserID maker"
proof -
  obtain ts where fill: "fill (stops order) (obe_Quantity order) (opposite items order ob) = (ts, rem, opposite items order ob')"
    and ev: "trade_events env (taker_side order) (ob_symbol ob) order 0 ts sq = (es, sq')"
    using match_call [OF assms(1-5)] .
  obtain n seq p maker q where t: "ev = trade_event env (taker_side order) (ob_symbol ob) order n seq p maker q"
    "(p, maker, q) \<in> set ts"
    using trade_events_set [OF ev assms(6)] by blast
  note trade = fill_trades [OF fill t(2) price_levels.opposite_open [OF assms(1,2)]]
  have "obe_Price maker = p"
    using trade price_levels.opposite_entry(1) [OF assms(1,2)] by blast
  with trade show ?thesis
    by (auto simp: t(1) trade_event_def taker_side_def is_buy_def stops_def)
qed

theorem match_order_trades_witness:
  "\<exists>es ob' sq' t. MatchOrder (list_ops score_before) (\<lambda>_. (0, 0)) 1 demo_book NewSequencer = Some (es, 3, ob', sq') \<and>
     es = [TradeExecuted t] \<and> te_Price t \<le> 101 \<and> te_TakerOrderID t = ''t''"
proof -
  obtain es ob' sq' where run: "MatchOrder (list_ops score_before) (\<lambda>_. (0, 0)) 1 demo_book NewSequencer = Some (es, 3, ob', sq')"
    "length es = 1"
    using demo_run .
  then obtain ev where es: "es = [ev]" by (auto simp: length_Suc_conv)
  from match_order_trades [OF by_score.price_levels_axioms demo_ok(1,2) run(1) demo_ok(3) [symmetric], of ev]
  show ?thesis using run(1) by (auto simp: es)
qed

text \<open>
  C7. The trades of a call get strictly increasing sequence numbers, all above the numbers handed out
  before the call, whatever numbers other goroutines draw from the shared sequencer in between, as long
  as its 40-bit counter does not run out. The \<open>j\<close>-th trade has the number that follows those drawn before
  it, by the earlier trades and by the others. The trade ids are pairwise different.
\<close>

theorem match_order_numbers:
  assumes "price_levels ops ok items cmp precedes" "ob_ok ok items cmp ob" "fresh_order items oa ob"
    and "MatchOrder ops env oa ob sq = Some (es, rem, ob', sq')"
    and "sq_nodeID sq \<le> 1023" "sq_localSeq sq = of_nat k" "k + draws env 0 (length es) < 2 ^ 40"
  shows "(\<forall>j < length es. EventSeq (es ! j) = global_seq (sq_nodeID sq) (of_nat (k + draws env 0 j)) \<and>
        GetCurrentGlobalSeq sq < EventSeq (es ! j)) \<and>
    sorted_wrt (<) (map EventSeq es) \<and>
    distinct (map (\<lambda>ev. case ev of TradeExecuted t \<Rightarrow> te_TradeID t | _ \<Rightarrow> []) es)"
proof -
  let ?order = "ob_heap ob oa" and ?id = "\<lambda>ev. case ev of TradeExecuted t \<Rightarrow> te_TradeID t | _ \<Rightarrow> []"
  obtain ts where ev: "trade_events env (taker_side ?order) (ob_symbol ob) ?order 0 ts sq = (es, sq')"
    using match_call [OF assms(1-4) refl] .
  have len: "length es = length ts" using trade_events_length [OF ev] .
  have id: "?id (es ! j) = ob_symbol ob @ ''-'' @ obe_OrderID ?order @ ''-'' @ show_nat j"
    and seq: "EventSeq (es ! j) = global_seq (sq_nodeID sq) (of_nat (k + draws env 0 j))" if "j < length ts" for j
    using trade_events_nth [OF ev that] by (cases "ts ! j"; simp add: trade_event_def assms(6))+
  have less: "global_seq (sq_nodeID sq) (of_nat m) < global_seq (sq_nodeID sq) (of_nat (k + draws env 0 j))"
    if "j < length es" "m < k + draws env 0 j" for m j
    by (rule global_seq_less [OF assms(5) that(2)]) (use draws_less [OF that(1), of env 0] assms(7) in simp)
  have "inj_on (\<lambda>j. ?id (es ! j)) {..< length es}" using id by (auto simp: inj_on_def len)
  moreover have "map ?id es = map (\<lambda>j. ?id (es ! j)) [0..<length es]" by (simp add: map_nth flip: map_map [unfolded o_def])
  ultimately have "distinct (map ?id es)" by (simp add: distinct_map lessThan_atLeast0)
  moreover have "sorted_wrt (<) (map EventSeq es)"
    using less [of _ "k + draws env 0 _"] draws_less [of _ _ env 0] by (simp add: sorted_wrt_iff_nth_less len seq)
  moreover have "GetCurrentGlobalSeq sq < EventSeq (es ! j)" if "j < length es" for j
    using less [OF that, of k] that by (simp add: seq len GetCurrentGlobalSeq_def assms(6) draws_def)
  ultimately show ?thesis using seq len by simp
qed

theorem match_order_numbers_witness:
  "\<exists>es ob' sq'. MatchOrder (list_ops score_before) (\<lambda>_. (0, 4)) 1 demo_book NewSequencer = Some (es, 3, ob', sq') \<and>
     map EventSeq es = [5]"
proof -
  obtain es ob' sq' where run: "MatchOrder (list_ops score_before) (\<lambda>_. (0, 4)) 1 demo_book NewSequencer = Some (es, 3, ob', sq')"
    "length es = 1"
    using demo_run .
  have "sq_nodeID NewSequencer \<le> 1023" "sq_localSeq NewSequencer = of_nat 0"
    "0 + draws (\<lambda>_. (0, 4)) 0 (length es) < 2 ^ 40"
    using run(2) by (simp_all add: NewSequencer_def draws_def)
  from match_order_numbers [OF by_score.price_levels_axioms demo_ok(1,2) run(1) this] run
  show ?thesis by (auto simp: NewSequencer_def global_seq_def draws_def length_Suc_conv)
qed

section \<open>The order of the prices\<close>

text \<open>
  The skip list orders its keys by \<open>CalcScore\<close> and asks \<open>Compare\<close> for equal scores only. The score falls
  in the order that \<open>Compare\<close> defines, so on each side the worst price is at the front.
\<close>

definition crossed where
  "crossed items ob \<longleftrightarrow> (\<exists>b \<in> fst ` set (bids items ob). \<exists>a \<in> fst ` set (asks items ob). a \<le> b)"

definition worse_or_equal :: "OrderBookEntry \<Rightarrow> PriceInNano \<Rightarrow> PriceInNano \<Rightarrow> bool" where
  "worse_or_equal order p q \<longleftrightarrow> (if is_buy order then q \<le> p else p \<le> q)"

text \<open>Prices that a \<open>float64\<close> holds exactly.\<close>

definition exact_prices :: "(PriceInNano \<times> OrderBookEntry) list \<Rightarrow> bool" where
  "exact_prices pes \<longleftrightarrow> (\<forall>p \<in> fst ` set pes. \<bar>p\<bar> < 2 ^ 53)"

locale score_first = price_levels ops ok items cmp precedes
  for ops :: "'s price_ops" and ok items cmp precedes +
  assumes by_score: "precedes = score_before"
begin

lemma opposite_sorted:
  assumes "ob_ok ok items cmp ob" "exact_prices (opposite items order ob)"
  shows "sorted_wrt (worse_or_equal order) (map fst (opposite items order ob))"
proof -
  have "sorted_wrt (precedes (cmp (ob_buys ob))) (map fst (items (ob_buys ob)))"
    "sorted_wrt (precedes (cmp (ob_sells ob))) (map fst (items (ob_sells ob)))"
    using assms by (intro items_sorted; simp add: ob_ok_def)+
  note s = this [THEN flat_sorted, of "ob_heap ob"]
  let ?c = "if is_buy order then PriceComparatorAsc else PriceComparatorDesc"
  have "sorted_wrt (\<lambda>x y. x = y \<or> score_before ?c x y) (map fst (opposite items order ob))"
    using s assms(1) by (simp add: opposite_def bids_def asks_def by_score ob_ok_def)
  then show ?thesis
  proof (rule sorted_wrt_mono_rel [rotated])
    fix x y assume xy: "x \<in> set (map fst (opposite items order ob))" "y \<in> set (map fst (opposite items order ob))"
      "x = y \<or> score_before ?c x y"
    then have "\<bar>x\<bar> < 2 ^ 53" "\<bar>y\<bar> < 2 ^ 53" using assms(2) by (auto simp: exact_prices_def)
    with xy(3) show "worse_or_equal order x y"
      by (auto simp: score_before_def worse_or_equal_def fl_of_int split: if_splits)
  qed
qed

text \<open>If one price is out of the limit, so is the one at the front.\<close>

lemma front_stops:
  assumes "ob_ok ok items cmp ob" "exact_prices (opposite items order ob)"
    and "p \<in> fst ` set (opposite items order ob)" "stops order p"
  shows "stops order (fst (hd (opposite items order ob)))"
proof -
  obtain p0 e rest where pes: "opposite items order ob = (p0, e) # rest" using assms(3) by (cases "opposite items order ob") auto
  have "p = p0 \<or> worse_or_equal order p0 p" using opposite_sorted [OF assms(1,2)] assms(3) by (force simp: pes)
  with assms(4) show ?thesis by (auto simp: pes stops_def worse_or_equal_def split: if_splits)
qed

end

interpretation score_list: score_first "list_ops score_before" "list_ok score_before" snd fst score_before
  by unfold_locales simp

text \<open>
  C6. Every book that is reached by any sequence of matched orders and cancellations satisfies the
  invariant: queues are never empty and hold open entries of their level's price and of the book's
  side, no entry is in two queues, and the order records are separate from the queued entries.
\<close>

theorem reachable_book_ok:
  assumes "price_levels ops ok items cmp precedes" "book_reach ops symbol ob"
  shows "ob_ok ok items cmp ob"
  by (rule book_reach_ok [OF assms])

text \<open>Runs for the witnesses: orders submitted one after the other.\<close>

fun demo_submit ::
  "'s price_ops \<Rightarrow> OrderBookEntry list \<Rightarrow> 's OrderBook \<times> Sequencer \<Rightarrow> ('s OrderBook \<times> Sequencer) option" where
  "demo_submit ops [] (ob, sq) = Some (ob, sq)"
| "demo_submit ops (e # orders) (ob, sq) =
     (let (oa, ob1) = alloc_entry e ob in
      case MatchOrder ops (\<lambda>_. (0, 0)) oa ob1 sq of
        None \<Rightarrow> None
      | Some (es, rem, ob', sq') \<Rightarrow> demo_submit ops orders (ob', sq'))"

lemma demo_submit_reach:
  "demo_submit ops orders (ob, sq) = Some (ob', sq') \<Longrightarrow> book_reach ops symbol ob \<Longrightarrow>
   \<forall>e \<in> set orders. obe_FilledQty e = 0 \<and> in_i64 (obe_Quantity e) \<Longrightarrow> book_reach ops symbol ob'"
proof (induction orders arbitrary: ob sq)
  case (Cons e orders)
  then obtain oa ob1 es rem ob2 sq2 where step: "alloc_entry e ob = (oa, ob1)"
    "MatchOrder ops (\<lambda>_. (0, 0)) oa ob1 sq = Some (es, rem, ob2, sq2)"
    and rest: "demo_submit ops orders (ob2, sq2) = Some (ob', sq')"
    by (auto split: option.splits prod.splits)
  have "book_reach ops symbol ob2" using book_reach.match [OF Cons.prems(2) _ _ step] Cons.prems(3) by simp
  then show ?case using Cons.IH [OF rest] Cons.prems(3) by simp
qed simp

definition demo_orders :: "OrderBookEntry list" where
  "demo_orders = [demo_order ''a'' ''sell'' 100 5, demo_order ''b'' ''sell'' 102 5, demo_order ''c'' ''buy'' 101 3]"

lemma demo_orders_ok: "\<forall>e \<in> set demo_orders. obe_FilledQty e = 0 \<and> in_i64 (obe_Quantity e)"
  by (simp add: demo_orders_def in_i64_def)

definition demo_prices where
  "demo_prices precedes = map_option (\<lambda>(ob, sq). (map fst (bids snd ob), map fst (asks snd ob)))
     (demo_submit (list_ops precedes) demo_orders (NewOrderBook (list_ops precedes) ''BTC'', NewSequencer))"

declare match_loop.simps [code]

lemma demo_prices_eval: "demo_prices score_before = Some ([101], [102, 100])"
  by code_simp

lemma demo_prices_reach:
  assumes "demo_prices precedes = Some (bs, as)"
  obtains ob where "book_reach (list_ops precedes) ''BTC'' ob" "map fst (bids snd ob) = bs" "map fst (asks snd ob) = as"
proof -
  obtain ob sq where run: "demo_submit (list_ops precedes) demo_orders
      (NewOrderBook (list_ops precedes) ''BTC'', NewSequencer) = Some (ob, sq)"
    and "map fst (bids snd ob) = bs" "map fst (asks snd ob) = as"
    using assms by (auto simp: demo_prices_def)
  with that demo_submit_reach [OF run book_reach.new demo_orders_ok] show ?thesis by blast
qed

theorem reachable_book_ok_witness:
  "\<exists>ob. book_reach (list_ops score_before) ''BTC'' ob \<and> map fst (bids snd ob) = [101] \<and>
     map fst (asks snd ob) = [102, 100] \<and> ob_ok (list_ok score_before) snd fst ob"
  using demo_prices_reach [OF demo_prices_eval] reachable_book_ok [OF by_score.price_levels_axioms] by metis

text \<open>
  C4. \<open>MatchOrder\<close> takes the worst price first. With the skip list in the order of the scores and prices
  below \<open>2 ^ 53\<close>, the prices of a call's trades only get better from one to the next for the incoming order,
  nothing that is left is worse than what was traded, and there are trades at all exactly if every price
  of the opposite side is within the order's limit.
\<close>

theorem match_order_worst_price:
  assumes "score_first ops ok items cmp precedes" "ob_ok ok items cmp ob" "fresh_order items oa ob"
    and "MatchOrder ops env oa ob sq = Some (es, rem, ob', sq')" "order = ob_heap ob oa"
    and "exact_prices (opposite items order ob)"
  shows "sorted_wrt (worse_or_equal order) (map event_price es) \<and>
    (\<forall>p \<in> event_price ` set es. \<forall>p' \<in> fst ` set (opposite items order ob'). worse_or_equal order p p') \<and>
    (es \<noteq> [] \<longleftrightarrow> 0 < obe_Quantity order \<and> opposite items order ob \<noteq> [] \<and>
      (\<forall>p \<in> fst ` set (opposite items order ob). \<not> stops order p))"
proof -
  have pl: "price_levels ops ok items cmp precedes" using assms(1) by (simp add: score_first_def)
  obtain ts where fill: "fill (stops order) (obe_Quantity order) (opposite items order ob) = (ts, rem, opposite items order ob')"
    and ev: "trade_events env (taker_side order) (ob_symbol ob) order 0 ts sq = (es, sq')"
    using match_call [OF pl assms(2-5)] .
  have prices: "map event_price es = map fst ts" using trade_events_price [OF ev] .
  then have set: "event_price ` set es = fst ` set ts" by (metis list.set_map)
  have refl: "worse_or_equal order x x" for x by (simp add: worse_or_equal_def)
  note sorted = fill_sorted [OF fill score_first.opposite_sorted [OF assms(1,2,6)] refl]
  have "es \<noteq> [] \<longleftrightarrow> ts \<noteq> []" using trade_events_length [OF ev] by auto
  also have "\<dots> \<longleftrightarrow> 0 < obe_Quantity order \<and> opposite items order ob \<noteq> [] \<and> \<not> stops order (fst (hd (opposite items order ob)))"
    using fill_trades_iff [OF fill] .
  also have "\<dots> \<longleftrightarrow> 0 < obe_Quantity order \<and> opposite items order ob \<noteq> [] \<and>
      (\<forall>p \<in> fst ` set (opposite items order ob). \<not> stops order p)"
    using score_first.front_stops [OF assms(1,2,6)] by (metis hd_in_set image_eqI)
  finally show ?thesis using sorted(1,2) by (simp add: prices set)
qed

text \<open>
  C5. The book can be crossed. With the skip list in the order of the scores and prices below \<open>2 ^ 53\<close>, an
  order for a positive quantity that finds one price within its limit and one out of it on the opposite side
  trades with none of them. All of it rests on its own side, across from the price it could have traded at.
\<close>

theorem score_order_crosses_book:
  assumes "score_first ops ok items cmp precedes" "ob_ok ok items cmp ob" "fresh_order items oa ob"
    and "MatchOrder ops env oa ob sq = Some (es, rem, ob', sq')" "order = ob_heap ob oa"
    and "exact_prices (opposite items order ob)" "0 < obe_Quantity order"
    and "p \<in> fst ` set (opposite items order ob)" "\<not> stops order p"
    and "p' \<in> fst ` set (opposite items order ob)" "stops order p'"
  shows "es = [] \<and> rem = obe_Quantity order \<and> opposite items order ob' = opposite items order ob \<and> crossed items ob'"
proof -
  have pl: "price_levels ops ok items cmp precedes" using assms(1) by (simp add: score_first_def)
  obtain ts where fill: "fill (stops order) (obe_Quantity order) (opposite items order ob) = (ts, rem, opposite items order ob')"
    and ev: "trade_events env (taker_side order) (ob_symbol ob) order 0 ts sq = (es, sq')"
    and own: "\<forall>p. at_price p (own_side items order ob') = at_price p (own_side items order ob) @
       (if 0 < rem \<and> p = obe_Price order then [order\<lparr>obe_Quantity := rem, obe_FilledQty := 0\<rparr>] else [])"
    using match_call [OF pl assms(2-5)] .
  have front: "stops order (fst (hd (opposite items order ob)))"
    using score_first.front_stops [OF assms(1,2,6,10,11)] .
  have none: "ts = []" "rem = obe_Quantity order" "opposite items order ob' = opposite items order ob"
    using fill front by (cases "opposite items order ob"; auto)+
  have "order\<lparr>obe_Quantity := rem, obe_FilledQty := 0\<rparr> \<in> set (at_price (obe_Price order) (own_side items order ob'))"
    using own none(2) assms(7) by simp
  then have "obe_Price order \<in> fst ` set (own_side items order ob')" by (force simp flip: at_price_mem)
  with none(3) assms(8,9) have "crossed items ob'"
    unfolding crossed_def opposite_def own_side_def stops_def
    by (cases "is_buy order") (simp_all only: if_True if_False not_less, blast+)
  with none trade_events_length [OF ev] show ?thesis by simp
qed

text \<open>Asks at 102 and 100, in the order of the scores, and a buy order.\<close>

definition demo_asks :: "PriceInNano \<Rightarrow> QuantityInNano \<Rightarrow> (comparator \<times> (PriceInNano \<times> addr list) list) OrderBook" where
  "demo_asks limit qty = \<lparr>ob_symbol = ''BTC'', ob_buys = (PriceComparatorDesc, []),
     ob_sells = (PriceComparatorAsc, [(102, [1]), (100, [0])]), ob_orders = Map.empty,
     ob_heap = (\<lambda>a. if a = 0 then demo_order ''a'' ''sell'' 100 5 else if a = 1 then demo_order ''b'' ''sell'' 102 5
                    else demo_order ''t'' ''buy'' limit qty), ob_next = 3\<rparr>"

lemma demo_asks_scores: "fl 100 = 100" "fl 102 = 102"
  using fl_of_int [of 100] fl_of_int [of 102] by simp_all

lemma demo_asks_ok:
  assumes "in_i64 qty"
  shows "ob_ok (list_ok score_before) snd fst (demo_asks limit qty)" "fresh_order snd 2 (demo_asks limit qty)"
    "demo_order ''t'' ''buy'' limit qty = ob_heap (demo_asks limit qty) 2"
    "asks snd (demo_asks limit qty) = [(102, demo_order ''b'' ''sell'' 102 5), (100, demo_order ''a'' ''sell'' 100 5)]"
  using assms
  by (simp_all add: ob_ok_def fresh_order_def demo_asks_def list_ok_def side_ok_def score_before_def demo_asks_scores
      entry_ok_def in_i64_def book_addrs_def asks_def)

lemma demo_asks_stops: "stops (demo_order ''t'' ''buy'' limit qty) p \<longleftrightarrow> limit < p"
  by (simp add: stops_def is_buy_def)

lemma demo_asks_run:
  assumes "in_i64 qty"
  obtains es rem ob' sq' where
    "MatchOrder (list_ops score_before) (\<lambda>_. (0, 0)) 2 (demo_asks limit qty) NewSequencer = Some (es, rem, ob', sq')"
  using by_score.MatchOrder_fill [OF demo_asks_ok(1,2) [OF assms]] by metis

theorem match_order_worst_price_witness:
  "\<exists>es rem ob' sq'. MatchOrder (list_ops score_before) (\<lambda>_. (0, 0)) 2 (demo_asks 103 7) NewSequencer = Some (es, rem, ob', sq') \<and>
     es \<noteq> [] \<and> sorted_wrt (\<ge>) (map event_price es)"
proof -
  have q: "in_i64 7" by (simp add: in_i64_def)
  obtain es rem ob' sq' where run: "MatchOrder (list_ops score_before) (\<lambda>_. (0, 0)) 2 (demo_asks 103 7) NewSequencer = Some (es, rem, ob', sq')"
    by (rule demo_asks_run [OF q])
  have "exact_prices (opposite snd (demo_order ''t'' ''buy'' 103 7) (demo_asks 103 7))"
    by (simp add: exact_prices_def demo_asks_ok(4) [OF q])
  from match_order_worst_price [OF score_list.score_first_axioms demo_asks_ok(1,2) [OF q] run demo_asks_ok(3) [OF q] this] run
  show ?thesis
    by (intro exI [of _ es] exI [of _ rem] exI [of _ ob'] exI [of _ sq'])
      (auto simp: demo_asks_ok(4) [OF q] demo_asks_stops worse_or_equal_def [abs_def] is_buy_def)
qed

theorem score_order_crosses_book_witness:
  "\<exists>ob' sq'. MatchOrder (list_ops score_before) (\<lambda>_. (0, 0)) 2 (demo_asks 101 3) NewSequencer = Some ([], 3, ob', sq') \<and>
     map fst (asks snd ob') = [102, 100] \<and> crossed snd ob'"
proof -
  have q: "in_i64 3" by (simp add: in_i64_def)
  obtain es rem ob' sq' where run: "MatchOrder (list_ops score_before) (\<lambda>_. (0, 0)) 2 (demo_asks 101 3) NewSequencer = Some (es, rem, ob', sq')"
    by (rule demo_asks_run [OF q])
  have "exact_prices (opposite snd (demo_order ''t'' ''buy'' 101 3) (demo_asks 101 3))"
    by (simp add: exact_prices_def demo_asks_ok(4) [OF q])
  from score_order_crosses_book [OF score_list.score_first_axioms demo_asks_ok(1,2) [OF q] run demo_asks_ok(3) [OF q] this, of 100 102] run
  show ?thesis by (auto simp: demo_asks_ok(4) [OF q] demo_asks_stops)
qed

section \<open>Cancelling\<close>

text \<open>
  C8. \<open>CancelOrder\<close> on a well-formed book fails exactly when the order is not recorded; otherwise it
  removes the entries with that id at the order's price, keeps all others in their order, forgets the
  order and keeps the book well formed.
\<close>

theorem cancel_order_spec:
  assumes "price_levels ops ok items cmp precedes" "ob_ok ok items cmp ob"
  shows "case ob_orders ob orderID of
      None \<Rightarrow> CancelOrder ops orderID ob = Inl (''order not found: '' @ orderID)
    | Some oa \<Rightarrow> \<exists>ob'. CancelOrder ops orderID ob = Inr ob' \<and> ob_ok ok items cmp ob' \<and>
        ob_orders ob' = (ob_orders ob)(orderID := None) \<and>
        opposite items (ob_heap ob oa) ob' = opposite items (ob_heap ob oa) ob \<and>
        (\<forall>p. at_price p (own_side items (ob_heap ob oa) ob') =
           (if p = obe_Price (ob_heap ob oa)
            then filter (\<lambda>e. obe_OrderID e \<noteq> orderID) (at_price p (own_side items (ob_heap ob oa) ob))
            else at_price p (own_side items (ob_heap ob oa) ob)))"
proof (cases "ob_orders ob orderID")
  case None
  then show ?thesis by (simp add: CancelOrder_def)
next
  case (Some oa)
  from price_levels.CancelOrder_ok [OF assms Some] show ?thesis unfolding Some option.case .
qed

text \<open>The asks after a sell of 5 and a buy of 3 at the same price, and cancelling the sell.\<close>

definition demo_partial where
  "demo_partial =
     [demo_order ''a'' ''sell'' 100 5, demo_order ''b'' ''buy'' 100 3]"

definition demo_partial_asks where
  "demo_partial_asks = map_option (\<lambda>(ob, sq). (map (\<lambda>(p, e). (p, obe_OrderID e, obe_FilledQty e)) (asks snd ob), ob_orders ob ''a''))
     (demo_submit (list_ops score_before) demo_partial (NewOrderBook (list_ops score_before) ''BTC'', NewSequencer))"

lemma demo_partial_eval: "demo_partial_asks = Some ([(100, ''a'', 3)], Some 0)"
  by code_simp

lemma demo_partial_reach:
  obtains ob where "book_reach (list_ops score_before) ''BTC'' ob" "ob_orders ob ''a'' = Some 0"
    "map (\<lambda>(p, e). (p, obe_OrderID e, obe_FilledQty e)) (asks snd ob) = [(100, ''a'', 3)]"
proof -
  obtain ob sq where run: "demo_submit (list_ops score_before) demo_partial
      (NewOrderBook (list_ops score_before) ''BTC'', NewSequencer) = Some (ob, sq)"
    and view: "ob_orders ob ''a'' = Some 0"
      "map (\<lambda>(p, e). (p, obe_OrderID e, obe_FilledQty e)) (asks snd ob) = [(100, ''a'', 3)]"
    using demo_partial_eval by (auto simp: demo_partial_asks_def)
  have "\<forall>e \<in> set demo_partial. obe_FilledQty e = 0 \<and> in_i64 (obe_Quantity e)"
    by (simp add: demo_partial_def in_i64_def)
  from demo_submit_reach [OF run book_reach.new this] view show ?thesis by (rule that)
qed

theorem cancel_order_spec_witness:
  "\<exists>ob ob'. book_reach (list_ops score_before) ''BTC'' ob \<and>
     CancelOrder (list_ops score_before) ''a'' ob = Inr ob' \<and> ob_orders ob' ''a'' = None"
proof -
  obtain ob where ob: "book_reach (list_ops score_before) ''BTC'' ob" "ob_orders ob ''a'' = Some 0"
    using demo_partial_reach .
  from cancel_order_spec [OF by_score.price_levels_axioms book_reach_ok [OF by_score.price_levels_axioms ob(1)],
      of "''a''"] ob show ?thesis by auto
qed

text \<open>
  C9. The check for partial fills in \<open>CancelOrder\<close> never refuses anything: in a reachable book an
  order that is recorded can always be cancelled, however much of it has been traded, because trades
  are booked on the copy in the queue and the check reads the record.
\<close>

theorem cancel_ignores_fills:
  assumes "price_levels ops ok items cmp precedes" "book_reach ops symbol ob" "ob_orders ob orderID = Some oa"
  shows "\<exists>ob'. CancelOrder ops orderID ob = Inr ob'"
  using price_levels.CancelOrder_ok [OF assms(1) book_reach_ok [OF assms(1,2)] assms(3)] by blast

theorem cancel_ignores_fills_witness:
  "\<exists>ob e. book_reach (list_ops score_before) ''BTC'' ob \<and> (100, e) \<in> set (asks snd ob) \<and>
     obe_OrderID e = ''a'' \<and> obe_FilledQty e = 3 \<and> (\<exists>ob'. CancelOrder (list_ops score_before) ''a'' ob = Inr ob')"
proof -
  obtain ob where ob: "book_reach (list_ops score_before) ''BTC'' ob" "ob_orders ob ''a'' = Some 0"
    "map (\<lambda>(p, e). (p, obe_OrderID e, obe_FilledQty e)) (asks snd ob) = [(100, ''a'', 3)]"
    using demo_partial_reach .
  from ob(3) obtain e where "asks snd ob = [(100, e)]" "obe_OrderID e = ''a''" "obe_FilledQty e = 3"
    by (auto simp: map_eq_Cons_conv)
  with ob(1) cancel_ignores_fills [OF by_score.price_levels_axioms ob(1,2)] show ?thesis by auto
qed

section \<open>Depth\<close>

lemma after_middle: "k \<notin> fst ` set xs \<Longrightarrow> after k (xs @ (k, v) # ys) = (case ys of [] \<Rightarrow> None | y # _ \<Rightarrow> Some y)"
  by (induction xs) auto

context price_levels
begin

lemma depth_levels_take:
  assumes "ok book" "items book = xs @ ys"
  shows "depth_levels ops book h n (case ys of [] \<Rightarrow> None | y # _ \<Rightarrow> Some y) =
    map (\<lambda>(p, q). depth_entry h p q) (take n ys)"
  using assms(2)
proof (induction n arbitrary: xs ys)
  case (Suc n)
  show ?case
  proof (cases ys)
    case (Cons y zs)
    obtain p q where y: "y = (p, q)" by (cases y)
    have "p \<notin> fst ` set xs" using items_distinct [OF assms(1)] Suc.prems by (auto simp: Cons y)
    then have "sl_Next ops book p = (case zs of [] \<Rightarrow> None | z # _ \<Rightarrow> Some z)"
      using Next [OF assms(1)] Suc.prems by (simp add: Cons y after_middle)
    with Suc.IH [of "xs @ [y]" zs] Suc.prems show ?thesis by (simp add: Cons y)
  qed simp
qed simp

end

lemma total_qty_sum:
  assumes "\<forall>a \<in> set q. entry_ok sd p (h a)" "sum_list (map (\<lambda>a. open_qty (h a)) q) < 2 ^ 63"
  shows "total_qty h q = sum_list (map (\<lambda>a. open_qty (h a)) q)"
proof -
  have pos: "0 \<le> sum_list (map (\<lambda>a. open_qty (h a)) xs)" if "set xs \<subseteq> set q" for xs
    using that assms(1) entry_ok_open(1) by (intro sum_list_nonneg) fastforce
  have "foldl (\<lambda>t a. i64 (t + i64 (obe_Quantity (h a) - obe_FilledQty (h a)))) t xs =
      t + sum_list (map (\<lambda>a. open_qty (h a)) xs)"
    if "set xs \<subseteq> set q" "0 \<le> t" "t + sum_list (map (\<lambda>a. open_qty (h a)) xs) < 2 ^ 63" for t xs
    using that
  proof (induction xs arbitrary: t)
    case (Cons a xs)
    have a: "entry_ok sd p (h a)" using Cons.prems(1) assms(1) by auto
    have rest: "0 \<le> sum_list (map (\<lambda>a. open_qty (h a)) xs)" using pos Cons.prems(1) by auto
    have "i64 (t + open_qty (h a)) = t + open_qty (h a)"
      using entry_ok_open(1) [OF a] rest Cons.prems(2,3) by (intro i64_id) (auto simp: in_i64_def)
    with Cons.IH [of "t + open_qty (h a)"] Cons.prems entry_ok_open(1,2) [OF a] show ?case by simp
  qed simp
  from this [of q 0] assms(2) show ?thesis by (simp add: total_qty_def)
qed

text \<open>One level as \<open>GetDepth\<close> reports it: price and open quantity as exact decimals.\<close>

definition level_view :: "heap \<Rightarrow> PriceInNano \<times> addr list \<Rightarrow> string \<rightharpoonup> string" where
  "level_view h pq = [''price'' \<mapsto> fixed8 (fst pq < 0) (nat \<bar>fst pq\<bar>),
     ''quantity'' \<mapsto> fixed8 False (nat (sum_list (map (\<lambda>a. open_qty (h a)) (snd pq))))]"

definition displayable :: "heap \<Rightarrow> PriceInNano \<times> addr list \<Rightarrow> bool" where
  "displayable h pq \<longleftrightarrow> \<bar>fst pq\<bar> < 2 ^ 52 \<and> sum_list (map (\<lambda>a. open_qty (h a)) (snd pq)) < 2 ^ 52"

lemma level_view_eq:
  assumes "side_ok sd its h" "(p, q) \<in> set its" "displayable h (p, q)"
  shows "depth_entry h p q = level_view h (p, q)"
proof -
  have q: "\<forall>a \<in> set q. entry_ok sd p (h a)" using assms(1,2) by (auto simp: side_ok_def)
  have "0 \<le> sum_list (map (\<lambda>a. open_qty (h a)) q)"
    using q entry_ok_open(1) by (intro sum_list_nonneg) fastforce
  with assms(3) total_qty_sum [OF q] show ?thesis by (simp add: depth_entry_def level_view_def displayable_def format8_nano)
qed

text \<open>
  C10. \<open>GetDepth\<close> reports the first \<open>levels\<close> price levels of each side, in list order, with the exact
  decimal price and the exact decimal sum of the open quantities, as long as prices and sums are below
  \<open>2 ^ 52\<close> units of \<open>10 ^ -8\<close>: the detour through \<open>float64\<close> loses nothing there.
\<close>

theorem get_depth_exact:
  assumes "price_levels ops ok items cmp precedes" "ob_ok ok items cmp ob"
    and "\<forall>pq \<in> set (items (ob_buys ob)) \<union> set (items (ob_sells ob)). displayable (ob_heap ob) pq"
  shows "GetDepth ops levels ob =
    (map (level_view (ob_heap ob)) (take (nat levels) (items (ob_buys ob))),
     map (level_view (ob_heap ob)) (take (nat levels) (items (ob_sells ob))))"
proof -
  have side: "depth_levels ops book (ob_heap ob) n (sl_Front ops book) = map (level_view (ob_heap ob)) (take n (items book))"
    if "ok book" "side_ok sd (items book) (ob_heap ob)" "\<forall>pq \<in> set (items book). displayable (ob_heap ob) pq"
    for book sd n
    using price_levels.depth_levels_take [OF assms(1) that(1), of "[]" "items book" "ob_heap ob" n]
      skip_list.Front [OF assms(1) [unfolded price_levels_def] that(1)] level_view_eq [OF that(2)] that(3)
    by (auto intro!: map_cong dest!: in_set_takeD)
  from assms(2,3) show ?thesis by (auto simp: GetDepth_def ob_ok_def side)
qed

theorem get_depth_exact_witness:
  "GetDepth (list_ops score_before) 5 demo_book =
     ([], [[''price'' \<mapsto> ''0.00000100'', ''quantity'' \<mapsto> ''0.00000005'']])"
proof -
  have "fixed8 False 100 = ''0.00000100''" "fixed8 False 5 = ''0.00000005''"
    by (simp_all add: fixed8_def pad8_def show_nat.simps replicate_numeral)
  then show ?thesis
    using get_depth_exact [OF by_score.price_levels_axioms demo_ok(1), of 5]
    by (simp add: demo_book_def displayable_def open_qty_def level_view_def)
qed

end
