(* ===== verification/EventLog.thy ===== *)
theory EventLog
  imports Events
begin

text \<open>
  \<^verbatim>\<open>src/biz/service/event_log_memory.go\<close> and the interface \<^verbatim>\<open>EventStore\<close> of
  \<^verbatim>\<open>src/biz/model/event.go\<close> that it implements. The operations of the interface are a record, so
  that the event pipeline is modelled for every store; the locale \<open>event_store\<close> is the contract the
  pipeline relies on, and the in-memory log satisfies it.
\<close>

section \<open>The interface\<close>

text \<open>A failing call may still have changed the store, so every result carries the store after it.\<close>

record 'l event_store_ops =
  es_AppendEvent :: "MatchingEngineEvent option \<Rightarrow> 'l \<Rightarrow> go_error option \<times> 'l"
  es_GetEventsBySymbol :: "string \<Rightarrow> u64 \<Rightarrow> int \<Rightarrow> 'l \<Rightarrow> go_error + EventEnvelope list"
  es_GetEventsSinceTime :: "string \<Rightarrow> int \<Rightarrow> 'l \<Rightarrow> go_error + EventEnvelope list"
  es_GetLatestSeq :: "string \<Rightarrow> 'l \<Rightarrow> go_error + u64"

text \<open>The first \<open>limit\<close> elements; a limit of zero or less is none.\<close>

definition limited :: "int \<Rightarrow> 'a list \<Rightarrow> 'a list" where
  "limited limit xs = (if limit > 0 then take (nat limit) xs else xs)"

section \<open>The in-memory log\<close>

record InMemoryEventLog =
  el_events :: "EventEnvelope list"
  el_symbolIndexes :: "string \<rightharpoonup> nat list"
  el_symbolSeq :: "string \<rightharpoonup> u64"

definition NewInMemoryEventLog :: InMemoryEventLog where
  "NewInMemoryEventLog = \<lparr>el_events = [], el_symbolIndexes = Map.empty, el_symbolSeq = Map.empty\<rparr>"

definition AppendEvent :: "MatchingEngineEvent option \<Rightarrow> InMemoryEventLog \<Rightarrow> go_error option \<times> InMemoryEventLog" where
  "AppendEvent ev el =
     (case ev of
        None \<Rightarrow> (Some ''event cannot be nil'', el)
      | Some event \<Rightarrow>
          let envelope = MarshalEvent event; index = length (el_events el); symbol = Symbol event
          in (None, el\<lparr>el_events := el_events el @ [envelope],
                el_symbolIndexes := (el_symbolIndexes el)(symbol \<mapsto> mget [] (el_symbolIndexes el) symbol @ [index]),
                el_symbolSeq := (el_symbolSeq el)(symbol \<mapsto> EventSeq event)\<rparr>))"

text \<open>
  The loops over an index list: \<open>keep\<close> is the test on an envelope, \<open>result\<close> what was collected.
\<close>

fun collect :: "EventEnvelope list \<Rightarrow> (EventEnvelope \<Rightarrow> bool) \<Rightarrow> int \<Rightarrow> nat list \<Rightarrow> EventEnvelope list \<Rightarrow> EventEnvelope list" where
  "collect events keep limit [] result = result"
| "collect events keep limit (idx # indexes) result =
     (if idx \<ge> length events then result
      else if keep (events ! idx) then
        (let result' = result @ [events ! idx]
         in if limit > 0 \<and> int (length result') \<ge> limit then result'
            else collect events keep limit indexes result')
      else collect events keep limit indexes result)"

definition GetEventsBySymbol :: "string \<Rightarrow> u64 \<Rightarrow> int \<Rightarrow> InMemoryEventLog \<Rightarrow> go_error + EventEnvelope list" where
  "GetEventsBySymbol symbol startSeq limit el =
     (case el_symbolIndexes el symbol of
        None \<Rightarrow> Inr []
      | Some indexes \<Rightarrow> Inr (collect (el_events el) (\<lambda>e. ee_Seq e \<ge> startSeq) limit indexes []))"

definition GetEventsSinceTime :: "string \<Rightarrow> int \<Rightarrow> InMemoryEventLog \<Rightarrow> go_error + EventEnvelope list" where
  "GetEventsSinceTime symbol timestamp el =
     (case el_symbolIndexes el symbol of
        None \<Rightarrow> Inr []
      | Some indexes \<Rightarrow> Inr (collect (el_events el) (\<lambda>e. ee_Timestamp e \<ge> timestamp) (- 1) indexes []))"

definition GetLatestSeq :: "string \<Rightarrow> InMemoryEventLog \<Rightarrow> go_error + u64" where
  "GetLatestSeq symbol el = Inr (case el_symbolSeq el symbol of None \<Rightarrow> 0 | Some seq \<Rightarrow> seq)"

definition GetAllEvents :: "InMemoryEventLog \<Rightarrow> EventEnvelope list" where
  "GetAllEvents el = el_events el"

definition GetEventsBySymbolAndSeq :: "string \<Rightarrow> u64 \<Rightarrow> InMemoryEventLog \<Rightarrow> go_error + EventEnvelope list" where
  "GetEventsBySymbolAndSeq symbol startSeq el = GetEventsBySymbol symbol startSeq (- 1) el"

definition memory_store :: "InMemoryEventLog event_store_ops" where
  "memory_store = \<lparr>es_AppendEvent = AppendEvent, es_GetEventsBySymbol = GetEventsBySymbol,
     es_GetEventsSinceTime = GetEventsSinceTime, es_GetLatestSeq = GetLatestSeq\<rparr>"

section \<open>What the index is\<close>

text \<open>The number of the last event of a symbol.\<close>

definition last_seq :: "string \<Rightarrow> EventEnvelope list \<Rightarrow> u64" where
  "last_seq symbol es = (let xs = filter (\<lambda>e. ee_Symbol e = symbol) es in if xs = [] then 0 else ee_Seq (last xs))"

definition log_ok :: "InMemoryEventLog \<Rightarrow> bool" where
  "log_ok el \<longleftrightarrow>
     (\<forall>symbol. mget [] (el_symbolIndexes el) symbol =
        filter (\<lambda>i. ee_Symbol (el_events el ! i) = symbol) [0..<length (el_events el)]) \<and>
     (\<forall>symbol. mget 0 (el_symbolSeq el) symbol = last_seq symbol (el_events el))"

lemma log_ok_New: "log_ok NewInMemoryEventLog"
  by (simp add: log_ok_def NewInMemoryEventLog_def last_seq_def)

lemma log_ok_Append:
  assumes "log_ok el" "AppendEvent ev el = (err, el')"
  shows "log_ok el'"
proof (cases ev)
  case None
  with assms show ?thesis by (simp add: AppendEvent_def)
next
  case (Some e)
  have "filter (\<lambda>i. ee_Symbol ((el_events el @ [x]) ! i) = s) [0..<length (el_events el)] =
      filter (\<lambda>i. ee_Symbol (el_events el ! i) = s) [0..<length (el_events el)]" for x s
    by (rule filter_cong) (auto simp: nth_append)
  with Some assms show ?thesis
    by (auto simp: AppendEvent_def log_ok_def MarshalEvent_def last_seq_def Let_def)
qed

lemma collect_filter:
  assumes "\<forall>i \<in> set indexes. i < length events" "limit > 0 \<longrightarrow> int (length result) < limit"
  shows "collect events keep limit indexes result =
    limited limit (result @ filter keep (map (\<lambda>i. events ! i) indexes))"
  using assms
proof (induction events keep limit indexes result rule: collect.induct)
  case (1 events keep limit result)
  then show ?case by (auto simp: limited_def)
next
  case (2 events keep limit idx indexes result)
  show ?case
  proof (cases "keep (events ! idx) \<and> limit > 0 \<and> int (length result) + 1 \<ge> limit")
    case True
    with "2.prems" have "nat limit = Suc (length result)" by auto
    with True "2.prems" show ?thesis by (simp add: limited_def)
  next
    case False
    with 2 show ?thesis by (auto simp: Let_def)
  qed
qed

lemma collect_log:
  assumes "log_ok el"
  shows "(case el_symbolIndexes el symbol of None \<Rightarrow> Inr []
      | Some indexes \<Rightarrow> Inr (collect (el_events el) keep limit indexes [])) =
    (Inr (limited limit (filter (\<lambda>e. ee_Symbol e = symbol \<and> keep e) (el_events el))) :: go_error + EventEnvelope list)"
proof -
  let ?is = "filter (\<lambda>i. ee_Symbol (el_events el ! i) = symbol) [0..<length (el_events el)]"
  have "map (\<lambda>i. el_events el ! i) ?is = filter (\<lambda>e. ee_Symbol e = symbol) (el_events el)"
    by (metis (mono_tags, lifting) filter_cong filter_map map_nth o_apply)
  then have col: "collect (el_events el) keep limit ?is [] =
      limited limit (filter (\<lambda>e. ee_Symbol e = symbol \<and> keep e) (el_events el))"
    by (subst collect_filter) (auto simp: conj_commute)
  have "mget [] (el_symbolIndexes el) symbol = ?is" using assms by (simp add: log_ok_def)
  moreover have "(case el_symbolIndexes el symbol of None \<Rightarrow> Inr []
      | Some indexes \<Rightarrow> Inr (collect (el_events el) keep limit indexes [])) =
    (Inr (collect (el_events el) keep limit (mget [] (el_symbolIndexes el) symbol) []) :: go_error + EventEnvelope list)"
    by (simp add: mget_def split: option.split)
  ultimately show ?thesis using col by (simp only:)
qed

section \<open>The contract of an event store\<close>

locale event_store =
  fixes ops :: "'l event_store_ops" and ok :: "'l \<Rightarrow> bool" and hist :: "'l \<Rightarrow> EventEnvelope list"
  assumes append_done: "ok l \<Longrightarrow> es_AppendEvent ops (Some e) l = (None, l') \<Longrightarrow> ok l' \<and> hist l' = hist l @ [MarshalEvent e]"
    and append_failed: "ok l \<Longrightarrow> es_AppendEvent ops ev l = (Some err, l') \<Longrightarrow> ok l' \<and> hist l' = hist l"
    and append_nil: "ok l \<Longrightarrow> fst (es_AppendEvent ops None l) \<noteq> None"
    and by_symbol: "ok l \<Longrightarrow> es_GetEventsBySymbol ops s n limit l = Inr es \<Longrightarrow>
      es = limited limit (filter (\<lambda>e. ee_Symbol e = s \<and> ee_Seq e \<ge> n) (hist l))"
    and since_time: "ok l \<Longrightarrow> es_GetEventsSinceTime ops s t l = Inr es \<Longrightarrow>
      es = filter (\<lambda>e. ee_Symbol e = s \<and> ee_Timestamp e \<ge> t) (hist l)"
    and latest: "ok l \<Longrightarrow> es_GetLatestSeq ops s l = Inr n \<Longrightarrow> n = last_seq s (hist l)"
begin

text \<open>Reading a symbol back and decoding gives the appended events of that symbol.\<close>

lemma replay:
  assumes "ok l" "hist l = map MarshalEvent es" "\<forall>e \<in> set es. event_ok e"
    and "es_GetEventsBySymbol ops s n limit l = Inr envs"
  shows "map UnmarshalEvent envs =
    map (\<lambda>e. Inr (Some e)) (limited limit (filter (\<lambda>e. Symbol e = s \<and> EventSeq e \<ge> n) es))"
proof -
  have fields: "ee_Symbol (MarshalEvent e) = Symbol e" "ee_Seq (MarshalEvent e) = EventSeq e" for e
    by (simp_all add: MarshalEvent_def)
  have "envs = map MarshalEvent (limited limit (filter (\<lambda>e. Symbol e = s \<and> EventSeq e \<ge> n) es))"
    using by_symbol [OF assms(1,4)] by (simp add: assms(2) filter_map o_def fields limited_def take_map)
  moreover have "\<forall>e \<in> set (limited limit (filter P es)). event_ok e" for P
    using assms(3) by (auto simp: limited_def dest: in_set_takeD)
  ultimately show ?thesis
    using event_roundtrip by (simp add: o_def)
qed

end

interpretation mem: event_store memory_store log_ok el_events
proof unfold_locales
  fix l :: InMemoryEventLog assume l: "log_ok l"
  show "log_ok l' \<and> el_events l' = el_events l @ [MarshalEvent e]"
    if "es_AppendEvent memory_store (Some e) l = (None, l')" for e l'
    using that log_ok_Append [OF l, of "Some e"] by (auto simp: memory_store_def AppendEvent_def Let_def)
  show "log_ok l' \<and> el_events l' = el_events l"
    if "es_AppendEvent memory_store ev l = (Some err, l')" for ev err l'
    using that l by (auto simp: memory_store_def AppendEvent_def Let_def split: option.splits)
  show "fst (es_AppendEvent memory_store None l) \<noteq> None"
    by (simp add: memory_store_def AppendEvent_def)
  show "es = limited limit (filter (\<lambda>e. ee_Symbol e = s \<and> ee_Seq e \<ge> n) (el_events l))"
    if "es_GetEventsBySymbol memory_store s n limit l = Inr es" for s n limit es
    using that by (simp add: memory_store_def GetEventsBySymbol_def collect_log [OF l])
  show "es = filter (\<lambda>e. ee_Symbol e = s \<and> ee_Timestamp e \<ge> t) (el_events l)"
    if "es_GetEventsSinceTime memory_store s t l = Inr es" for s t es
    using that by (simp add: memory_store_def GetEventsSinceTime_def collect_log [OF l] limited_def)
  show "n = last_seq s (el_events l)" if "es_GetLatestSeq memory_store s l = Inr n" for s n
    using that l by (auto simp: memory_store_def GetLatestSeq_def log_ok_def mget_def split: option.splits)
qed

section \<open>Properties\<close>

fun append_all :: "MatchingEngineEvent list \<Rightarrow> InMemoryEventLog \<Rightarrow> InMemoryEventLog" where
  "append_all [] el = el"
| "append_all (e # es) el = append_all es (snd (AppendEvent (Some e) el))"

lemma append_all_log: "log_ok el \<Longrightarrow> log_ok (append_all es el) \<and> el_events (append_all es el) = el_events el @ map MarshalEvent es"
proof (induction es arbitrary: el)
  case (Cons e es)
  have "AppendEvent (Some e) el = (None, snd (AppendEvent (Some e) el))" by (simp add: AppendEvent_def Let_def)
  with mem.append_done [OF Cons.prems, of e] Cons.IH show ?case by (simp add: memory_store_def)
qed simp

text \<open>
  C13. The in-memory log loses and reorders nothing: after any sequence of appends, reading a symbol
  from a sequence number on and decoding gives exactly the appended events of that symbol with at
  least that number, in the order they were appended and cut at the limit; and the latest number of
  the symbol is that of its last event.
\<close>

theorem memory_log_replay:
  assumes "\<forall>e \<in> set es. event_ok e"
  shows "\<exists>envs. GetEventsBySymbol s n limit (append_all es NewInMemoryEventLog) = Inr envs \<and>
    map UnmarshalEvent envs =
      map (\<lambda>e. Inr (Some e)) (limited limit (filter (\<lambda>e. Symbol e = s \<and> EventSeq e \<ge> n) es)) \<and>
    GetLatestSeq s (append_all es NewInMemoryEventLog) =
      Inr (last (0 # map EventSeq (filter (\<lambda>e. Symbol e = s) es)))"
proof -
  let ?l = "append_all es NewInMemoryEventLog"
  have l: "log_ok ?l" "el_events ?l = map MarshalEvent es"
    using append_all_log [OF log_ok_New, of es] by (simp_all add: NewInMemoryEventLog_def)
  obtain envs where envs: "GetEventsBySymbol s n limit ?l = Inr envs"
    using collect_log [OF l(1)] by (simp add: GetEventsBySymbol_def)
  obtain m where m: "GetLatestSeq s ?l = Inr m" by (simp add: GetLatestSeq_def)
  have "m = last_seq s (map MarshalEvent es)" using mem.latest [OF l(1)] m l(2) by (simp add: memory_store_def)
  also have "\<dots> = last (0 # map EventSeq (filter (\<lambda>e. Symbol e = s) es))"
    by (auto simp: last_seq_def filter_map o_def MarshalEvent_def last_map)
  finally show ?thesis
    using envs m mem.replay [OF l assms, of s n limit envs] by (simp add: memory_store_def)
qed

theorem memory_log_replay_witness:
  "\<exists>envs. GetEventsBySymbol ''BTC'' 2 0 (append_all
      [OrderCancelled (zero_cancelled\<lparr>oc_Seq := 1, oc_SymbolStr := ''BTC''\<rparr>),
       OrderCancelled (zero_cancelled\<lparr>oc_Seq := 2, oc_SymbolStr := ''BTC''\<rparr>)] NewInMemoryEventLog) = Inr envs \<and>
    map UnmarshalEvent envs = [Inr (Some (OrderCancelled (zero_cancelled\<lparr>oc_Seq := 2, oc_SymbolStr := ''BTC''\<rparr>)))]"
proof -
  have "utf8_valid ''BTC''" "\<not> (2 :: u64) \<le> 1" by code_simp+
  then show ?thesis
    using memory_log_replay [of
      "[OrderCancelled (zero_cancelled\<lparr>oc_Seq := 1, oc_SymbolStr := ''BTC''\<rparr>),
        OrderCancelled (zero_cancelled\<lparr>oc_Seq := 2, oc_SymbolStr := ''BTC''\<rparr>)]" "''BTC''" 2 0]
    by (auto simp: zero_cancelled_def limited_def)
qed

end
