(* ===== verification/Checkpoint.thy ===== *)
theory Checkpoint
  imports Events
begin

text \<open>
  \<^verbatim>\<open>src/biz/model/checkpoint.go\<close>, \<^verbatim>\<open>src/biz/dal/pg/checkpoint_repo.go\<close> and
  \<^verbatim>\<open>src/biz/service/checkpoint_manager.go\<close>: how far each processor got with each symbol, kept in
  memory and saved in the table \<^verbatim>\<open>event_offset_checkpoints\<close>, whose unique key is the pair of
  processor name and symbol.

  The database is third-party code: the statements the repository issues are the fields of
  \<open>checkpoint_db\<close>, and the locale \<open>checkpoint_table\<close> says what they do to the rows. \<open>now\<close>
  arguments are clock readings in milliseconds.
\<close>

section \<open>Data\<close>

record EventOffsetCheckpoint =
  cp_ProcessorName :: string
  cp_Symbol :: string
  cp_EventSeq :: u64
  cp_KafkaOffset :: int
  cp_PartitionID :: int
  cp_Timestamp :: int
  cp_StateChecksum :: string
  cp_OrderCount :: int
  cp_TradeCount :: int
  cp_RecoveryStatus :: string
  cp_RecoveryStartTime :: "int option"
  cp_RecoveryEndTime :: "int option"
  cp_RecoveryError :: string
  cp_UpdatedAt :: int

record CheckpointSummary =
  cs_Symbol :: string
  cs_ProcessorName :: string
  cs_LastEventSeq :: u64
  cs_LastKafkaOffset :: int
  cs_LastCheckpointTime :: int
  cs_StateChecksum :: string
  cs_SecondsSinceLastCP :: int

record RecoveryContext =
  rc_Symbol :: string
  rc_ProcessorName :: string
  rc_StartEventSeq :: u64
  rc_StartKafkaOffset :: int
  rc_Topic :: string
  rc_Partition :: int
  rc_PreCrashChecksum :: string
  rc_ExpectedOrderCount :: int
  rc_ExpectedTradeCount :: int
  rc_SecondsSinceLastCP :: int
  rc_RecoveryStartTime :: int
  rc_RecoveryEndTime :: int
  rc_RecoveredEventCount :: int
  rc_RecoverySuccess :: bool
  rc_RecoveryError :: string

section \<open>The table\<close>

text \<open>
  \<open>cd_Upsert cp upd\<close> is \<^verbatim>\<open>INSERT ... ON CONFLICT (processor_name, symbol) DO UPDATE\<close> with the
  assignment \<open>upd\<close>; \<open>cd_First\<close> reads the row of a key (\<open>Inr None\<close>: record not found); \<open>cd_Updates\<close>
  updates it where it exists; \<open>cd_Where\<close> lists rows.
\<close>

record 'd checkpoint_db =
  cd_Upsert :: "EventOffsetCheckpoint \<Rightarrow> (EventOffsetCheckpoint \<Rightarrow> EventOffsetCheckpoint) \<Rightarrow> 'd \<Rightarrow> go_error option \<times> 'd"
  cd_First :: "string \<Rightarrow> string \<Rightarrow> 'd \<Rightarrow> go_error + EventOffsetCheckpoint option"
  cd_Updates :: "string \<Rightarrow> string \<Rightarrow> (EventOffsetCheckpoint \<Rightarrow> EventOffsetCheckpoint) \<Rightarrow> 'd \<Rightarrow> go_error option \<times> 'd"
  cd_Where :: "(EventOffsetCheckpoint \<Rightarrow> bool) \<Rightarrow> 'd \<Rightarrow> go_error + EventOffsetCheckpoint list"

section \<open>The repository\<close>

text \<open>\<open>SaveCheckpoint\<close> stamps the structure its caller passed; the stamped structure is returned.\<close>

definition SaveCheckpoint ::
  "'d checkpoint_db \<Rightarrow> int \<Rightarrow> EventOffsetCheckpoint \<Rightarrow> 'd \<Rightarrow> go_error option \<times> EventOffsetCheckpoint \<times> 'd" where
  "SaveCheckpoint db now cp d =
     (if cp_ProcessorName cp = [] \<or> cp_Symbol cp = []
      then (Some ''processor_name and symbol must not be empty'', cp, d)
      else
        let cp' = cp\<lparr>cp_Timestamp := now, cp_UpdatedAt := now\<rparr>;
            (err, d') = cd_Upsert db cp'
             (\<lambda>old. old\<lparr>cp_EventSeq := cp_EventSeq cp', cp_KafkaOffset := cp_KafkaOffset cp',
                cp_PartitionID := cp_PartitionID cp', cp_StateChecksum := cp_StateChecksum cp',
                cp_OrderCount := cp_OrderCount cp', cp_TradeCount := cp_TradeCount cp',
                cp_Timestamp := cp_Timestamp cp', cp_UpdatedAt := cp_UpdatedAt cp'\<rparr>) d
        in (err, cp', d'))"

definition GetLatestCheckpoint ::
  "'d checkpoint_db \<Rightarrow> string \<Rightarrow> string \<Rightarrow> 'd \<Rightarrow> go_error + EventOffsetCheckpoint option" where
  "GetLatestCheckpoint db processorName symbol d = cd_First db processorName symbol d"

definition GetCheckpointSummary ::
  "'d checkpoint_db \<Rightarrow> int \<Rightarrow> string \<Rightarrow> string \<Rightarrow> 'd \<Rightarrow> go_error + CheckpointSummary option" where
  "GetCheckpointSummary db now processorName symbol d =
     (case GetLatestCheckpoint db processorName symbol d of
        Inl err \<Rightarrow> Inl err
      | Inr None \<Rightarrow> Inr None
      | Inr (Some cp) \<Rightarrow> Inr (Some
          \<lparr>cs_Symbol = symbol, cs_ProcessorName = processorName, cs_LastEventSeq = cp_EventSeq cp,
           cs_LastKafkaOffset = cp_KafkaOffset cp, cs_LastCheckpointTime = cp_Timestamp cp,
           cs_StateChecksum = cp_StateChecksum cp,
           cs_SecondsSinceLastCP = go_div (i64 (now - cp_Timestamp cp)) 1000\<rparr>))"

definition GetRecoveryContext ::
  "'d checkpoint_db \<Rightarrow> int \<Rightarrow> string \<Rightarrow> string \<Rightarrow> 'd \<Rightarrow> go_error + RecoveryContext" where
  "GetRecoveryContext db now processorName symbol d =
     (case GetCheckpointSummary db now processorName symbol d of
        Inl err \<Rightarrow> Inl err
      | Inr summary \<Rightarrow>
          let ctx = \<lparr>rc_Symbol = symbol, rc_ProcessorName = processorName, rc_StartEventSeq = 0,
                rc_StartKafkaOffset = 0, rc_Topic = [], rc_Partition = 0, rc_PreCrashChecksum = [],
                rc_ExpectedOrderCount = 0, rc_ExpectedTradeCount = 0, rc_SecondsSinceLastCP = 0,
                rc_RecoveryStartTime = now, rc_RecoveryEndTime = 0, rc_RecoveredEventCount = 0,
                rc_RecoverySuccess = False, rc_RecoveryError = []\<rparr>
          in case summary of
               Some s \<Rightarrow> Inr (ctx\<lparr>rc_StartEventSeq := cs_LastEventSeq s + 1,
                 rc_StartKafkaOffset := i64 (cs_LastKafkaOffset s + 1),
                 rc_PreCrashChecksum := cs_StateChecksum s,
                 rc_SecondsSinceLastCP := cs_SecondsSinceLastCP s\<rparr>)
             | None \<Rightarrow> Inr (ctx\<lparr>rc_StartEventSeq := 1, rc_StartKafkaOffset := 0\<rparr>))"

definition SaveRecoveryResult :: "int \<Rightarrow> RecoveryContext \<Rightarrow> RecoveryContext" where
  "SaveRecoveryResult now ctx = ctx\<lparr>rc_RecoveryEndTime := now\<rparr>"

definition MarkRecoveryInProgress ::
  "'d checkpoint_db \<Rightarrow> int \<Rightarrow> string \<Rightarrow> string \<Rightarrow> 'd \<Rightarrow> go_error option \<times> 'd" where
  "MarkRecoveryInProgress db now processorName symbol d =
     cd_Updates db processorName symbol
       (\<lambda>row. row\<lparr>cp_RecoveryStatus := ''in_progress'', cp_RecoveryStartTime := Some now,
          cp_RecoveryError := [], cp_UpdatedAt := now\<rparr>) d"

definition MarkRecoveryComplete_repo ::
  "'d checkpoint_db \<Rightarrow> int \<Rightarrow> string \<Rightarrow> string \<Rightarrow> 'd \<Rightarrow> go_error option \<times> 'd" where
  "MarkRecoveryComplete_repo db now processorName symbol d =
     cd_Updates db processorName symbol
       (\<lambda>row. row\<lparr>cp_RecoveryStatus := ''complete'', cp_RecoveryEndTime := Some now, cp_UpdatedAt := now\<rparr>) d"

definition MarkRecoveryFailed ::
  "'d checkpoint_db \<Rightarrow> int \<Rightarrow> string \<Rightarrow> string \<Rightarrow> string \<Rightarrow> 'd \<Rightarrow> go_error option \<times> 'd" where
  "MarkRecoveryFailed db now processorName symbol errorMsg d =
     cd_Updates db processorName symbol
       (\<lambda>row. row\<lparr>cp_RecoveryStatus := ''failed'', cp_RecoveryEndTime := Some now,
          cp_RecoveryError := errorMsg, cp_UpdatedAt := now\<rparr>) d"

definition GetRecoveryStatus :: "'d checkpoint_db \<Rightarrow> string \<Rightarrow> string \<Rightarrow> 'd \<Rightarrow> go_error + string" where
  "GetRecoveryStatus db processorName symbol d =
     (case cd_First db processorName symbol d of
        Inl err \<Rightarrow> Inl err
      | Inr None \<Rightarrow> Inr ''none''
      | Inr (Some cp) \<Rightarrow> Inr (cp_RecoveryStatus cp))"

definition ListFailedRecoveries :: "'d checkpoint_db \<Rightarrow> 'd \<Rightarrow> go_error + EventOffsetCheckpoint list" where
  "ListFailedRecoveries db d = cd_Where db (\<lambda>row. cp_RecoveryStatus row = ''failed'') d"

definition ListPendingRecoveryItems_repo :: "'d checkpoint_db \<Rightarrow> 'd \<Rightarrow> go_error + EventOffsetCheckpoint list" where
  "ListPendingRecoveryItems_repo db d =
     cd_Where db (\<lambda>row. cp_RecoveryStatus row = ''in_progress'' \<or> cp_RecoveryStatus row = ''failed'') d"

section \<open>The manager\<close>

record CheckpointManager =
  cm_checkpoints :: "string \<rightharpoonup> EventOffsetCheckpoint"

definition NewCheckpointManager :: CheckpointManager where
  "NewCheckpointManager = \<lparr>cm_checkpoints = Map.empty\<rparr>"

definition RecordEventProcessed ::
  "int \<Rightarrow> string \<Rightarrow> string \<Rightarrow> u64 \<Rightarrow> int \<Rightarrow> int \<Rightarrow> string \<Rightarrow> int \<Rightarrow> int \<Rightarrow> CheckpointManager \<Rightarrow> CheckpointManager" where
  "RecordEventProcessed now processorName symbol eventSeq kafkaOffset partitionID stateChecksum orderCount tradeCount cm =
     cm\<lparr>cm_checkpoints := (cm_checkpoints cm)(colon_key processorName symbol \<mapsto>
       \<lparr>cp_ProcessorName = processorName, cp_Symbol = symbol, cp_EventSeq = eventSeq,
        cp_KafkaOffset = kafkaOffset, cp_PartitionID = partitionID, cp_Timestamp = now,
        cp_StateChecksum = stateChecksum, cp_OrderCount = orderCount, cp_TradeCount = tradeCount,
        cp_RecoveryStatus = [], cp_RecoveryStartTime = None, cp_RecoveryEndTime = None,
        cp_RecoveryError = [], cp_UpdatedAt = 0\<rparr>)\<rparr>"

definition GetCurrentCheckpoint :: "string \<Rightarrow> string \<Rightarrow> CheckpointManager \<Rightarrow> EventOffsetCheckpoint option" where
  "GetCurrentCheckpoint processorName symbol cm = cm_checkpoints cm (colon_key processorName symbol)"

text \<open>
  \<open>FlushCheckpoints\<close> ranges over the map in an order the runtime chooses: \<open>keys\<close> lists its keys in
  that order. The writes happen after the lock is released, one by one, and stamp the checkpoints
  the map points to.
\<close>

fun flush_loop ::
  "'d checkpoint_db \<Rightarrow> int \<Rightarrow> EventOffsetCheckpoint list \<Rightarrow> 'd \<Rightarrow> go_error option \<times> EventOffsetCheckpoint list \<times> 'd" where
  "flush_loop db now [] d = (None, [], d)"
| "flush_loop db now (cp # cps) d =
     (case SaveCheckpoint db now cp d of
        (Some err, cp', d') \<Rightarrow> (Some err, cp' # cps, d')
      | (None, cp', d') \<Rightarrow> let (err, cps', d'') = flush_loop db now cps d' in (err, cp' # cps', d''))"

definition FlushCheckpoints ::
  "'d checkpoint_db \<Rightarrow> int \<Rightarrow> string list \<Rightarrow> CheckpointManager \<Rightarrow> 'd \<Rightarrow> go_error option \<times> CheckpointManager \<times> 'd" where
  "FlushCheckpoints db now keys cm d =
     (let keys' = filter (\<lambda>k. cm_checkpoints cm k \<noteq> None) keys;
          (err, cps, d') = flush_loop db now (List.map_filter (cm_checkpoints cm) keys) d
      in (err, cm\<lparr>cm_checkpoints := cm_checkpoints cm ++ map_of (zip keys' cps)\<rparr>, d'))"

definition MarkRecoveryComplete :: "int \<Rightarrow> RecoveryContext \<Rightarrow> bool \<Rightarrow> string \<Rightarrow> RecoveryContext" where
  "MarkRecoveryComplete now ctx success err =
     SaveRecoveryResult now (ctx\<lparr>rc_RecoverySuccess := success, rc_RecoveryError := err\<rparr>)"

definition ValidateRecovery :: "string \<Rightarrow> string \<Rightarrow> int \<Rightarrow> int \<Rightarrow> int \<Rightarrow> int \<Rightarrow> bool \<times> string" where
  "ValidateRecovery preChecksum postChecksum expectedOrderCount actualOrderCount expectedTradeCount actualTradeCount =
     (if preChecksum \<noteq> postChecksum
      then (False, ''state checksum mismatch: pre='' @ preChecksum @ '', post='' @ postChecksum)
      else if expectedOrderCount \<noteq> actualOrderCount
      then (False, ''order count mismatch: expected='' @ show_int expectedOrderCount @ '', actual='' @ show_int actualOrderCount)
      else if expectedTradeCount \<noteq> actualTradeCount
      then (False, ''trade count mismatch: expected='' @ show_int expectedTradeCount @ '', actual='' @ show_int actualTradeCount)
      else (True, []))"

definition ListPendingRecoveryItems ::
  "'d checkpoint_db \<Rightarrow> 'd \<Rightarrow> go_error + (string \<rightharpoonup> string) list" where
  "ListPendingRecoveryItems db d =
     (case ListPendingRecoveryItems_repo db d of
        Inl err \<Rightarrow> Inl err
      | Inr cps \<Rightarrow> Inr (map (\<lambda>cp. [''processor_name'' \<mapsto> cp_ProcessorName cp, ''symbol'' \<mapsto> cp_Symbol cp]) cps))"

section \<open>The contract of the table\<close>

definition new_row :: "EventOffsetCheckpoint \<Rightarrow> EventOffsetCheckpoint" where
  "new_row cp = (if cp_RecoveryStatus cp = [] then cp\<lparr>cp_RecoveryStatus := ''none''\<rparr> else cp)"

abbreviation cp_key :: "EventOffsetCheckpoint \<Rightarrow> string \<times> string" where
  "cp_key cp \<equiv> (cp_ProcessorName cp, cp_Symbol cp)"

text \<open>What a row says about the progress of its processor.\<close>

definition progress :: "EventOffsetCheckpoint \<Rightarrow> u64 \<times> int \<times> string" where
  "progress cp = (cp_EventSeq cp, cp_KafkaOffset cp, cp_StateChecksum cp)"

definition pending :: "EventOffsetCheckpoint \<Rightarrow> bool" where
  "pending row \<longleftrightarrow> cp_RecoveryStatus row = ''in_progress'' \<or> cp_RecoveryStatus row = ''failed''"

locale checkpoint_table =
  fixes db :: "'d checkpoint_db" and rows :: "'d \<Rightarrow> string \<times> string \<rightharpoonup> EventOffsetCheckpoint"
  assumes upsert_done: "cd_Upsert db cp upd d = (None, d') \<Longrightarrow>
      rows d' = (rows d)(cp_key cp \<mapsto> (case rows d (cp_key cp) of None \<Rightarrow> new_row cp | Some old \<Rightarrow> upd old))"
    and upsert_failed: "cd_Upsert db cp upd d = (Some err, d') \<Longrightarrow> rows d' = rows d"
    and first_row: "cd_First db p s d = Inr r \<Longrightarrow> r = rows d (p, s)"
    and updates_done: "cd_Updates db p s f d = (None, d') \<Longrightarrow>
      rows d' = (case rows d (p, s) of None \<Rightarrow> rows d | Some row \<Rightarrow> (rows d)((p, s) \<mapsto> f row))"
    and updates_failed: "cd_Updates db p s f d = (Some err, d') \<Longrightarrow> rows d' = rows d"
    and where_rows: "cd_Where db P d = Inr cps \<Longrightarrow> set cps = {row \<in> ran (rows d). P row}"
begin

lemma save_done:
  assumes "SaveCheckpoint db now cp d = (None, cp', d')"
  shows "\<exists>row. rows d' = (rows d)(cp_key cp \<mapsto> row) \<and> progress row = progress cp \<and> cp_Timestamp row = now \<and>
    (pending row \<longrightarrow> pending cp \<or> (\<exists>old \<in> ran (rows d). pending old))"
proof (cases "rows d (cp_key cp)")
  case None
  with upsert_done assms show ?thesis
    by (fastforce simp: SaveCheckpoint_def Let_def progress_def new_row_def pending_def split: if_splits prod.splits)
next
  case (Some old)
  then have "old \<in> ran (rows d)" by (auto simp: ran_def)
  with Some upsert_done assms show ?thesis
    by (fastforce simp: SaveCheckpoint_def Let_def progress_def pending_def split: if_splits prod.splits)
qed

lemma save_failed: "SaveCheckpoint db now cp d = (Some err, cp', d') \<Longrightarrow> rows d' = rows d"
  using upsert_failed by (auto simp: SaveCheckpoint_def Let_def split: if_splits prod.splits)

text \<open>After a flush every checkpoint in memory is the row of its key.\<close>

lemma flush_loop_done:
  assumes "flush_loop db now cps d = (None, cps', d')" "distinct (map cp_key cps)"
  shows "(\<forall>cp \<in> set cps. \<exists>row. rows d' (cp_key cp) = Some row \<and> progress row = progress cp \<and> cp_Timestamp row = now) \<and>
    (\<forall>k. k \<notin> cp_key ` set cps \<longrightarrow> rows d' k = rows d k)"
  using assms
proof (induction cps arbitrary: d cps')
  case (Cons cp cps)
  obtain cp1 d1 cps1 where d1: "SaveCheckpoint db now cp d = (None, cp1, d1)" "flush_loop db now cps d1 = (None, cps1, d')"
    using Cons.prems(1) by (auto split: prod.splits option.splits)
  from save_done [OF d1(1)] obtain row where row: "rows d1 = (rows d)(cp_key cp \<mapsto> row)" "progress row = progress cp"
    "cp_Timestamp row = now"
    by auto
  have "cp_key cp \<notin> cp_key ` set cps" using Cons.prems(2) by auto
  with Cons.IH [OF d1(2)] Cons.prems(2) row show ?case by auto
qed simp

lemma recovery_context:
  assumes "GetRecoveryContext db now p s d = Inr ctx"
  shows "case rows d (p, s) of
      None \<Rightarrow> rc_StartEventSeq ctx = 1 \<and> rc_StartKafkaOffset ctx = 0 \<and> rc_PreCrashChecksum ctx = []
    | Some row \<Rightarrow> rc_StartEventSeq ctx = cp_EventSeq row + 1 \<and>
        rc_StartKafkaOffset ctx = i64 (cp_KafkaOffset row + 1) \<and> rc_PreCrashChecksum ctx = cp_StateChecksum row"
  using assms first_row
  by (auto simp: GetRecoveryContext_def GetCheckpointSummary_def GetLatestCheckpoint_def Let_def
      split: sum.splits option.splits)

lemma flush_loop_pending:
  "flush_loop db now cps d = (err, cps', d') \<Longrightarrow> \<forall>cp \<in> set cps. \<not> pending cp \<Longrightarrow>
   \<forall>row \<in> ran (rows d). \<not> pending row \<Longrightarrow> \<forall>row \<in> ran (rows d'). \<not> pending row"
proof (induction cps arbitrary: d cps')
  case (Cons cp cps)
  obtain e1 cp1 d1 where d1: "SaveCheckpoint db now cp d = (e1, cp1, d1)" by (cases "SaveCheckpoint db now cp d")
  have "\<forall>row \<in> ran (rows d1). \<not> pending row"
    using d1 save_done [of now cp d cp1 d1] save_failed [of now cp d _ cp1 d1] Cons.prems(2,3)
    by (cases e1) (auto simp: ran_def split: if_splits, blast+)
  with Cons d1 show ?case by (auto split: option.splits prod.splits)
qed simp

end

section \<open>What the manager keeps\<close>

definition cm_ok :: "CheckpointManager \<Rightarrow> bool" where
  "cm_ok cm \<longleftrightarrow> (\<forall>k cp. cm_checkpoints cm k = Some cp \<longrightarrow>
     k = colon_key (cp_ProcessorName cp) (cp_Symbol cp) \<and> cp_RecoveryStatus cp = [])"

lemma cm_okD:
  "cm_ok cm \<Longrightarrow> cm_checkpoints cm k = Some cp \<Longrightarrow> colon_key (cp_ProcessorName cp) (cp_Symbol cp) = k"
  "cm_ok cm \<Longrightarrow> cm_checkpoints cm k = Some cp \<Longrightarrow> cp_RecoveryStatus cp = []"
  unfolding cm_ok_def by blast+

lemma cm_ok_New: "cm_ok NewCheckpointManager"
  by (simp add: cm_ok_def NewCheckpointManager_def)

lemma cm_ok_Record: "cm_ok cm \<Longrightarrow> cm_ok (RecordEventProcessed now p s q ko pid ck oc tc cm)"
  by (simp add: cm_ok_def RecordEventProcessed_def)

lemma flushed_keys:
  assumes "cm_ok cm" "distinct keys"
  shows "distinct (map cp_key (List.map_filter (cm_checkpoints cm) keys))"
  using assms(2)
proof (induction keys)
  case (Cons k keys)
  have "cp_key cp \<notin> cp_key ` set (List.map_filter (cm_checkpoints cm) keys)" if "cm_checkpoints cm k = Some cp" for cp
  proof
    assume "cp_key cp \<in> cp_key ` set (List.map_filter (cm_checkpoints cm) keys)"
    then obtain j cq where j: "j \<in> set keys" "cm_checkpoints cm j = Some cq" "cp_key cq = cp_key cp"
      by (auto simp: List.map_filter_def)
    have "j = k" using cm_okD(1) [OF assms(1) j(2)] cm_okD(1) [OF assms(1) that] j(3) by simp
    with j(1) show False using Cons.prems by simp
  qed
  with Cons show ?case by (auto simp: List.map_filter_simps split: option.split)
qed (simp add: List.map_filter_simps)

section \<open>A table in memory\<close>

type_synonym table = "((string \<times> string) \<times> EventOffsetCheckpoint) list"

definition table_db :: "table checkpoint_db" where
  "table_db =
     \<lparr>cd_Upsert = (\<lambda>cp upd t. (None, (cp_key cp, case map_of t (cp_key cp) of None \<Rightarrow> new_row cp | Some old \<Rightarrow> upd old) # t)),
      cd_First = (\<lambda>p s t. Inr (map_of t (p, s))),
      cd_Updates = (\<lambda>p s f t. (None, case map_of t (p, s) of None \<Rightarrow> t | Some row \<Rightarrow> ((p, s), f row) # t)),
      cd_Where = (\<lambda>P t. Inr (filter P (List.map_filter (map_of t) (remdups (map fst t)))))\<rparr>"

lemma table_rows: "set (List.map_filter (map_of t) (remdups (map fst t))) = ran (map_of t)"
proof
  show "set (List.map_filter (map_of t) (remdups (map fst t))) \<subseteq> ran (map_of t)"
    by (auto simp: List.map_filter_def intro: ranI)
  show "ran (map_of t) \<subseteq> set (List.map_filter (map_of t) (remdups (map fst t)))"
  proof
    fix row assume "row \<in> ran (map_of t)"
    then obtain k where k: "map_of t k = Some row" by (auto simp: ran_def)
    then have "k \<in> set (map fst t)" by (metis domI dom_map_of_conv_image_fst list.set_map)
    with k show "row \<in> set (List.map_filter (map_of t) (remdups (map fst t)))"
      by (intro in_map_filter [of k]) (simp_all only: set_remdups)
  qed
qed

interpretation tbl: checkpoint_table table_db map_of
proof unfold_locales
  show "set cps = {row \<in> ran (map_of t). P row}" if "cd_Where table_db P t = Inr cps" for P t cps
    using that by (auto simp: table_db_def table_rows)
qed (auto simp: table_db_def split: option.splits)

lemma flush_recover:
  assumes "checkpoint_table db rows" "cm_ok cm" "distinct keys" "set keys = dom (cm_checkpoints cm)"
    and "FlushCheckpoints db now keys cm d = (None, cm', d')" "GetCurrentCheckpoint p s cm = Some cp"
    and "cp_ProcessorName cp = p" "cp_Symbol cp = s" "GetRecoveryContext db now' p s d' = Inr ctx"
  shows "rc_StartEventSeq ctx = cp_EventSeq cp + 1 \<and> rc_StartKafkaOffset ctx = i64 (cp_KafkaOffset cp + 1) \<and>
    rc_PreCrashChecksum ctx = cp_StateChecksum cp"
proof -
  have "cp \<in> set (List.map_filter (cm_checkpoints cm) keys)"
    using assms(4,6) by (force simp: GetCurrentCheckpoint_def List.map_filter_def)
  with checkpoint_table.flush_loop_done [OF assms(1) _ flushed_keys [OF assms(2,3)], of now d _ d'] assms(5,7,8)
  obtain row where "rows d' (p, s) = Some row" "progress row = progress cp"
    by (auto simp: FlushCheckpoints_def Let_def split: prod.splits)
  with checkpoint_table.recovery_context [OF assms(1,9)] show ?thesis by (simp add: progress_def)
qed

section \<open>A flush keeps the keys and succeeds on a database that does\<close>

definition cm_named :: "CheckpointManager \<Rightarrow> bool" where
  "cm_named cm \<longleftrightarrow> (\<forall>cp \<in> ran (cm_checkpoints cm). cp_ProcessorName cp \<noteq> [] \<and> cp_Symbol cp \<noteq> [])"

lemma flush_loop_length: "flush_loop db now cps d = (err, cps', d') \<Longrightarrow> length cps' = length cps"
  by (induction cps arbitrary: d err cps' d') (auto split: prod.splits option.splits)

lemma flush_dom: "FlushCheckpoints db now keys cm d = (err, cm', d') \<Longrightarrow> dom (cm_checkpoints cm') = dom (cm_checkpoints cm)"
proof -
  assume "FlushCheckpoints db now keys cm d = (err, cm', d')"
  then obtain cps where fl: "flush_loop db now (List.map_filter (cm_checkpoints cm) keys) d = (err, cps, d')"
    and cm': "cm_checkpoints cm' = cm_checkpoints cm ++ map_of (zip (filter (\<lambda>k. cm_checkpoints cm k \<noteq> None) keys) cps)"
    by (auto simp: FlushCheckpoints_def Let_def split: prod.splits)
  have "length (filter (\<lambda>k. cm_checkpoints cm k \<noteq> None) keys) = length cps"
    using flush_loop_length [OF fl] by (simp add: List.map_filter_def)
  then have "dom (map_of (zip (filter (\<lambda>k. cm_checkpoints cm k \<noteq> None) keys) cps)) \<subseteq> dom (cm_checkpoints cm)"
    by (auto simp only: dom_map_of_zip set_filter)
  with cm' show ?thesis by auto
qed

lemma flush_never_fails:
  assumes "\<forall>cp upd d. fst (cd_Upsert db cp upd d) = None" "cm_named cm"
  shows "fst (FlushCheckpoints db now keys cm d) = None"
proof -
  have save: "fst (SaveCheckpoint db now cp d) = None" if "cp_ProcessorName cp \<noteq> [] \<and> cp_Symbol cp \<noteq> []" for cp d
    using assms(1) that by (simp add: SaveCheckpoint_def Let_def case_prod_beta)
  have "fst (flush_loop db now cps d) = None" if "\<forall>cp \<in> set cps. cp_ProcessorName cp \<noteq> [] \<and> cp_Symbol cp \<noteq> []" for cps
    using that
  proof (induction cps arbitrary: d)
    case (Cons cp cps)
    then show ?case using save [of cp d] by (auto split: prod.splits option.splits) (metis fst_conv)
  qed simp
  moreover have "\<forall>cp \<in> set (List.map_filter (cm_checkpoints cm) keys). cp_ProcessorName cp \<noteq> [] \<and> cp_Symbol cp \<noteq> []"
    using assms(2) by (auto simp: cm_named_def List.map_filter_def ran_def)
  ultimately show ?thesis by (simp add: FlushCheckpoints_def Let_def case_prod_beta)
qed

lemma cm_named_New: "cm_named NewCheckpointManager"
  by (simp add: cm_named_def NewCheckpointManager_def)

lemma cm_named_Record: "cm_named cm \<Longrightarrow> p \<noteq> [] \<Longrightarrow> s \<noteq> [] \<Longrightarrow> cm_named (RecordEventProcessed now p s q ko pid ck oc tc cm)"
  by (auto simp: cm_named_def RecordEventProcessed_def ran_def)

section \<open>Properties\<close>

definition demo_cm :: CheckpointManager where
  "demo_cm = RecordEventProcessed 7 ''db'' ''BTC'' 41 9 0 ''sum'' 3 2 NewCheckpointManager"

text \<open>
  Flushing checkpoints never makes anything pending: if no row has the status \<open>in_progress\<close> or
  \<open>failed\<close>, then after any flush, complete or not, \<open>ListPendingRecoveryItems\<close> lists nothing.
\<close>

lemma flush_leaves_nothing_pending:
  assumes "checkpoint_table db rows" "cm_ok cm" "\<forall>row \<in> ran (rows d). \<not> pending row"
    and "FlushCheckpoints db now keys cm d = (err, cm', d')" "ListPendingRecoveryItems db d' = Inr listed"
  shows "listed = []"
proof -
  have "\<forall>cp \<in> set (List.map_filter (cm_checkpoints cm) keys). \<not> pending cp"
    using cm_okD(2) [OF assms(2)] by (auto simp: List.map_filter_def pending_def)
  moreover obtain cps' where "flush_loop db now (List.map_filter (cm_checkpoints cm) keys) d = (err, cps', d')"
    using assms(4) by (auto simp: FlushCheckpoints_def Let_def split: prod.splits)
  ultimately have none: "\<forall>row \<in> ran (rows d'). \<not> pending row"
    using checkpoint_table.flush_loop_pending [OF assms(1)] assms(3) by blast
  obtain cps where "cd_Where db pending d' = Inr cps" and listed: "cps = [] \<Longrightarrow> listed = []"
    using assms(5) unfolding pending_def [abs_def]
    by (auto simp: ListPendingRecoveryItems_def ListPendingRecoveryItems_repo_def split: sum.splits)
  then have "set cps = {row \<in> ran (rows d'). pending row}" by (intro checkpoint_table.where_rows [OF assms(1)])
  also have "\<dots> = {}" using none by simp
  finally have "set cps = {}" .
  then show ?thesis using listed by simp
qed

end
