(* ===== verification/EventPipeline.thy ===== *)
theory EventPipeline
  imports EventLog Checkpoint "HOL-Library.Multiset"
begin

text \<open>
  \<^verbatim>\<open>src/biz/service/event_pipeline.go\<close>: an event is appended to the log and handed to every
  processor that has not seen its sequence number yet.

  A dispatch starts one goroutine per processor and waits for all of them. A goroutine's work is
  under the lock of its processor and symbol, and what it writes is keyed by its processor, so a
  dispatch is modelled as the goroutines running one after the other in some order; \<open>sched\<close> is that
  order, and the errors reach the channel in it. Processors act on a world \<open>'w\<close> outside the
  pipeline. A panic in a goroutine ends the program (\<open>Panics\<close>).
\<close>

section \<open>State\<close>

record 'w EventProcessor =
  pr_ProcessorName :: string
  pr_ProcessEvent :: "MatchingEngineEvent \<Rightarrow> 'w \<Rightarrow> go_error option \<times> 'w"

record ('l, 'w) EventPipeline =
  ep_eventLog :: 'l
  ep_processors :: "'w EventProcessor list"
  ep_processorOffsets :: "string \<rightharpoonup> (string \<rightharpoonup> u64)"
  ep_kafkaOffsets :: "string \<rightharpoonup> (string \<rightharpoonup> int)"
  ep_checkpointMgr :: "CheckpointManager option"
  ep_processedEventCount :: int
  ep_failedEventCount :: int
  ep_cancelled :: bool

definition NewEventPipeline :: "'l \<Rightarrow> ('l, 'w) EventPipeline" where
  "NewEventPipeline eventLog =
     \<lparr>ep_eventLog = eventLog, ep_processors = [], ep_processorOffsets = Map.empty,
      ep_kafkaOffsets = Map.empty, ep_checkpointMgr = None, ep_processedEventCount = 0,
      ep_failedEventCount = 0, ep_cancelled = False\<rparr>"

definition SetCheckpointManager :: "CheckpointManager option \<Rightarrow> ('l, 'w) EventPipeline \<Rightarrow> ('l, 'w) EventPipeline" where
  "SetCheckpointManager cm ep = ep\<lparr>ep_checkpointMgr := cm\<rparr>"

definition RegisterProcessor ::
  "'w EventProcessor option \<Rightarrow> ('l, 'w) EventPipeline \<Rightarrow> go_error option \<times> ('l, 'w) EventPipeline" where
  "RegisterProcessor processor ep =
     (case processor of
        None \<Rightarrow> (Some ''processor cannot be nil'', ep)
      | Some p \<Rightarrow> (None, ep\<lparr>ep_processors := ep_processors ep @ [p],
          ep_processorOffsets := (ep_processorOffsets ep)(pr_ProcessorName p \<mapsto> Map.empty),
          ep_kafkaOffsets := (ep_kafkaOffsets ep)(pr_ProcessorName p \<mapsto> Map.empty)\<rparr>))"

definition GetProcessorOffset :: "string \<Rightarrow> string \<Rightarrow> ('l, 'w) EventPipeline \<Rightarrow> u64" where
  "GetProcessorOffset processorName symbol ep =
     (case ep_processorOffsets ep processorName of Some offsets \<Rightarrow> mget 0 offsets symbol | None \<Rightarrow> 0)"

lemma GetProcessorOffset_upd [simp]:
  "GetProcessorOffset n s (ep\<lparr>ep_checkpointMgr := m\<rparr>) = GetProcessorOffset n s ep"
  "GetProcessorOffset n s (ep\<lparr>ep_eventLog := l\<rparr>) = GetProcessorOffset n s ep"
  "GetProcessorOffset n s (ep\<lparr>ep_failedEventCount := k\<rparr>) = GetProcessorOffset n s ep"
  by (simp_all add: GetProcessorOffset_def)

definition GetProcessorKafkaOffset :: "string \<Rightarrow> string \<Rightarrow> ('l, 'w) EventPipeline \<Rightarrow> int" where
  "GetProcessorKafkaOffset processorName symbol ep =
     (case ep_kafkaOffsets ep processorName of Some offsets \<Rightarrow> mget 0 offsets symbol | None \<Rightarrow> - 1)"

definition GetProcessor :: "string \<Rightarrow> ('l, 'w) EventPipeline \<Rightarrow> 'w EventProcessor option" where
  "GetProcessor processorName ep = find (\<lambda>p. pr_ProcessorName p = processorName) (ep_processors ep)"

definition GetProcessors :: "('l, 'w) EventPipeline \<Rightarrow> 'w EventProcessor list" where
  "GetProcessors ep = ep_processors ep"

definition GetCheckpointManager :: "('l, 'w) EventPipeline \<Rightarrow> CheckpointManager option" where
  "GetCheckpointManager ep = ep_checkpointMgr ep"

record PipelineStats =
  ps_ProcessedEvents :: int
  ps_FailedEvents :: int

definition GetPipelineStats :: "('l, 'w) EventPipeline \<Rightarrow> PipelineStats" where
  "GetPipelineStats ep =
     \<lparr>ps_ProcessedEvents = ep_processedEventCount ep, ps_FailedEvents = ep_failedEventCount ep\<rparr>"

definition Shutdown :: "('l, 'w) EventPipeline \<Rightarrow> ('l, 'w) EventPipeline" where
  "Shutdown ep = ep\<lparr>ep_cancelled := True\<rparr>"

section \<open>Dispatching\<close>

text \<open>
  The goroutine of one processor. Writing to a map entry of an unregistered name is a write to a nil
  map, and reading \<open>eventCtx.StateChecksum\<close> without a context a nil dereference: both panic.
\<close>

definition record_kafka ::
  "EventContext option \<Rightarrow> string \<Rightarrow> string \<Rightarrow> ('l, 'w) EventPipeline \<Rightarrow> ('l, 'w) EventPipeline outcome" where
  "record_kafka eventCtx procName symbol ep =
     (case eventCtx of
        None \<Rightarrow> Returns ep
      | Some c \<Rightarrow>
          if ec_Offset c \<ge> 0
          then (case ep_kafkaOffsets ep procName of
                  None \<Rightarrow> Panics
                | Some kafka \<Rightarrow>
                    Returns (ep\<lparr>ep_kafkaOffsets := (ep_kafkaOffsets ep)(procName \<mapsto> kafka(symbol \<mapsto> ec_Offset c))\<rparr>))
          else Returns ep)"

definition record_checkpoint ::
  "int \<Rightarrow> EventContext option \<Rightarrow> string \<Rightarrow> string \<Rightarrow> u64 \<Rightarrow> ('l, 'w) EventPipeline \<Rightarrow> ('l, 'w) EventPipeline outcome" where
  "record_checkpoint now eventCtx procName symbol seq ep =
     (case ep_checkpointMgr ep of
        None \<Rightarrow> Returns ep
      | Some cm \<Rightarrow>
          (case eventCtx of
             None \<Rightarrow> Panics
           | Some c \<Rightarrow> Returns (ep\<lparr>ep_checkpointMgr := Some
               (RecordEventProcessed now procName symbol seq (ec_Offset c) (ec_Partition c)
                  (ec_StateChecksum c) (ec_OrderCount c) (ec_TradeCount c) cm)\<rparr>)))"

definition run_processor ::
  "int \<Rightarrow> MatchingEngineEvent \<Rightarrow> EventContext option \<Rightarrow> 'w EventProcessor \<Rightarrow> ('l, 'w) EventPipeline \<Rightarrow> 'w \<Rightarrow>
   (go_error option \<times> ('l, 'w) EventPipeline \<times> 'w) outcome" where
  "run_processor now event eventCtx p ep w =
     (let procName = pr_ProcessorName p; symbol = Symbol event; seq = EventSeq event;
          lastSeq = GetProcessorOffset procName symbol ep
      in if seq \<le> lastSeq then Returns (None, ep, w)
         else case pr_ProcessEvent p event w of
           (Some err, w') \<Rightarrow>
             Returns (Some (''processor '' @ procName @ '': '' @ err),
               ep\<lparr>ep_failedEventCount := i64 (ep_failedEventCount ep + 1)\<rparr>, w')
         | (None, w') \<Rightarrow>
             (case ep_processorOffsets ep procName of
                None \<Rightarrow> Panics
              | Some offsets \<Rightarrow>
                  (case record_kafka eventCtx procName symbol
                      (ep\<lparr>ep_processorOffsets := (ep_processorOffsets ep)(procName \<mapsto> offsets(symbol \<mapsto> seq))\<rparr>) of
                     Panics \<Rightarrow> Panics
                   | Returns ep2 \<Rightarrow>
                       (case record_checkpoint now eventCtx procName symbol seq ep2 of
                          Panics \<Rightarrow> Panics
                        | Returns ep3 \<Rightarrow>
                            Returns (None, ep3\<lparr>ep_processedEventCount := i64 (ep_processedEventCount ep3 + 1)\<rparr>, w')))))"

fun run_processors ::
  "int \<Rightarrow> MatchingEngineEvent \<Rightarrow> EventContext option \<Rightarrow> 'w EventProcessor list \<Rightarrow> ('l, 'w) EventPipeline \<Rightarrow> 'w \<Rightarrow>
   (go_error list \<times> ('l, 'w) EventPipeline \<times> 'w) outcome" where
  "run_processors now event eventCtx [] ep w = Returns ([], ep, w)"
| "run_processors now event eventCtx (p # ps) ep w =
     (case run_processor now event eventCtx p ep w of
        Panics \<Rightarrow> Panics
      | Returns (err, ep1, w1) \<Rightarrow>
          (case run_processors now event eventCtx ps ep1 w1 of
             Panics \<Rightarrow> Panics
           | Returns (errs, ep2, w2) \<Rightarrow>
               Returns (case err of None \<Rightarrow> errs | Some e \<Rightarrow> e # errs, ep2, w2)))"

definition dispatchToProcessorsInternal ::
  "'d checkpoint_db \<Rightarrow> int \<Rightarrow> ('w EventProcessor list \<Rightarrow> 'w EventProcessor list) \<Rightarrow> string list \<Rightarrow>
   MatchingEngineEvent \<Rightarrow> EventContext option \<Rightarrow> ('l, 'w) EventPipeline \<Rightarrow> 'w \<Rightarrow> 'd \<Rightarrow>
   (go_error option \<times> ('l, 'w) EventPipeline \<times> 'w \<times> 'd) outcome" where
  "dispatchToProcessorsInternal db now sched keys event eventCtx ep w d =
     (case run_processors now event eventCtx (sched (ep_processors ep)) ep w of
        Panics \<Rightarrow> Panics
      | Returns (err # errs, ep', w') \<Rightarrow> Returns (Some err, ep', w', d)
      | Returns ([], ep', w') \<Rightarrow>
          (case ep_checkpointMgr ep' of
             None \<Rightarrow> Returns (None, ep', w', d)
           | Some cm \<Rightarrow>
               (case FlushCheckpoints db now keys cm d of
                  (err, cm', d') \<Rightarrow> Returns (None, ep'\<lparr>ep_checkpointMgr := Some cm'\<rparr>, w', d'))))"

definition dispatchToProcessors ::
  "'d checkpoint_db \<Rightarrow> int \<Rightarrow> ('w EventProcessor list \<Rightarrow> 'w EventProcessor list) \<Rightarrow> string list \<Rightarrow>
   MatchingEngineEvent \<Rightarrow> ('l, 'w) EventPipeline \<Rightarrow> 'w \<Rightarrow> 'd \<Rightarrow>
   (go_error option \<times> ('l, 'w) EventPipeline \<times> 'w \<times> 'd) outcome" where
  "dispatchToProcessors db now sched keys event = dispatchToProcessorsInternal db now sched keys event None"

definition ProcessEvent ::
  "'l event_store_ops \<Rightarrow> 'd checkpoint_db \<Rightarrow> int \<Rightarrow> ('w EventProcessor list \<Rightarrow> 'w EventProcessor list) \<Rightarrow> string list \<Rightarrow>
   MatchingEngineEvent option \<Rightarrow> ('l, 'w) EventPipeline \<Rightarrow> 'w \<Rightarrow> 'd \<Rightarrow>
   (go_error option \<times> ('l, 'w) EventPipeline \<times> 'w \<times> 'd) outcome" where
  "ProcessEvent store db now sched keys event ep w d =
     (case event of
        None \<Rightarrow> Returns (Some ''event cannot be nil'', ep, w, d)
      | Some e \<Rightarrow>
          (case es_AppendEvent store (Some e) (ep_eventLog ep) of
             (Some err, l) \<Rightarrow> Returns (Some err,
               ep\<lparr>ep_eventLog := l, ep_failedEventCount := i64 (ep_failedEventCount ep + 1)\<rparr>, w, d)
           | (None, l) \<Rightarrow> dispatchToProcessorsInternal db now sched keys e None (ep\<lparr>ep_eventLog := l\<rparr>) w d))"

definition ProcessEventWithContext ::
  "'l event_store_ops \<Rightarrow> 'd checkpoint_db \<Rightarrow> int \<Rightarrow> ('w EventProcessor list \<Rightarrow> 'w EventProcessor list) \<Rightarrow> string list \<Rightarrow>
   EventContext option \<Rightarrow> ('l, 'w) EventPipeline \<Rightarrow> 'w \<Rightarrow> 'd \<Rightarrow>
   (go_error option \<times> ('l, 'w) EventPipeline \<times> 'w \<times> 'd) outcome" where
  "ProcessEventWithContext store db now sched keys eventCtx ep w d =
     (case eventCtx of
        None \<Rightarrow> Returns (Some ''event context cannot be nil'', ep, w, d)
      | Some c \<Rightarrow>
          if \<not> IsValid c then Returns (Some ''event context is invalid'', ep, w, d)
          else case es_AppendEvent store (ec_Event c) (ep_eventLog ep) of
            (Some err, l) \<Rightarrow> Returns (Some err,
              ep\<lparr>ep_eventLog := l, ep_failedEventCount := i64 (ep_failedEventCount ep + 1)\<rparr>, w, d)
          | (None, l) \<Rightarrow>
              dispatchToProcessorsInternal db now sched keys (the (ec_Event c)) (Some c) (ep\<lparr>ep_eventLog := l\<rparr>) w d)"

text \<open>Replaying the log; a nil event (unknown type) is dereferenced by the dispatch.\<close>

fun replay_loop ::
  "'d checkpoint_db \<Rightarrow> int \<Rightarrow> ('w EventProcessor list \<Rightarrow> 'w EventProcessor list) \<Rightarrow> string list \<Rightarrow>
   EventEnvelope list \<Rightarrow> ('l, 'w) EventPipeline \<Rightarrow> 'w \<Rightarrow> 'd \<Rightarrow> (('l, 'w) EventPipeline \<times> 'w \<times> 'd) outcome" where
  "replay_loop db now sched keys [] ep w d = Returns (ep, w, d)"
| "replay_loop db now sched keys (envelope # envs) ep w d =
     (case UnmarshalEvent envelope of
        Inl err \<Rightarrow> replay_loop db now sched keys envs ep w d
      | Inr None \<Rightarrow> Panics
      | Inr (Some event) \<Rightarrow>
          (case dispatchToProcessorsInternal db now sched keys event None ep w d of
             Panics \<Rightarrow> Panics
           | Returns (err, ep', w', d') \<Rightarrow> replay_loop db now sched keys envs ep' w' d'))"

definition ProcessEventsFromLog ::
  "'l event_store_ops \<Rightarrow> 'd checkpoint_db \<Rightarrow> int \<Rightarrow> ('w EventProcessor list \<Rightarrow> 'w EventProcessor list) \<Rightarrow> string list \<Rightarrow>
   string \<Rightarrow> u64 \<Rightarrow> int \<Rightarrow> ('l, 'w) EventPipeline \<Rightarrow> 'w \<Rightarrow> 'd \<Rightarrow>
   (go_error option \<times> ('l, 'w) EventPipeline \<times> 'w \<times> 'd) outcome" where
  "ProcessEventsFromLog store db now sched keys symbol startSeq limit ep w d =
     (case es_GetEventsBySymbol store symbol startSeq limit (ep_eventLog ep) of
        Inl err \<Rightarrow> Returns (Some err, ep, w, d)
      | Inr events \<Rightarrow>
          (case replay_loop db now sched keys events ep w d of
             Panics \<Rightarrow> Panics
           | Returns (ep', w', d') \<Rightarrow> Returns (None, ep', w', d')))"

section \<open>One goroutine\<close>

abbreviation pr_offset :: "('l, 'w) EventPipeline \<Rightarrow> string \<Rightarrow> 'w EventProcessor \<Rightarrow> u64" where
  "pr_offset ep s p \<equiv> GetProcessorOffset (pr_ProcessorName p) s ep"

definition behind :: "MatchingEngineEvent \<Rightarrow> ('l, 'w) EventPipeline \<Rightarrow> 'w EventProcessor \<Rightarrow> bool" where
  "behind e ep p \<longleftrightarrow> pr_offset ep (Symbol e) p < EventSeq e"

definition delivered :: "MatchingEngineEvent \<Rightarrow> 'w EventProcessor list \<Rightarrow> 'w \<Rightarrow> 'w" where
  "delivered e ps = fold (\<lambda>p w. snd (pr_ProcessEvent p e w)) ps"

lemma record_kafka_fields:
  "record_kafka c p s ep = Returns ep' \<Longrightarrow>
     ep_processorOffsets ep' = ep_processorOffsets ep \<and> ep_processors ep' = ep_processors ep \<and>
     ep_checkpointMgr ep' = ep_checkpointMgr ep \<and> ep_eventLog ep' = ep_eventLog ep"
  by (auto simp: record_kafka_def split: option.splits if_splits)

lemma record_checkpoint_fields:
  "record_checkpoint now c p s q ep = Returns ep' \<Longrightarrow>
     ep_processorOffsets ep' = ep_processorOffsets ep \<and> ep_processors ep' = ep_processors ep \<and>
     ep_eventLog ep' = ep_eventLog ep \<and> (c = None \<longrightarrow> ep_checkpointMgr ep = None) \<and>
     ep_checkpointMgr ep' = (case (ep_checkpointMgr ep, c) of (Some cm, Some c) \<Rightarrow>
        Some (RecordEventProcessed now p s q (ec_Offset c) (ec_Partition c) (ec_StateChecksum c)
          (ec_OrderCount c) (ec_TradeCount c) cm) | _ \<Rightarrow> ep_checkpointMgr ep)"
  by (auto simp: record_checkpoint_def split: option.splits)

text \<open>A goroutine that returns skipped the event, failed, or processed it and moved its offset.\<close>

lemma run_processor_cases:
  assumes "run_processor now e c p ep w = Returns (err, ep', w')"
  obtains (skipped) "\<not> behind e ep p" "err = None" "ep' = ep" "w' = w"
  | (failed) er where "behind e ep p" "pr_ProcessEvent p e w = (Some er, w')"
      "err = Some (''processor '' @ pr_ProcessorName p @ '': '' @ er)"
      "ep' = ep\<lparr>ep_failedEventCount := i64 (ep_failedEventCount ep + 1)\<rparr>"
  | (processed) offsets where "behind e ep p" "pr_ProcessEvent p e w = (None, w')" "err = None"
      "ep_processorOffsets ep (pr_ProcessorName p) = Some offsets"
      "ep_processorOffsets ep' = (ep_processorOffsets ep)(pr_ProcessorName p \<mapsto> offsets(Symbol e \<mapsto> EventSeq e))"
      "ep_processors ep' = ep_processors ep" "ep_eventLog ep' = ep_eventLog ep"
      "c = None \<longrightarrow> ep_checkpointMgr ep = None"
      "ep_checkpointMgr ep' = (case (ep_checkpointMgr ep, c) of (Some cm, Some c) \<Rightarrow>
        Some (RecordEventProcessed now (pr_ProcessorName p) (Symbol e) (EventSeq e) (ec_Offset c) (ec_Partition c)
          (ec_StateChecksum c) (ec_OrderCount c) (ec_TradeCount c) cm) | _ \<Rightarrow> ep_checkpointMgr ep)"
proof (cases "behind e ep p")
  case False
  then have "Returns (err, ep', w') = Returns (None, ep, w)"
    using assms by (simp add: run_processor_def Let_def behind_def not_less)
  with False show ?thesis by (intro that(1)) simp_all
next
  case True
  then have new: "(EventSeq e \<le> pr_offset ep (Symbol e) p) = False" by (simp add: behind_def)
  obtain r w1 where h: "pr_ProcessEvent p e w = (r, w1)" by (cases "pr_ProcessEvent p e w")
  show ?thesis
  proof (cases r)
    case (Some er)
    with h assms have "Returns (err, ep', w') = Returns (Some (''processor '' @ pr_ProcessorName p @ '': '' @ er),
        ep\<lparr>ep_failedEventCount := i64 (ep_failedEventCount ep + 1)\<rparr>, w1)"
      by (simp add: run_processor_def Let_def new)
    with True h Some show ?thesis by (intro that(2) [of er]) simp_all
  next
    case None
    with h assms obtain offsets ep2 ep3 where o: "ep_processorOffsets ep (pr_ProcessorName p) = Some offsets"
      and k: "record_kafka c (pr_ProcessorName p) (Symbol e) (ep\<lparr>ep_processorOffsets :=
        (ep_processorOffsets ep)(pr_ProcessorName p \<mapsto> offsets(Symbol e \<mapsto> EventSeq e))\<rparr>) = Returns ep2"
      and ck: "record_checkpoint now c (pr_ProcessorName p) (Symbol e) (EventSeq e) ep2 = Returns ep3"
      and r: "err = None" "w1 = w'" "ep' = ep3\<lparr>ep_processedEventCount := i64 (ep_processedEventCount ep3 + 1)\<rparr>"
      by (auto simp: run_processor_def Let_def new split: option.splits outcome.splits)
    note kf = record_kafka_fields [OF k] and cf = record_checkpoint_fields [OF ck]
    show ?thesis
      by (rule that(3) [OF True _ _ o]) (use None h r kf cf in \<open>simp_all split: option.split\<close>)
  qed
qed

lemma pr_offset_upd:
  assumes "ep_processorOffsets ep' = (ep_processorOffsets ep)(n \<mapsto> offsets(s \<mapsto> q))"
    and "ep_processorOffsets ep n = Some offsets"
  shows "GetProcessorOffset m t ep' = (if m = n \<and> t = s then q else GetProcessorOffset m t ep)"
  using assms by (simp add: GetProcessorOffset_def)

section \<open>One dispatch\<close>

definition dispatch_effect ::
  "MatchingEngineEvent \<Rightarrow> 'w EventProcessor list \<Rightarrow> go_error list \<Rightarrow> ('l, 'w) EventPipeline \<Rightarrow> ('l, 'w) EventPipeline \<Rightarrow> bool" where
  "dispatch_effect e ps errs ep ep' \<longleftrightarrow>
     ep_processors ep' = ep_processors ep \<and> ep_eventLog ep' = ep_eventLog ep \<and>
     (\<forall>n t. GetProcessorOffset n t ep' \<noteq> GetProcessorOffset n t ep \<longrightarrow>
        n \<in> pr_ProcessorName ` set ps \<and> t = Symbol e \<and> GetProcessorOffset n t ep < EventSeq e \<and>
        GetProcessorOffset n t ep' = EventSeq e) \<and>
     (errs = [] \<longrightarrow> (\<forall>p \<in> set ps. \<not> behind e ep' p))"

lemma run_processor_effect:
  assumes "run_processor now e c p ep w = Returns (err, ep', w')"
  shows "dispatch_effect e [p] (case err of None \<Rightarrow> [] | Some er \<Rightarrow> [er]) ep ep' \<and>
    w' = (if behind e ep p then snd (pr_ProcessEvent p e w) else w)"
  using assms
proof (cases rule: run_processor_cases)
  case (processed offsets)
  show ?thesis
    using processed by (simp add: dispatch_effect_def behind_def pr_offset_upd [OF processed(5,4)])
qed (simp_all add: dispatch_effect_def behind_def GetProcessorOffset_def)

lemma dispatch_effect_trans:
  assumes "dispatch_effect e [p] errs ep ep1" "dispatch_effect e ps errs' ep1 ep'"
  shows "dispatch_effect e (p # ps) (errs @ errs') ep ep'"
proof -
  have keep: "GetProcessorOffset n t ep1 = GetProcessorOffset n t ep \<or>
      n = pr_ProcessorName p \<and> t = Symbol e \<and> GetProcessorOffset n t ep < EventSeq e \<and>
      GetProcessorOffset n t ep1 = EventSeq e" for n t
    using assms(1) unfolding dispatch_effect_def by auto
  have keep': "GetProcessorOffset n t ep' = GetProcessorOffset n t ep1 \<or>
      n \<in> pr_ProcessorName ` set ps \<and> t = Symbol e \<and> GetProcessorOffset n t ep1 < EventSeq e \<and>
      GetProcessorOffset n t ep' = EventSeq e" for n t
    using assms(2) unfolding dispatch_effect_def by auto
  have "\<forall>n t. GetProcessorOffset n t ep' \<noteq> GetProcessorOffset n t ep \<longrightarrow>
      n \<in> pr_ProcessorName ` set (p # ps) \<and> t = Symbol e \<and> GetProcessorOffset n t ep < EventSeq e \<and>
      GetProcessorOffset n t ep' = EventSeq e"
  proof (intro allI)
    fix n t
    show "GetProcessorOffset n t ep' \<noteq> GetProcessorOffset n t ep \<longrightarrow>
      n \<in> pr_ProcessorName ` set (p # ps) \<and> t = Symbol e \<and> GetProcessorOffset n t ep < EventSeq e \<and>
      GetProcessorOffset n t ep' = EventSeq e"
      using keep [of n t] keep' [of n t] by auto
  qed
  moreover have "\<forall>q \<in> set (p # ps). \<not> behind e ep' q" if "errs @ errs' = []"
  proof -
    have "\<not> behind e ep1 p" "\<forall>q \<in> set ps. \<not> behind e ep' q"
      using assms that unfolding dispatch_effect_def by simp_all
    moreover from this have "\<not> behind e ep' p"
      using keep' [of "pr_ProcessorName p" "Symbol e"] by (auto simp: behind_def)
    ultimately show ?thesis by simp
  qed
  moreover have "ep_processors ep' = ep_processors ep" "ep_eventLog ep' = ep_eventLog ep"
    using assms unfolding dispatch_effect_def by simp_all
  ultimately show ?thesis
    unfolding dispatch_effect_def by blast
qed

lemma behind_other:
  assumes "dispatch_effect e [p] errs ep ep1" "pr_ProcessorName q \<noteq> pr_ProcessorName p"
  shows "behind e ep1 q = behind e ep q"
  using assms unfolding dispatch_effect_def behind_def by (metis empty_iff empty_set image_empty image_insert insertE list.simps(15))

lemma run_processors_effect:
  assumes "run_processors now e c ps ep w = Returns (errs, ep', w')" "distinct (map pr_ProcessorName ps)"
  shows "dispatch_effect e ps errs ep ep' \<and> w' = delivered e (filter (behind e ep) ps) w"
  using assms
proof (induction ps arbitrary: ep w errs)
  case (Cons p ps)
  obtain err ep1 w1 errs' where 1: "run_processor now e c p ep w = Returns (err, ep1, w1)"
    and 2: "run_processors now e c ps ep1 w1 = Returns (errs', ep', w')"
    and errs: "errs = (case err of None \<Rightarrow> [] | Some er \<Rightarrow> [er]) @ errs'"
    using Cons.prems(1) by (auto split: outcome.splits option.splits)
  note e1 = run_processor_effect [OF 1] and e2 = Cons.IH [OF 2]
  have "filter (behind e ep1) ps = filter (behind e ep) ps"
  proof (intro filter_cong refl)
    fix q assume "q \<in> set ps"
    from imageI [OF this, of pr_ProcessorName] have "pr_ProcessorName q \<noteq> pr_ProcessorName p"
      using Cons.prems(2) by auto
    then show "behind e ep1 q = behind e ep q" by (rule behind_other [OF conjunct1 [OF e1]])
  qed
  with e1 e2 Cons.prems(2) dispatch_effect_trans [OF conjunct1 [OF e1], of ps errs' ep'] errs show ?case
    by (simp add: delivered_def)
qed (simp add: dispatch_effect_def delivered_def)

text \<open>A schedule runs each registered processor once.\<close>

definition schedule :: "('w EventProcessor list \<Rightarrow> 'w EventProcessor list) \<Rightarrow> bool" where
  "schedule sched \<longleftrightarrow> (\<forall>ps. mset (sched ps) = mset ps)"

lemma schedule_distinct:
  "schedule sched \<Longrightarrow> distinct (map pr_ProcessorName ps) \<Longrightarrow> distinct (map pr_ProcessorName (sched ps))"
  unfolding schedule_def by (metis mset_eq_imp_distinct_iff mset_map)

lemma schedule_set: "schedule sched \<Longrightarrow> set (sched ps) = set ps"
  unfolding schedule_def by (metis mset_eq_setD)

lemma dispatch_run:
  assumes "dispatchToProcessorsInternal db now sched keys e c ep w d = Returns (r, ep', w', d')"
  obtains (failed) err errs where "run_processors now e c (sched (ep_processors ep)) ep w = Returns (err # errs, ep', w')"
      "r = Some err" "d' = d"
  | (unrecorded) "run_processors now e c (sched (ep_processors ep)) ep w = Returns ([], ep', w')"
      "r = None" "ep_checkpointMgr ep' = None" "d' = d"
  | (flushed) ep1 cm er cm' where "run_processors now e c (sched (ep_processors ep)) ep w = Returns ([], ep1, w')"
      "r = None" "ep_checkpointMgr ep1 = Some cm" "FlushCheckpoints db now keys cm d = (er, cm', d')"
      "ep' = ep1\<lparr>ep_checkpointMgr := Some cm'\<rparr>"
  using assms unfolding dispatchToProcessorsInternal_def
  by (auto split: outcome.splits list.splits option.splits prod.splits)

lemma dispatch_effect_mgr [simp]:
  "dispatch_effect e ps errs ep (ep1\<lparr>ep_checkpointMgr := m\<rparr>) = dispatch_effect e ps errs ep ep1"
  by (simp add: dispatch_effect_def behind_def)

lemma dispatch_effect:
  assumes "dispatchToProcessorsInternal db now sched keys e c ep w d = Returns (None, ep', w', d')"
    and "schedule sched" "distinct (map pr_ProcessorName (ep_processors ep))"
  shows "dispatch_effect e (sched (ep_processors ep)) [] ep ep' \<and>
    w' = delivered e (filter (behind e ep) (sched (ep_processors ep))) w"
  using assms(1)
proof (cases rule: dispatch_run)
  case (flushed ep1 cm er cm')
  with run_processors_effect [OF flushed(1) schedule_distinct [OF assms(2,3)]] show ?thesis
    by simp
qed (use run_processors_effect [OF _ schedule_distinct [OF assms(2,3)]] in simp_all)

lemma run_processors_skip:
  "\<forall>p \<in> set ps. \<not> behind e ep p \<Longrightarrow> run_processors now e c ps ep w = Returns ([], ep, w)"
  by (induction ps) (simp_all add: run_processor_def behind_def not_less Let_def)

section \<open>Without a context\<close>

lemma run_processors_no_context:
  assumes "run_processors now e None ps ep w = Returns (errs, ep', w')" "ep_checkpointMgr ep \<noteq> None"
  shows "ep_processorOffsets ep' = ep_processorOffsets ep \<and> ep_checkpointMgr ep' = ep_checkpointMgr ep \<and>
    ep_processors ep' = ep_processors ep"
  using assms
proof (induction ps arbitrary: ep w errs)
  case (Cons p ps)
  obtain err ep1 w1 errs' where 1: "run_processor now e None p ep w = Returns (err, ep1, w1)"
    and 2: "run_processors now e None ps ep1 w1 = Returns (errs', ep', w')"
    using Cons.prems(1) by (auto split: outcome.splits)
  from 1 have "ep_processorOffsets ep1 = ep_processorOffsets ep \<and> ep_checkpointMgr ep1 = ep_checkpointMgr ep \<and>
      ep_processors ep1 = ep_processors ep"
    by (cases rule: run_processor_cases) (use Cons.prems(2) in simp_all)
  with Cons.IH [OF 2] Cons.prems(2) show ?case by simp
qed simp

lemma run_processors_panics:
  assumes "p \<in> set ps" "behind e ep p" "\<forall>w. fst (pr_ProcessEvent p e w) = None" "ep_checkpointMgr ep \<noteq> None"
  shows "run_processors now e None ps ep w = Panics"
proof -
  have False if "run_processors now e None ps ep w = Returns (errs, ep', w')" for errs ep' w'
    using assms(1,2,4) that
  proof (induction ps arbitrary: ep w errs)
    case (Cons q ps)
    obtain err ep1 w1 errs' where 1: "run_processor now e None q ep w = Returns (err, ep1, w1)"
      and 2: "run_processors now e None ps ep1 w1 = Returns (errs', ep', w')"
      using Cons.prems(4) by (auto split: outcome.splits)
    from 1 have "q \<noteq> p"
      by (cases rule: run_processor_cases) (use Cons.prems(2,3) assms(3) in \<open>auto dest: arg_cong [of _ _ fst]\<close>)
    moreover from 1 have "ep_processorOffsets ep1 = ep_processorOffsets ep \<and> ep_checkpointMgr ep1 = ep_checkpointMgr ep"
      by (cases rule: run_processor_cases) (use Cons.prems(3) in simp_all)
    ultimately show False
      using Cons.IH [OF _ _ _ 2] Cons.prems(1-3) by (auto simp: behind_def GetProcessorOffset_def)
  qed simp
  then show ?thesis by (cases "run_processors now e None ps ep w") auto
qed

lemma dispatch_no_context:
  assumes "dispatchToProcessorsInternal db now sched keys e None ep w d = Returns (r, ep', w', d')" "ep_checkpointMgr ep \<noteq> None"
  shows "ep_processorOffsets ep' = ep_processorOffsets ep \<and> ep_checkpointMgr ep' \<noteq> None"
  using assms(1)
  by (cases rule: dispatch_run) (use run_processors_no_context [OF _ assms(2)] assms(2) in auto)

lemma replay_loop_no_context:
  "replay_loop db now sched keys envs ep w d = Returns (ep', w', d') \<Longrightarrow> ep_checkpointMgr ep \<noteq> None \<Longrightarrow>
   ep_processorOffsets ep' = ep_processorOffsets ep"
proof (induction envs arbitrary: ep w d)
  case (Cons env envs)
  then show ?case
    by (auto split: sum.splits option.splits outcome.splits dest!: dispatch_no_context)
qed simp

section \<open>With a context\<close>

definition pipeline_ok :: "('l, 'w) EventPipeline \<Rightarrow> bool" where
  "pipeline_ok ep \<longleftrightarrow> distinct (map pr_ProcessorName (ep_processors ep)) \<and>
     (\<forall>p \<in> set (ep_processors ep). CHR '':'' \<notin> set (pr_ProcessorName p) \<and> pr_ProcessorName p \<noteq> []) \<and>
     (\<forall>cm. ep_checkpointMgr ep = Some cm \<longrightarrow> cm_ok cm \<and> cm_named cm)"

definition recorded :: "MatchingEngineEvent \<Rightarrow> EventContext \<Rightarrow> ('l, 'w) EventPipeline \<Rightarrow> 'w EventProcessor \<Rightarrow> bool" where
  "recorded e c ep p \<longleftrightarrow> (\<exists>cm cp. ep_checkpointMgr ep = Some cm \<and>
     GetCurrentCheckpoint (pr_ProcessorName p) (Symbol e) cm = Some cp \<and>
     cp_ProcessorName cp = pr_ProcessorName p \<and> cp_Symbol cp = Symbol e \<and> cp_EventSeq cp = EventSeq e \<and>
     cp_KafkaOffset cp = ec_Offset c \<and> cp_StateChecksum cp = ec_StateChecksum c)"

lemma run_processor_recorded:
  assumes "run_processor now e (Some c) p ep w = Returns (None, ep', w')" "ep_checkpointMgr ep = Some cm" "cm_ok cm" "cm_named cm"
    and "pr_ProcessorName p \<noteq> []" "Symbol e \<noteq> []"
  shows "(\<exists>cm'. ep_checkpointMgr ep' = Some cm' \<and> cm_ok cm' \<and> cm_named cm') \<and> (behind e ep p \<longrightarrow> recorded e c ep' p) \<and>
    (\<forall>q. recorded e c ep q \<longrightarrow> CHR '':'' \<notin> set (pr_ProcessorName q) \<longrightarrow> CHR '':'' \<notin> set (pr_ProcessorName p) \<longrightarrow>
      recorded e c ep' q)"
  using assms(1)
proof (cases rule: run_processor_cases)
  case (processed offsets)
  let ?cm = "RecordEventProcessed now (pr_ProcessorName p) (Symbol e) (EventSeq e) (ec_Offset c) (ec_Partition c)
    (ec_StateChecksum c) (ec_OrderCount c) (ec_TradeCount c) cm"
  have cm: "ep_checkpointMgr ep' = Some ?cm" using processed assms(2) by simp
  have "recorded e c ep' p"
    unfolding recorded_def by (simp add: cm RecordEventProcessed_def GetCurrentCheckpoint_def)
  moreover have "recorded e c ep' q"
    if "recorded e c ep q" "CHR '':'' \<notin> set (pr_ProcessorName q)" "CHR '':'' \<notin> set (pr_ProcessorName p)" for q
  proof (cases "pr_ProcessorName q = pr_ProcessorName p")
    case True
    with calculation show ?thesis by (simp add: recorded_def)
  next
    case False
    with that(2,3) have "colon_key (pr_ProcessorName q) (Symbol e) \<noteq> colon_key (pr_ProcessorName p) (Symbol e)"
      by (simp add: fmt_inj)
    with that(1) assms(2) show ?thesis
      by (simp add: recorded_def cm RecordEventProcessed_def GetCurrentCheckpoint_def)
  qed
  ultimately show ?thesis using cm cm_ok_Record [OF assms(3)] cm_named_Record [OF assms(4-6)] by simp
qed (use assms in simp_all)

lemma run_processors_recorded:
  assumes "run_processors now e (Some c) ps ep w = Returns ([], ep', w')" "ep_checkpointMgr ep = Some cm" "cm_ok cm" "cm_named cm"
    and "distinct (map pr_ProcessorName ps)" "\<forall>p \<in> set ps. CHR '':'' \<notin> set (pr_ProcessorName p) \<and> pr_ProcessorName p \<noteq> []"
    and "Symbol e \<noteq> []"
  shows "(\<exists>cm'. ep_checkpointMgr ep' = Some cm' \<and> cm_ok cm' \<and> cm_named cm') \<and>
    (\<forall>q \<in> set ps. behind e ep q \<longrightarrow> recorded e c ep' q) \<and>
    (\<forall>q. recorded e c ep q \<longrightarrow> CHR '':'' \<notin> set (pr_ProcessorName q) \<longrightarrow> recorded e c ep' q)"
  using assms
proof (induction ps arbitrary: ep w cm)
  case (Cons p ps)
  obtain ep1 w1 where 1: "run_processor now e (Some c) p ep w = Returns (None, ep1, w1)"
    and 2: "run_processors now e (Some c) ps ep1 w1 = Returns ([], ep', w')"
    using Cons.prems(1) by (auto split: outcome.splits option.splits)
  have "pr_ProcessorName p \<noteq> []" using Cons.prems(6) by simp
  note r1 = run_processor_recorded [OF 1 Cons.prems(2-4) this Cons.prems(7)]
  then obtain cm1 where cm1: "ep_checkpointMgr ep1 = Some cm1" "cm_ok cm1" "cm_named cm1" by blast
  note r2 = Cons.IH [OF 2 cm1]
  have same: "behind e ep1 q = behind e ep q" if "q \<in> set ps" for q
  proof -
    from imageI [OF that, of pr_ProcessorName] have "pr_ProcessorName q \<noteq> pr_ProcessorName p"
      using Cons.prems(5) by auto
    then show ?thesis by (rule behind_other [OF conjunct1 [OF run_processor_effect [OF 1]]])
  qed
  show ?case
    using r1 r2 Cons.prems(5-7) same by simp
qed simp

section \<open>Replaying the log\<close>

definition accepting :: "MatchingEngineEvent set \<Rightarrow> 'w EventProcessor list \<Rightarrow> bool" where
  "accepting E ps \<longleftrightarrow> (\<forall>p \<in> set ps. \<forall>e \<in> E. \<forall>w. fst (pr_ProcessEvent p e w) = None)"

definition replayable :: "('l, 'w) EventPipeline \<Rightarrow> bool" where
  "replayable ep \<longleftrightarrow> ep_checkpointMgr ep = None \<and> distinct (map pr_ProcessorName (ep_processors ep)) \<and>
     (\<forall>p \<in> set (ep_processors ep). ep_processorOffsets ep (pr_ProcessorName p) \<noteq> None)"

lemma run_processor_accepting:
  assumes "ep_checkpointMgr ep = None" "ep_processorOffsets ep (pr_ProcessorName p) \<noteq> None"
    and "\<forall>w. fst (pr_ProcessEvent p e w) = None"
  shows "\<exists>ep' w'. run_processor now e None p ep w = Returns (None, ep', w') \<and> ep_checkpointMgr ep' = None \<and>
    (\<forall>n. ep_processorOffsets ep n \<noteq> None \<longrightarrow> ep_processorOffsets ep' n \<noteq> None)"
proof -
  obtain w' where "pr_ProcessEvent p e w = (None, w')" using assms(3) by (metis prod.collapse)
  with assms(1,2) show ?thesis
    by (auto simp: run_processor_def Let_def record_kafka_def record_checkpoint_def)
qed

lemma run_processors_accepting:
  assumes "ep_checkpointMgr ep = None" "\<forall>p \<in> set ps. ep_processorOffsets ep (pr_ProcessorName p) \<noteq> None" "accepting {e} ps"
  shows "\<exists>ep' w'. run_processors now e None ps ep w = Returns ([], ep', w') \<and> ep_checkpointMgr ep' = None \<and>
    (\<forall>n. ep_processorOffsets ep n \<noteq> None \<longrightarrow> ep_processorOffsets ep' n \<noteq> None)"
  using assms
proof (induction ps arbitrary: ep w)
  case (Cons p ps)
  have p: "\<forall>w. fst (pr_ProcessEvent p e w) = None" and ps: "accepting {e} ps"
    using Cons.prems(3) by (simp_all add: accepting_def)
  obtain ep1 w1 where 1: "run_processor now e None p ep w = Returns (None, ep1, w1)" "ep_checkpointMgr ep1 = None"
    "\<forall>n. ep_processorOffsets ep n \<noteq> None \<longrightarrow> ep_processorOffsets ep1 n \<noteq> None"
    using run_processor_accepting [OF Cons.prems(1) _ p] Cons.prems(2) by force
  with Cons.IH [OF 1(2) _ ps, of w1] Cons.prems(2) show ?case by fastforce
qed simp

lemma dispatch_accepting:
  assumes "replayable ep" "accepting {e} (ep_processors ep)" "schedule sched"
  shows "\<exists>ep'. dispatchToProcessorsInternal db now sched keys e None ep w d =
      Returns (None, ep', delivered e (filter (behind e ep) (sched (ep_processors ep))) w, d) \<and>
    replayable ep' \<and> dispatch_effect e (sched (ep_processors ep)) [] ep ep'"
proof -
  let ?ps = "sched (ep_processors ep)"
  note same = schedule_set [OF assms(3)]
  have "\<forall>p \<in> set ?ps. ep_processorOffsets ep (pr_ProcessorName p) \<noteq> None" "accepting {e} ?ps"
    "distinct (map pr_ProcessorName ?ps)" "ep_checkpointMgr ep = None"
    using assms(1,2) schedule_distinct [OF assms(3)] by (simp_all add: same replayable_def accepting_def)
  note ps = this
  obtain ep' w' where run: "run_processors now e None ?ps ep w = Returns ([], ep', w')" "ep_checkpointMgr ep' = None"
    "\<forall>n. ep_processorOffsets ep n \<noteq> None \<longrightarrow> ep_processorOffsets ep' n \<noteq> None"
    using run_processors_accepting [OF ps(4,1,2)] by blast
  note eff = run_processors_effect [OF run(1) ps(3)]
  then have "ep_processors ep' = ep_processors ep" by (simp add: dispatch_effect_def)
  with run eff assms(1) show ?thesis
    by (auto simp: dispatchToProcessorsInternal_def replayable_def)
qed

lemma dispatch_effect_mono: "dispatch_effect e ps errs ep ep' \<Longrightarrow> GetProcessorOffset n t ep \<le> GetProcessorOffset n t ep'"
  unfolding dispatch_effect_def by (metis order.refl less_imp_le)

lemma behind_later:
  assumes "dispatch_effect e ps errs ep ep'" "EventSeq e < EventSeq e'" "Symbol e' = Symbol e"
  shows "behind e' ep' = behind e' ep"
proof
  fix q
  have "pr_offset ep' (Symbol e') q = pr_offset ep (Symbol e') q \<or>
      pr_offset ep (Symbol e') q < EventSeq e \<and> pr_offset ep' (Symbol e') q = EventSeq e"
    using assms(1,3) unfolding dispatch_effect_def by metis
  with assms(2) show "behind e' ep' q = behind e' ep q" by (auto simp: behind_def)
qed

lemma replay_loop_delivers:
  assumes "map UnmarshalEvent envs = map (\<lambda>e. Inr (Some e)) es" "replayable ep" "accepting (set es) (ep_processors ep)"
    and "schedule sched" "sorted_wrt (<) (map EventSeq es)" "\<forall>e \<in> set es. Symbol e = s"
  shows "\<exists>ep'. replay_loop db now sched keys envs ep w d =
      Returns (ep', fold (\<lambda>e. delivered e (filter (behind e ep) (sched (ep_processors ep)))) es w, d) \<and>
    (\<forall>p \<in> set (ep_processors ep). \<forall>e \<in> set es. EventSeq e \<le> pr_offset ep' s p) \<and>
    (\<forall>n t. GetProcessorOffset n t ep \<le> GetProcessorOffset n t ep')"
  using assms
proof (induction es arbitrary: envs ep w)
  case (Cons e es)
  obtain env envs' where envs: "envs = env # envs'" "UnmarshalEvent env = Inr (Some e)"
    "map UnmarshalEvent envs' = map (\<lambda>e. Inr (Some e)) es"
    using Cons.prems(1) by (cases envs) auto
  obtain ep1 where 1: "dispatchToProcessorsInternal db now sched keys e None ep w d =
      Returns (None, ep1, delivered e (filter (behind e ep) (sched (ep_processors ep))) w, d)"
    "replayable ep1" "dispatch_effect e (sched (ep_processors ep)) [] ep ep1"
    using dispatch_accepting [OF Cons.prems(2) _ Cons.prems(4)] Cons.prems(3) by (force simp: accepting_def)
  have ps: "ep_processors ep1 = ep_processors ep" using 1(3) by (simp add: dispatch_effect_def)
  have later: "\<forall>e' \<in> set es. behind e' ep1 = behind e' ep"
    using behind_later [OF 1(3)] Cons.prems(5,6) by simp
  obtain ep' where 2: "replay_loop db now sched keys envs' ep1 (delivered e (filter (behind e ep) (sched (ep_processors ep))) w) d =
      Returns (ep', fold (\<lambda>e. delivered e (filter (behind e ep1) (sched (ep_processors ep)))) es
        (delivered e (filter (behind e ep) (sched (ep_processors ep))) w), d)"
    "\<forall>p \<in> set (ep_processors ep). \<forall>e \<in> set es. EventSeq e \<le> pr_offset ep' s p"
    "\<forall>n t. GetProcessorOffset n t ep1 \<le> GetProcessorOffset n t ep'"
    using Cons.IH [OF envs(3) 1(2) _ Cons.prems(4)] Cons.prems(3,5,6) ps by (force simp: accepting_def)
  have mono: "EventSeq e \<le> pr_offset ep' s p" if "p \<in> set (ep_processors ep)" for p
  proof -
    have "EventSeq e \<le> pr_offset ep1 s p"
      using 1(3) that schedule_set [OF Cons.prems(4)] Cons.prems(6) by (auto simp: dispatch_effect_def behind_def not_less)
    with 2(3) show ?thesis by (meson order_trans)
  qed
  have "fold (\<lambda>e. delivered e (filter (behind e ep1) (sched (ep_processors ep)))) es v =
      fold (\<lambda>e. delivered e (filter (behind e ep) (sched (ep_processors ep)))) es v" for v
    using later by (intro fold_cong) simp_all
  moreover have "\<forall>n t. GetProcessorOffset n t ep \<le> GetProcessorOffset n t ep'"
    using dispatch_effect_mono [OF 1(3)] 2(3) by (meson order_trans)
  ultimately show ?case using 1(1) 2(1,2) mono envs(1,2) by simp
qed simp

section \<open>A pipeline for the examples\<close>

definition demo_event :: "u64 \<Rightarrow> MatchingEngineEvent" where
  "demo_event q = OrderCancelled (zero_cancelled\<lparr>oc_Seq := q, oc_SymbolStr := ''BTC''\<rparr>)"

definition demo_processor :: "string \<Rightarrow> (string \<times> u64) list EventProcessor" where
  "demo_processor n = \<lparr>pr_ProcessorName = n, pr_ProcessEvent = (\<lambda>e w. (None, w @ [(n, EventSeq e)]))\<rparr>"

definition demo_pipeline :: "(InMemoryEventLog, (string \<times> u64) list) EventPipeline" where
  "demo_pipeline = snd (RegisterProcessor (Some (demo_processor ''ws''))
     (snd (RegisterProcessor (Some (demo_processor ''db'')) (NewEventPipeline (append_all [demo_event 4, demo_event 5] NewInMemoryEventLog)))))"

definition demo_context :: EventContext where
  "demo_context = \<lparr>ec_Event = Some (demo_event 5), ec_Topic = ''t'', ec_Partition = 0, ec_Offset = 9, ec_Timestamp = 0,
     ec_ProcessedAt = 0, ec_OwnershipEpoch = 0, ec_ProcessingNode = [], ec_StateChecksum = ''sum'', ec_OrderCount = 0, ec_TradeCount = 0\<rparr>"

lemma demo_event_sel [simp]: "Symbol (demo_event q) = ''BTC''" "EventSeq (demo_event q) = q"
  by (simp_all add: demo_event_def)

lemma demo_processor_sel [simp]: "pr_ProcessorName (demo_processor n) = n"
  "pr_ProcessEvent (demo_processor n) e w = (None, w @ [(n, EventSeq e)])"
  by (simp_all add: demo_processor_def)

lemma demo_pipeline_sel [simp]:
  "ep_processors demo_pipeline = [demo_processor ''db'', demo_processor ''ws'']"
  "ep_checkpointMgr demo_pipeline = None" "ep_eventLog demo_pipeline = append_all [demo_event 4, demo_event 5] NewInMemoryEventLog"
  "ep_processorOffsets demo_pipeline = [''db'' \<mapsto> Map.empty, ''ws'' \<mapsto> Map.empty]"
  "ep_kafkaOffsets demo_pipeline = [''db'' \<mapsto> Map.empty, ''ws'' \<mapsto> Map.empty]"
  "ep_failedEventCount demo_pipeline = 0" "ep_processedEventCount demo_pipeline = 0"
  by (simp_all add: demo_pipeline_def RegisterProcessor_def NewEventPipeline_def)

lemma tbl_writes: "\<forall>cp upd d. fst (cd_Upsert table_db cp upd d) = None"
  by (simp add: table_db_def)

lemma schedule_rev [simp]: "schedule rev"
  by (simp add: schedule_def)

lemma demo_replayable: "replayable demo_pipeline" "accepting E (ep_processors demo_pipeline)"
  by (simp_all add: replayable_def accepting_def)

section \<open>Properties\<close>

text \<open>
  C27. Every event is delivered exactly once: a dispatch that reports no error has run exactly the
  processors whose offset for the symbol was below the event's number, in the order of the schedule,
  and brought every processor to at least that number; dispatching this event again, or any event of
  the symbol with a number that is not larger, calls no processor and changes nothing of the pipeline
  but the time stamps of the checkpoints it flushes again.
\<close>

theorem dispatch_delivers_once:
  assumes "schedule sched" "schedule sched'" "distinct (map pr_ProcessorName (ep_processors ep))"
    and "dispatchToProcessorsInternal db now sched keys e c ep w d = Returns (None, ep', w', d')"
    and "Symbol e' = Symbol e" "EventSeq e' \<le> EventSeq e"
  shows "w' = delivered e (filter (behind e ep) (sched (ep_processors ep))) w \<and>
    (\<forall>p \<in> set (ep_processors ep). EventSeq e \<le> GetProcessorOffset (pr_ProcessorName p) (Symbol e) ep') \<and>
    (\<exists>mgr d''. dispatchToProcessorsInternal db now' sched' keys' e' c' ep' w' d' =
       Returns (None, ep'\<lparr>ep_checkpointMgr := mgr\<rparr>, w', d''))"
proof -
  note eff = dispatch_effect [OF assms(4,1,3)]
  then have caught: "\<forall>p \<in> set (ep_processors ep). \<not> behind e ep' p" and ps: "ep_processors ep' = ep_processors ep"
    using schedule_set [OF assms(1)] unfolding dispatch_effect_def by simp_all
  then have "\<forall>p \<in> set (sched' (ep_processors ep')). \<not> behind e' ep' p"
    using assms(5,6) schedule_set [OF assms(2)] by (auto simp: behind_def not_less)
  note skip = run_processors_skip [OF this, of now' c' w']
  have "\<exists>mgr d''. dispatchToProcessorsInternal db now' sched' keys' e' c' ep' w' d' =
      Returns (None, ep'\<lparr>ep_checkpointMgr := mgr\<rparr>, w', d'')"
  proof (cases "ep_checkpointMgr ep'")
    case None
    then have "ep'\<lparr>ep_checkpointMgr := None\<rparr> = ep'" by (cases ep') simp
    with None skip show ?thesis
      by (intro exI [of _ None] exI [of _ d']) (simp add: dispatchToProcessorsInternal_def)
  next
    case (Some cm)
    with skip show ?thesis by (auto simp: dispatchToProcessorsInternal_def split: prod.splits)
  qed
  with eff caught show ?thesis by (simp add: behind_def not_less)
qed

theorem dispatch_delivers_once_witness:
  "\<exists>ep' mgr d''. dispatchToProcessorsInternal table_db 1 rev [] (demo_event 5) None demo_pipeline [] [] =
       Returns (None, ep', [(''ws'', 5), (''db'', 5)], []) \<and>
     dispatchToProcessorsInternal table_db 2 rev [] (demo_event 4) None ep' [(''ws'', 5), (''db'', 5)] [] =
       Returns (None, ep'\<lparr>ep_checkpointMgr := mgr\<rparr>, [(''ws'', 5), (''db'', 5)], d'')"
proof -
  have new: "behind (demo_event 5) demo_pipeline (demo_processor n)" for n
    by (simp add: behind_def GetProcessorOffset_def)
  obtain ep' where "dispatchToProcessorsInternal table_db 1 rev [] (demo_event 5) None demo_pipeline [] [] =
       Returns (None, ep', delivered (demo_event 5) (filter (behind (demo_event 5) demo_pipeline) (rev (ep_processors demo_pipeline))) [], [])"
    using dispatch_accepting [OF demo_replayable schedule_rev, where e = "demo_event 5" and db = table_db and now = 1 and keys = "[]" and w = "[]" and d = "[]"] by auto
  moreover have "delivered (demo_event 5) (filter (behind (demo_event 5) demo_pipeline) (rev (ep_processors demo_pipeline))) [] =
      [(''ws'', 5), (''db'', 5)]"
    using new by (simp add: delivered_def)
  ultimately have d: "dispatchToProcessorsInternal table_db 1 rev [] (demo_event 5) None demo_pipeline [] [] =
      Returns (None, ep', [(''ws'', 5), (''db'', 5)], [])"
    by simp
  have "distinct (map pr_ProcessorName (ep_processors demo_pipeline))" by simp
  note once = dispatch_delivers_once [OF schedule_rev schedule_rev this d]
  have "\<exists>mgr d''. dispatchToProcessorsInternal table_db 2 rev [] (demo_event 4) None ep' [(''ws'', 5), (''db'', 5)] [] =
      Returns (None, ep'\<lparr>ep_checkpointMgr := mgr\<rparr>, [(''ws'', 5), (''db'', 5)], d'')"
    by (rule conjunct2 [OF conjunct2 [OF once]]) simp_all
  with d show ?thesis by blast
qed

text \<open>
  C29. Without an event context and with a checkpoint manager, as the program runs its pipeline, no event is
  ever processed to the end. If an event is appended to the log and a processor that is behind it accepts it,
  \<open>ProcessEvent\<close> panics. And if \<open>ProcessEvent\<close> or \<open>ProcessEventsFromLog\<close> returns, no processor's offset has moved.
\<close>

theorem no_context_no_progress:
  assumes "ep_checkpointMgr ep \<noteq> None"
  shows "(es_AppendEvent store (Some e) (ep_eventLog ep) = (None, l) \<and> p \<in> set (sched (ep_processors ep)) \<and> behind e ep p \<and>
      (\<forall>w. fst (pr_ProcessEvent p e w) = None) \<longrightarrow> ProcessEvent store db now sched keys (Some e) ep w d = Panics) \<and>
    (ProcessEvent store db now sched keys ev ep w d = Returns (r, ep', w', d') \<or>
      ProcessEventsFromLog store db now sched keys s n limit ep w d = Returns (r, ep', w', d') \<longrightarrow>
      ep_processorOffsets ep' = ep_processorOffsets ep)"
proof (intro conjI impI)
  assume acc: "es_AppendEvent store (Some e) (ep_eventLog ep) = (None, l) \<and> p \<in> set (sched (ep_processors ep)) \<and> behind e ep p \<and>
      (\<forall>w. fst (pr_ProcessEvent p e w) = None)"
  then have "behind e (ep\<lparr>ep_eventLog := l\<rparr>) p" by (simp add: behind_def GetProcessorOffset_def)
  with acc assms run_processors_panics [of p "sched (ep_processors ep)" e "ep\<lparr>ep_eventLog := l\<rparr>" now w]
  show "ProcessEvent store db now sched keys (Some e) ep w d = Panics"
    by (simp add: ProcessEvent_def dispatchToProcessorsInternal_def)
next
  assume "ProcessEvent store db now sched keys ev ep w d = Returns (r, ep', w', d') \<or>
      ProcessEventsFromLog store db now sched keys s n limit ep w d = Returns (r, ep', w', d')"
  then show "ep_processorOffsets ep' = ep_processorOffsets ep"
  proof
    assume "ProcessEvent store db now sched keys ev ep w d = Returns (r, ep', w', d')"
    then show ?thesis
      using assms(1) by (auto simp: ProcessEvent_def split: option.splits prod.splits dest!: dispatch_no_context)
  next
    assume "ProcessEventsFromLog store db now sched keys s n limit ep w d = Returns (r, ep', w', d')"
    then show ?thesis
      using assms(1)
      by (auto simp: ProcessEventsFromLog_def split: sum.splits outcome.splits dest: replay_loop_no_context)
  qed
qed

text \<open>The example's pipeline accepts every event; a second one has a processor that refuses them all.\<close>

definition demo_refusing :: "(InMemoryEventLog, (string \<times> u64) list) EventPipeline" where
  "demo_refusing = demo_pipeline\<lparr>ep_checkpointMgr := Some demo_cm,
     ep_processors := [\<lparr>pr_ProcessorName = ''db'', pr_ProcessEvent = (\<lambda>e w. (Some ''refused'', w))\<rparr>]\<rparr>"

theorem no_context_no_progress_witness:
  "ProcessEvent memory_store table_db 1 rev [] (Some (demo_event 6)) (demo_pipeline\<lparr>ep_checkpointMgr := Some demo_cm\<rparr>) [] [] = Panics \<and>
   (\<exists>ep'. ProcessEvent memory_store table_db 1 rev [] (Some (demo_event 6)) demo_refusing [] [] =
      Returns (Some ''processor db: refused'', ep', [], []) \<and>
    ep_processorOffsets ep' = [''db'' \<mapsto> Map.empty, ''ws'' \<mapsto> Map.empty])"
proof
  let ?ep = "demo_pipeline\<lparr>ep_checkpointMgr := Some demo_cm\<rparr>"
  have "es_AppendEvent memory_store (Some (demo_event 6)) (ep_eventLog ?ep) =
      (None, snd (AppendEvent (Some (demo_event 6)) (ep_eventLog ?ep)))" "behind (demo_event 6) ?ep (demo_processor ''db'')"
    by (simp_all add: memory_store_def AppendEvent_def Let_def behind_def GetProcessorOffset_def)
  moreover have "ep_checkpointMgr ?ep \<noteq> None" by simp
  note conjunct1 [OF no_context_no_progress [where ep = ?ep and e = "demo_event 6" and p = "demo_processor ''db''" and sched = rev, OF this],
      rule_format]
  ultimately show "ProcessEvent memory_store table_db 1 rev [] (Some (demo_event 6)) ?ep [] [] = Panics" by simp
  obtain ep' where r: "ProcessEvent memory_store table_db 1 rev [] (Some (demo_event 6)) demo_refusing [] [] =
      Returns (Some ''processor db: refused'', ep', [], [])"
    by (simp add: demo_refusing_def ProcessEvent_def memory_store_def AppendEvent_def Let_def dispatchToProcessorsInternal_def
        run_processor_def GetProcessorOffset_def)
  have "ep_checkpointMgr demo_refusing \<noteq> None" "ep_processorOffsets demo_refusing = [''db'' \<mapsto> Map.empty, ''ws'' \<mapsto> Map.empty]"
    by (simp_all add: demo_refusing_def)
  with no_context_no_progress [of demo_refusing] r
  show "\<exists>ep'. ProcessEvent memory_store table_db 1 rev [] (Some (demo_event 6)) demo_refusing [] [] =
      Returns (Some ''processor db: refused'', ep', [], []) \<and>
    ep_processorOffsets ep' = [''db'' \<mapsto> Map.empty, ''ws'' \<mapsto> Map.empty]" by metis
qed

text \<open>
  C28. A checkpoint is where recovery resumes: when \<open>ProcessEventWithContext\<close> reports no error and the
  database takes the writes, the recovery context of each processor that had not seen the event
  starts at the next event number and at the next Kafka offset, with the checksum of the context.
\<close>

theorem context_then_recover:
  assumes "checkpoint_table db rows" "\<forall>cp upd d. fst (cd_Upsert db cp upd d) = None"
    and "schedule sched" "pipeline_ok ep" "ep_checkpointMgr ep \<noteq> None"
    and "ProcessEventWithContext store db now sched keys (Some c) ep w d = Returns (None, ep', w', d')"
    and "\<forall>cm. ep_checkpointMgr ep' = Some cm \<longrightarrow> distinct keys \<and> set keys = dom (cm_checkpoints cm)"
    and "ec_Event c = Some e" "Symbol e \<noteq> []" "p \<in> set (ep_processors ep)" "behind e ep p"
    and "GetRecoveryContext db now' (pr_ProcessorName p) (Symbol e) d' = Inr ctx"
  shows "rc_StartEventSeq ctx = EventSeq e + 1 \<and> rc_StartKafkaOffset ctx = i64 (ec_Offset c + 1) \<and>
    rc_PreCrashChecksum ctx = ec_StateChecksum c"
proof -
  from assms(6,8) obtain l where disp: "dispatchToProcessorsInternal db now sched keys e (Some c) (ep\<lparr>ep_eventLog := l\<rparr>) w d =
      Returns (None, ep', w', d')"
    by (auto simp: ProcessEventWithContext_def split: if_splits prod.splits option.splits)
  obtain cm where cm: "ep_checkpointMgr (ep\<lparr>ep_eventLog := l\<rparr>) = Some cm" "cm_ok cm" "cm_named cm"
    using assms(4,5) by (auto simp: pipeline_ok_def)
  have ps: "distinct (map pr_ProcessorName (sched (ep_processors ep)))"
    "\<forall>p \<in> set (sched (ep_processors ep)). CHR '':'' \<notin> set (pr_ProcessorName p) \<and> pr_ProcessorName p \<noteq> []"
    using assms(4) schedule_distinct [OF assms(3)] schedule_set [OF assms(3)] by (simp_all add: pipeline_ok_def)
  have new: "behind e (ep\<lparr>ep_eventLog := l\<rparr>) p" using assms(11) by (simp add: behind_def GetProcessorOffset_def)
  from disp show ?thesis
  proof (cases rule: dispatch_run)
    case unrecorded
    with run_processors_recorded [of now e c "sched (ep_processors ep)", OF _ cm ps assms(9)] show ?thesis by fastforce
  next
    case (flushed ep1 cm1 er cm2)
    with run_processors_recorded [of now e c "sched (ep_processors ep)", OF _ cm ps assms(9)] new assms(10) schedule_set [OF assms(3)]
    have ok: "cm_ok cm1" "cm_named cm1" "recorded e c ep1 p" by fastforce+
    then obtain cp where cp: "GetCurrentCheckpoint (pr_ProcessorName p) (Symbol e) cm1 = Some cp" "cp_ProcessorName cp = pr_ProcessorName p"
      "cp_Symbol cp = Symbol e" "cp_EventSeq cp = EventSeq e" "cp_KafkaOffset cp = ec_Offset c" "cp_StateChecksum cp = ec_StateChecksum c"
      using flushed(3) unfolding recorded_def by auto
    have fl: "FlushCheckpoints db now keys cm1 d = (None, cm2, d')"
      using flush_never_fails [OF assms(2) ok(2), of now keys d] flushed(4) by simp
    from flush_recover [OF assms(1) ok(1) _ _ fl cp(1-3) assms(12)] assms(7) flushed(5) flush_dom [OF fl] cp(4-6)
    show ?thesis by simp
  qed simp
qed

theorem context_then_recover_witness:
  "\<exists>ep' w' d' ctx. ProcessEventWithContext memory_store table_db 1 rev [''ws:BTC'', ''db:BTC''] (Some demo_context)
       (demo_pipeline\<lparr>ep_checkpointMgr := Some NewCheckpointManager\<rparr>) [] [] = Returns (None, ep', w', d') \<and>
     GetRecoveryContext table_db 2 ''db'' ''BTC'' d' = Inr ctx \<and> rc_StartEventSeq ctx = 6 \<and> rc_StartKafkaOffset ctx = 10"
proof -
  let ?ep = "demo_pipeline\<lparr>ep_checkpointMgr := Some NewCheckpointManager\<rparr>" and ?keys = "[''ws:BTC'', ''db:BTC'']"
  obtain ep' w' d' cm where run: "ProcessEventWithContext memory_store table_db 1 rev ?keys (Some demo_context) ?ep [] [] =
      Returns (None, ep', w', d')"
    and cm: "ep_checkpointMgr ep' = Some cm" "dom (cm_checkpoints cm) = set ?keys"
    by (simp add: ProcessEventWithContext_def IsValid_def demo_context_def memory_store_def AppendEvent_def Let_def
        dispatchToProcessorsInternal_def run_processor_def record_kafka_def record_checkpoint_def GetProcessorOffset_def
        RecordEventProcessed_def NewCheckpointManager_def colon_key_def FlushCheckpoints_def List.map_filter_simps
        SaveCheckpoint_def table_db_def insert_commute)
  obtain ctx where ctx: "GetRecoveryContext table_db 2 ''db'' ''BTC'' d' = Inr ctx"
    by (cases "map_of d' (''db'', ''BTC'')")
      (simp_all add: GetRecoveryContext_def GetCheckpointSummary_def GetLatestCheckpoint_def table_db_def Let_def)
  have ok: "pipeline_ok ?ep" by (simp add: pipeline_ok_def cm_ok_New cm_named_New)
  have "behind (demo_event 5) ?ep (demo_processor ''db'')"
    by (simp add: behind_def GetProcessorOffset_def)
  then show ?thesis
    using context_then_recover [OF tbl.checkpoint_table_axioms tbl_writes schedule_rev ok _ run, of "demo_event 5" "demo_processor ''db''" 2 ctx]
      run cm ctx by (auto simp: demo_context_def in_i64_def i64_id)
qed

text \<open>
  What a replay does on a pipeline without a checkpoint manager; with one, as the program sets it, it
  panics instead. The log has to return what was appended to it, as the log in memory does and the one in
  Postgres does not, its events are encoded ones whose numbers increase for the symbol, and the registered
  processors accept them. Then \<open>ProcessEventsFromLog\<close> returns, without an error or a panic, and has handed
  each processor, event by event in the order of the log, exactly the events read whose number is above
  the offset the processor started with; afterwards every processor is at least at the last one read.
\<close>

lemma replay_catches_up:
  assumes "event_store store ok hist" "ok (ep_eventLog ep)" "hist (ep_eventLog ep) = map MarshalEvent es"
    and "\<forall>e \<in> set es. event_ok e" "es_GetEventsBySymbol store s n limit (ep_eventLog ep) = Inr envs"
    and "sorted_wrt (<) (map EventSeq (filter (\<lambda>e. Symbol e = s) es))"
    and "replayable ep" "accepting (set es) (ep_processors ep)" "schedule sched"
    and "evs = limited limit (filter (\<lambda>e. Symbol e = s \<and> EventSeq e \<ge> n) es)"
  shows "\<exists>ep'. ProcessEventsFromLog store db now sched keys s n limit ep w d =
      Returns (None, ep', fold (\<lambda>e. delivered e (filter (behind e ep) (sched (ep_processors ep)))) evs w, d) \<and>
    (\<forall>p \<in> set (ep_processors ep). \<forall>e \<in> set evs. EventSeq e \<le> GetProcessorOffset (pr_ProcessorName p) s ep')"
proof -
  have "map UnmarshalEvent envs = map (\<lambda>e. Inr (Some e)) evs"
    unfolding assms(10) by (rule event_store.replay [OF assms(1-5)])
  moreover have sub: "set evs \<subseteq> set es" "\<forall>e \<in> set evs. Symbol e = s"
    unfolding assms(10) limited_def by (auto dest: in_set_takeD)
  then have "accepting (set evs) (ep_processors ep)" using assms(8) by (auto simp: accepting_def)
  moreover have "sorted_wrt (<) (map EventSeq evs)"
  proof -
    have "evs = limited limit (filter (\<lambda>e. EventSeq e \<ge> n) (filter (\<lambda>e. Symbol e = s) es))"
      unfolding assms(10) by (simp add: conj_commute)
    moreover have "sorted_wrt (\<lambda>x y. EventSeq x < EventSeq y) (filter (\<lambda>e. EventSeq e \<ge> n) (filter (\<lambda>e. Symbol e = s) es))"
      using assms(6) unfolding sorted_wrt_map by (rule sorted_wrt_filter)
    ultimately show ?thesis unfolding sorted_wrt_map limited_def by (simp add: sorted_wrt_take)
  qed
  ultimately obtain ep' where "replay_loop db now sched keys envs ep w d =
      Returns (ep', fold (\<lambda>e. delivered e (filter (behind e ep) (sched (ep_processors ep)))) evs w, d)"
    "\<forall>p \<in> set (ep_processors ep). \<forall>e \<in> set evs. EventSeq e \<le> pr_offset ep' s p"
    using replay_loop_delivers [OF _ assms(7) _ assms(9) _ sub(2), of envs db now keys w d] by auto
  then show ?thesis using assms(5) by (simp add: ProcessEventsFromLog_def)
qed

end
