(* ===== verification/TransferCoordinator.thy ===== *)
theory TransferCoordinator
  imports Prelude
begin

text \<open>
  \<^verbatim>\<open>src/biz/model/transfer_coordinator.go\<close> and \<^verbatim>\<open>src/biz/service/db_transfer_coordinator.go\<close>:
  the interface through which the ownership state machine records a migration, and the
  implementation that keeps the records in a table. gorm and the database are the parameter
  \<open>transfer_db\<close>; its locale states what the coordinator needs of them, and gives the contract of the
  interface.
\<close>

section \<open>The interface\<close>

type_synonym TransferStatus = string

abbreviation TransferPending :: TransferStatus where "TransferPending \<equiv> ''pending''"
abbreviation TransferInProgress :: TransferStatus where "TransferInProgress \<equiv> ''in_progress''"
abbreviation TransferCompleted :: TransferStatus where "TransferCompleted \<equiv> ''completed''"
abbreviation TransferFailed :: TransferStatus where "TransferFailed \<equiv> ''failed''"

record OwnershipTransfer =
  ot_ID :: nat
  ot_PartitionID :: string
  ot_FromOwner :: string
  ot_ToOwner :: string
  ot_CheckpointSeq :: int
  ot_Status :: TransferStatus
  ot_Attempts :: int
  ot_LastError :: string
  ot_CreatedAt :: int
  ot_UpdatedAt :: int

text \<open>The interface, for a coordinator whose state is of type \<open>'c\<close>.\<close>

record 'c TransferCoordinator =
  tc_InitiateTransfer :: "string \<Rightarrow> string \<Rightarrow> string \<Rightarrow> int \<Rightarrow> 'c \<Rightarrow> (go_error + string) \<times> 'c"
  tc_IsTargetReady :: "string \<Rightarrow> 'c \<Rightarrow> go_error + bool"
  tc_GetTransfer :: "string \<Rightarrow> 'c \<Rightarrow> go_error + OwnershipTransfer"
  tc_MarkTransferCompleted :: "string \<Rightarrow> 'c \<Rightarrow> go_error option \<times> 'c"

text \<open>What a coordinator promises about its records; \<open>recs\<close> reads them by transfer id.\<close>

locale transfer_coordinator =
  fixes tc :: "'c TransferCoordinator" and recs :: "'c \<Rightarrow> string \<rightharpoonup> OwnershipTransfer"
  assumes initiate_done: "tc_InitiateTransfer tc p f t q c = (Inr tid, c') \<Longrightarrow>
      tid \<noteq> [] \<and> recs c tid = None \<and> (\<exists>tr. recs c' = (recs c)(tid \<mapsto> tr) \<and> ot_Status tr = TransferPending \<and>
        ot_PartitionID tr = p \<and> ot_FromOwner tr = f \<and> ot_ToOwner tr = t \<and> ot_CheckpointSeq tr = q)"
    and initiate_failed: "tc_InitiateTransfer tc p f t q c = (Inl err, c') \<Longrightarrow> recs c' = recs c"
    and ready: "recs c tid = Some tr \<Longrightarrow> tc_IsTargetReady tc tid c = Inr b \<Longrightarrow> b \<longleftrightarrow> ot_Status tr = TransferCompleted"
    and completed: "recs c tid = Some tr \<Longrightarrow> tc_MarkTransferCompleted tc tid c = (None, c') \<Longrightarrow>
      (\<exists>u. recs c' = (recs c)(tid \<mapsto> tr\<lparr>ot_Status := TransferCompleted, ot_UpdatedAt := u\<rparr>))"
    and got: "recs c tid = Some tr \<Longrightarrow> tc_GetTransfer tc tid c = Inr tr' \<Longrightarrow> tr' = tr"
begin

text \<open>A new record is not ready, and is once it has been marked completed.\<close>

lemma ready_iff_marked:
  assumes "tc_InitiateTransfer tc p f t q c = (Inr tid, c1)"
  shows "tc_IsTargetReady tc tid c1 = Inr b \<Longrightarrow> \<not> b"
    and "tc_MarkTransferCompleted tc tid c1 = (None, c2) \<Longrightarrow> tc_IsTargetReady tc tid c2 = Inr b \<Longrightarrow> b"
proof -
  obtain tr where tr: "recs c1 tid = Some tr" "ot_Status tr = TransferPending"
    using initiate_done [OF assms] by auto
  show "\<not> b" if "tc_IsTargetReady tc tid c1 = Inr b"
    using ready [OF tr(1) that] tr(2) by simp
  show b if m: "tc_MarkTransferCompleted tc tid c1 = (None, c2)" and r: "tc_IsTargetReady tc tid c2 = Inr b"
    using completed [OF tr(1) m] ready [OF _ r] by auto
qed

end

section \<open>The coordinator on a database\<close>

record 'd transfer_db =
  td_Create :: "OwnershipTransfer \<Rightarrow> 'd \<Rightarrow> go_error option \<times> OwnershipTransfer \<times> 'd"
  td_First :: "nat \<Rightarrow> 'd \<Rightarrow> go_error + OwnershipTransfer"
  td_Save :: "OwnershipTransfer \<Rightarrow> 'd \<Rightarrow> go_error option \<times> 'd"

text \<open>
  \<^verbatim>\<open>fmt.Sscanf(s, "%d", &id)\<close> into a \<open>uint\<close>: white space is skipped, a newline is an error, then
  the longest run of digits is read; what follows it is left alone.
\<close>

definition is_blank :: "char \<Rightarrow> bool" where
  "is_blank c \<longleftrightarrow> of_char c \<in> {9, 11, 12, 13, 32 :: nat}"

definition sscanf_uint :: "string \<Rightarrow> go_error + nat" where
  "sscanf_uint s =
     (let rest = dropWhile is_blank s; ds = takeWhile (\<lambda>c. read_digit c \<noteq> None) rest
      in if rest = [] then Inl ''EOF''
         else if of_char (hd rest) = (10 :: nat) then Inl ''unexpected newline''
         else if ds = [] then Inl ''expected integer''
         else if digits_val ds \<ge> 2 ^ 64 then Inl (''strconv.ParseUint: parsing '' @ [CHR 0x22] @ ds @ [CHR 0x22] @ '': value out of range'')
         else Inr (digits_val ds))"

definition InitiateTransfer ::
  "'d transfer_db \<Rightarrow> string \<Rightarrow> string \<Rightarrow> string \<Rightarrow> int \<Rightarrow> 'd \<Rightarrow> (go_error + string) \<times> 'd" where
  "InitiateTransfer db partitionID fromOwner toOwner checkpointSeq d =
     (let tr = \<lparr>ot_ID = 0, ot_PartitionID = partitionID, ot_FromOwner = fromOwner, ot_ToOwner = toOwner,
                ot_CheckpointSeq = checkpointSeq, ot_Status = TransferPending, ot_Attempts = 0,
                ot_LastError = [], ot_CreatedAt = 0, ot_UpdatedAt = 0\<rparr>
      in case td_Create db tr d of
           (Some err, tr', d') \<Rightarrow> (Inl err, d')
         | (None, tr', d') \<Rightarrow> (Inr (show_nat (ot_ID tr')), d'))"

definition GetTransfer :: "'d transfer_db \<Rightarrow> string \<Rightarrow> 'd \<Rightarrow> go_error + OwnershipTransfer" where
  "GetTransfer db transferID d =
     (case sscanf_uint transferID of Inl err \<Rightarrow> Inl err | Inr i \<Rightarrow> td_First db i d)"

definition IsTargetReady :: "'d transfer_db \<Rightarrow> string \<Rightarrow> 'd \<Rightarrow> go_error + bool" where
  "IsTargetReady db transferID d =
     (case GetTransfer db transferID d of
        Inl err \<Rightarrow> Inl err
      | Inr tr \<Rightarrow> Inr (ot_Status tr = TransferCompleted))"

definition MarkTransferCompleted :: "'d transfer_db \<Rightarrow> string \<Rightarrow> 'd \<Rightarrow> go_error option \<times> 'd" where
  "MarkTransferCompleted db transferID d =
     (case GetTransfer db transferID d of
        Inl err \<Rightarrow> (Some err, d)
      | Inr tr \<Rightarrow> td_Save db (tr\<lparr>ot_Status := TransferCompleted\<rparr>) d)"

definition DBTransferCoordinator :: "'d transfer_db \<Rightarrow> 'd TransferCoordinator" where
  "DBTransferCoordinator db =
     \<lparr>tc_InitiateTransfer = InitiateTransfer db, tc_IsTargetReady = IsTargetReady db,
      tc_GetTransfer = GetTransfer db, tc_MarkTransferCompleted = MarkTransferCompleted db\<rparr>"

section \<open>From the table to the interface\<close>

lemma digit_read: "c \<in> set (show_nat n) \<Longrightarrow> read_digit c \<noteq> None \<and> \<not> is_blank c \<and> of_char c \<noteq> (10 :: nat)"
  using show_nat_digits [of c n] by (auto simp: read_digit_def is_blank_def of_char_digit Let_def)

lemma show_nat_nonempty [simp]: "show_nat n \<noteq> []"
  by (subst show_nat.simps) simp

lemma sscanf_show_nat: "n < 2 ^ 64 \<Longrightarrow> sscanf_uint (show_nat n) = Inr n"
proof -
  assume n: "n < 2 ^ 64"
  have drop: "dropWhile is_blank (show_nat n) = show_nat n"
    using digit_read [of "hd (show_nat n)" n] by (cases "show_nat n") auto
  have take: "takeWhile (\<lambda>c. read_digit c \<noteq> None) (show_nat n) = show_nat n"
    using digit_read by (simp add: takeWhile_eq_all_conv)
  show ?thesis
    using n digit_read [of "hd (show_nat n)" n] by (simp add: sscanf_uint_def drop take Let_def del: not_None_eq)
qed

definition db_recs :: "('d \<Rightarrow> nat \<rightharpoonup> OwnershipTransfer) \<Rightarrow> 'd \<Rightarrow> string \<rightharpoonup> OwnershipTransfer" where
  "db_recs rows d tid =
     (case sscanf_uint tid of Inr i \<Rightarrow> if tid = show_nat i then rows d i else None | Inl _ \<Rightarrow> None)"

lemma db_recs_show: "n < 2 ^ 64 \<Longrightarrow> db_recs rows d (show_nat n) = rows d n"
  by (simp add: db_recs_def sscanf_show_nat)

lemma db_recs_upd:
  assumes "n < 2 ^ 64" "rows d' = (rows d)(n \<mapsto> tr)"
  shows "db_recs rows d' = (db_recs rows d)(show_nat n \<mapsto> tr)"
  using assms by (auto simp: db_recs_def sscanf_show_nat split: sum.splits)

lemma db_recs_Some:
  assumes "db_recs rows d tid = Some tr"
  obtains n where "tid = show_nat n" "sscanf_uint tid = Inr n" "rows d n = Some tr"
  using assms by (auto simp: db_recs_def split: sum.splits if_splits)

locale transfer_table =
  fixes db :: "'d transfer_db" and rows :: "'d \<Rightarrow> nat \<rightharpoonup> OwnershipTransfer"
  assumes create_done: "td_Create db tr d = (None, tr', d') \<Longrightarrow>
      (\<exists>i u. i < 2 ^ 64 \<and> rows d i = None \<and> tr' = tr\<lparr>ot_ID := i, ot_CreatedAt := u, ot_UpdatedAt := u\<rparr> \<and>
        rows d' = (rows d)(i \<mapsto> tr'))"
    and create_failed: "td_Create db tr d = (Some err, tr', d') \<Longrightarrow> rows d' = rows d"
    and first_row: "td_First db i d = Inr tr \<Longrightarrow> rows d i = Some tr \<and> ot_ID tr = i"
    and save_done: "td_Save db tr d = (None, d') \<Longrightarrow> (\<exists>u. rows d' = (rows d)(ot_ID tr \<mapsto> tr\<lparr>ot_UpdatedAt := u\<rparr>))"
    and row_range: "rows d i = Some tr \<Longrightarrow> i < 2 ^ 64"

sublocale transfer_table < co: transfer_coordinator "DBTransferCoordinator db" "db_recs rows"
proof (unfold_locales, goal_cases)
  case (1 p f t q c tid c')
  then obtain tr tr' where cr: "td_Create db tr c = (None, tr', c')" "tid = show_nat (ot_ID tr')"
    and tr: "tr = \<lparr>ot_ID = 0, ot_PartitionID = p, ot_FromOwner = f, ot_ToOwner = t, ot_CheckpointSeq = q,
      ot_Status = TransferPending, ot_Attempts = 0, ot_LastError = [], ot_CreatedAt = 0, ot_UpdatedAt = 0\<rparr>"
    by (auto simp: DBTransferCoordinator_def InitiateTransfer_def Let_def split: prod.splits option.splits)
  obtain i u where i: "i < 2 ^ 64 \<and> rows c i = None \<and> tr' = tr\<lparr>ot_ID := i, ot_CreatedAt := u, ot_UpdatedAt := u\<rparr> \<and>
      rows c' = (rows c)(i \<mapsto> tr')"
    using create_done [OF cr(1)] by (elim exE)
  then have tid: "tid = show_nat i" "db_recs rows c tid = None" "db_recs rows c' = (db_recs rows c)(tid \<mapsto> tr')"
    using cr(2) db_recs_upd [of i rows c' c tr'] db_recs_show [of i rows c] by simp_all
  with i tr show ?case by (intro conjI exI [of _ tr']) simp_all
next
  case (2 p f t q c err c')
  then have "rows c' = rows c"
    using create_failed by (auto simp: DBTransferCoordinator_def InitiateTransfer_def Let_def split: prod.splits option.splits)
  then show ?case by (intro ext) (simp add: db_recs_def split: sum.split)
next
  case (3 c tid tr b)
  then show ?case
    using first_row by (force simp: DBTransferCoordinator_def IsTargetReady_def GetTransfer_def elim!: db_recs_Some split: sum.splits)
next
  case (4 c tid tr c')
  then obtain n where n: "tid = show_nat n" "sscanf_uint tid = Inr n" "rows c n = Some tr"
    by (elim db_recs_Some)
  with 4(2) have "td_First db n c = Inr tr" "ot_ID tr = n" "td_Save db (tr\<lparr>ot_Status := TransferCompleted\<rparr>) c = (None, c')"
    using first_row [of n c] by (auto simp: DBTransferCoordinator_def MarkTransferCompleted_def GetTransfer_def split: sum.splits)
  with save_done obtain u where "rows c' = (rows c)(n \<mapsto> tr\<lparr>ot_Status := TransferCompleted, ot_UpdatedAt := u\<rparr>)" by fastforce
  with db_recs_upd [OF row_range [OF n(3)] this] n(1) show ?case by blast
next
  case (5 c tid tr tr')
  then show ?case
    using first_row by (force simp: DBTransferCoordinator_def GetTransfer_def elim!: db_recs_Some)
qed

section \<open>A table in memory\<close>

text \<open>The rows in the order they were written, the newest first, and the clock.\<close>

type_synonym transfer_rows = "(nat \<times> OwnershipTransfer) list \<times> int"

definition next_id :: "(nat \<times> OwnershipTransfer) list \<Rightarrow> nat" where
  "next_id rs = Suc (fold max (map fst rs) 0)"

definition memory_transfers :: "transfer_rows transfer_db" where
  "memory_transfers =
     \<lparr>td_Create = (\<lambda>tr (rs, u). let i = next_id rs; tr' = tr\<lparr>ot_ID := i, ot_CreatedAt := u, ot_UpdatedAt := u\<rparr>
        in if i < 2 ^ 64 then (None, tr', ((i, tr') # rs, u)) else (Some ''out of ids'', tr, (rs, u))),
      td_First = (\<lambda>i (rs, u). case map_of rs i of
        Some tr \<Rightarrow> if i < 2 ^ 64 \<and> ot_ID tr = i then Inr tr else Inl ''record not found'' | None \<Rightarrow> Inl ''record not found''),
      td_Save = (\<lambda>tr (rs, u). if ot_ID tr < 2 ^ 64 then (None, ((ot_ID tr, tr\<lparr>ot_UpdatedAt := u\<rparr>) # rs, u))
        else (Some ''id out of range'', (rs, u)))\<rparr>"

definition memory_rows :: "transfer_rows \<Rightarrow> nat \<rightharpoonup> OwnershipTransfer" where
  "memory_rows d i = (if i < 2 ^ 64 then map_of (fst d) i else None)"

lemma fold_max_ge: "a \<le> fold max xs a \<and> (\<forall>x \<in> set xs. x \<le> fold max xs (a :: nat))"
proof (induction xs arbitrary: a)
  case (Cons x xs)
  from Cons [of "max x a"] show ?case by simp
qed simp

lemma next_id_fresh: "map_of rs (next_id rs) = None"
  using fold_max_ge [where xs = "map fst rs" and a = 0]
  by (fastforce simp: next_id_def map_of_eq_None_iff)

interpretation mem_transfers: transfer_table memory_transfers memory_rows
proof (unfold_locales, goal_cases)
  case (1 tr d tr' d')
  obtain rs u where d: "d = (rs, u)" by (cases d)
  with 1 have "next_id rs < 2 ^ 64" and r: "tr' = tr\<lparr>ot_ID := next_id rs, ot_CreatedAt := u, ot_UpdatedAt := u\<rparr>"
    "d' = ((next_id rs, tr') # rs, u)"
    by (auto simp: memory_transfers_def Let_def split: if_splits)
  then show ?case
    using d next_id_fresh [of rs] by (intro exI [of _ "next_id rs"] exI [of _ u]) (auto simp: memory_rows_def fun_eq_iff)
next
  case (4 tr d d')
  then show ?case
    by (cases d, intro exI [of _ "snd d"]) (auto simp: memory_transfers_def memory_rows_def fun_eq_iff split: if_splits)
qed (auto simp: memory_transfers_def memory_rows_def Let_def split: if_splits option.splits)

end
