(* ===== verification/Ownership.thy ===== *)
theory Ownership
  imports TransferCoordinator Float64
begin

text \<open>
  \<^verbatim>\<open>src/biz/model/partition_ownership.go\<close>: the state machine that moves a partition from one
  node to another. Every method runs under the machine's lock; \<open>StartMigration\<close> and \<open>Rollback\<close>
  take it twice, first to write the target and then for the transition, and the step relation below
  keeps these two sections apart. \<open>now\<close> is the clock of a call in seconds. The listeners are
  parameters of the machine; \<open>fsm_notified\<close> is the sequence of calls made to them.
\<close>

section \<open>State\<close>

datatype OwnershipState = Owned | MigrationPending | Frozen | Flushing | Transferring | Standby | Failed

fun OwnershipState_String :: "OwnershipState \<Rightarrow> string" where
  "OwnershipState_String Owned = ''Owned''"
| "OwnershipState_String MigrationPending = ''MigrationPending''"
| "OwnershipState_String Frozen = ''Frozen''"
| "OwnershipState_String Flushing = ''Flushing''"
| "OwnershipState_String Transferring = ''Transferring''"
| "OwnershipState_String Standby = ''Standby''"
| "OwnershipState_String Failed = ''Failed''"

record StateTransition =
  st_FromState :: OwnershipState
  st_ToState :: OwnershipState
  st_Reason :: string
  st_Timestamp :: int
  st_Actor :: string

record OwnershipMetadata =
  om_PartitionID :: string
  om_CurrentOwner :: string
  om_PreviousOwner :: string
  om_TargetOwner :: string
  om_State :: OwnershipState
  om_Symbols :: "string list"
  om_LastProcessedSeq :: int
  om_StateTransitionTime :: int
  om_MigrationStartTime :: int
  om_CheckpointSeq :: int
  om_TransferID :: string
  om_KafkaOffset :: "string \<rightharpoonup> int"
  om_Version :: int
  om_TransitionHistory :: "StateTransition list"

record ('c, 'n) OwnershipStateMachine =
  fsm_metadata :: OwnershipMetadata
  fsm_listeners :: "'n list"
  fsm_migrationTimeout :: int
  fsm_transferCoordinator :: "'c TransferCoordinator option"
  fsm_notified :: "('n \<times> OwnershipMetadata \<times> OwnershipMetadata) list"

definition NewOwnershipStateMachine ::
  "'c TransferCoordinator option \<Rightarrow> int \<Rightarrow> string \<Rightarrow> string \<Rightarrow> string list \<Rightarrow> ('c, 'n) OwnershipStateMachine" where
  "NewOwnershipStateMachine defaultCoordinator now partitionID owner symbols =
     \<lparr>fsm_metadata =
        \<lparr>om_PartitionID = partitionID, om_CurrentOwner = owner, om_PreviousOwner = [], om_TargetOwner = [],
         om_State = Owned, om_Symbols = symbols, om_LastProcessedSeq = 0, om_StateTransitionTime = now,
         om_MigrationStartTime = 0, om_CheckpointSeq = 0, om_TransferID = [], om_KafkaOffset = Map.empty,
         om_Version = 1, om_TransitionHistory = []\<rparr>,
      fsm_listeners = [], fsm_migrationTimeout = 30 * 10 ^ 9, fsm_transferCoordinator = defaultCoordinator,
      fsm_notified = []\<rparr>"

section \<open>Guards and actions\<close>

text \<open>
  The two maps \<open>registerTransitions\<close> fills. A guard answers whether the transition is allowed and an
  error; an action may write the metadata and call the coordinator, whose state is \<open>c\<close>.
\<close>

definition guards ::
  "int \<Rightarrow> ('c, 'n) OwnershipStateMachine \<Rightarrow> 'c \<Rightarrow> OwnershipState \<times> OwnershipState \<rightharpoonup> bool \<times> go_error option" where
  "guards now fsm c transition =
     (let m = fsm_metadata fsm in
      case transition of
        (Owned, MigrationPending) \<Rightarrow> Some
          (if om_TargetOwner m = [] then (False, Some ''TargetOwner not set'')
           else if om_TargetOwner m = om_CurrentOwner m then (False, Some ''Cannot migrate to same owner'')
           else (True, None))
      | (MigrationPending, Frozen) \<Rightarrow> Some
          (let elapsed = i64 (now - om_MigrationStartTime m)
           in if elapsed > trunc (duration_Seconds (fsm_migrationTimeout fsm))
              then (False, Some ''Migration timeout'') else (True, None))
      | (Frozen, Flushing) \<Rightarrow> Some (True, None)
      | (Flushing, Transferring) \<Rightarrow> Some
          (case fsm_transferCoordinator fsm of
             None \<Rightarrow> if om_CheckpointSeq m \<le> om_LastProcessedSeq m then (True, None)
                     else (False, Some ''checkpoint not persisted'')
           | Some tc \<Rightarrow> if om_CheckpointSeq m \<le> om_LastProcessedSeq m then (True, None)
                     else (False, Some ''checkpoint not persisted''))
      | (Transferring, Standby) \<Rightarrow> Some
          (case fsm_transferCoordinator fsm of
             None \<Rightarrow> (True, None)
           | Some tc \<Rightarrow>
               if om_TransferID m = [] then (False, Some ''no transfer record'')
               else case tc_IsTargetReady tc (om_TransferID m) c of
                 Inl err \<Rightarrow> (False, Some err)
               | Inr ready \<Rightarrow> (ready, None))
      | (MigrationPending, Failed) \<Rightarrow> Some (True, None)
      | (Frozen, Failed) \<Rightarrow> Some (True, None)
      | (Flushing, Failed) \<Rightarrow> Some (True, None)
      | (Transferring, Failed) \<Rightarrow> Some (True, None)
      | (Failed, Owned) \<Rightarrow> Some (True, None)
      | _ \<Rightarrow> None)"

definition actions ::
  "int \<Rightarrow> ('c, 'n) OwnershipStateMachine \<Rightarrow> 'c \<Rightarrow> OwnershipState \<times> OwnershipState \<rightharpoonup>
   go_error option \<times> OwnershipMetadata \<times> 'c" where
  "actions now fsm c transition =
     (let m = fsm_metadata fsm in
      case transition of
        (Owned, MigrationPending) \<Rightarrow> Some (None, m\<lparr>om_MigrationStartTime := now\<rparr>, c)
      | (MigrationPending, Frozen) \<Rightarrow> Some (None, m, c)
      | (Frozen, Flushing) \<Rightarrow> Some (None, m, c)
      | (Flushing, Transferring) \<Rightarrow> Some
          (case fsm_transferCoordinator fsm of
             None \<Rightarrow> (None, m, c)
           | Some tc \<Rightarrow>
               (case tc_InitiateTransfer tc (om_PartitionID m) (om_CurrentOwner m) (om_TargetOwner m) (om_CheckpointSeq m) c of
                  (Inl err, c') \<Rightarrow> (Some (''InitiateTransfer failed: '' @ err), m, c')
                | (Inr transferID, c') \<Rightarrow> (None, m\<lparr>om_TransferID := transferID\<rparr>, c')))
      | (Transferring, Standby) \<Rightarrow> Some
          (None, m\<lparr>om_PreviousOwner := om_CurrentOwner m, om_CurrentOwner := om_TargetOwner m, om_TargetOwner := []\<rparr>, c)
      | (MigrationPending, Failed) \<Rightarrow> Some (None, m\<lparr>om_TargetOwner := []\<rparr>, c)
      | (Frozen, Failed) \<Rightarrow> Some (None, m\<lparr>om_TargetOwner := []\<rparr>, c)
      | (Flushing, Failed) \<Rightarrow> Some (None, m\<lparr>om_TargetOwner := []\<rparr>, c)
      | (Transferring, Failed) \<Rightarrow> Some (None, m\<lparr>om_TargetOwner := []\<rparr>, c)
      | (Failed, Owned) \<Rightarrow> Some (None, m\<lparr>om_TargetOwner := []\<rparr>, c)
      | _ \<Rightarrow> None)"

section \<open>Transitions\<close>

text \<open>The last hundred entries; \<^verbatim>\<open>%w\<close> of a nil error prints \<^verbatim>\<open>%!w(<nil>)\<close>.\<close>

definition last100 :: "'a list \<Rightarrow> 'a list" where
  "last100 xs = (if length xs > 100 then drop (length xs - 100) xs else xs)"

definition error_w :: "go_error option \<Rightarrow> string" where
  "error_w err = (case err of None \<Rightarrow> ''%!w(<nil>)'' | Some e \<Rightarrow> e)"

definition enter_state ::
  "int \<Rightarrow> OwnershipState \<Rightarrow> OwnershipState \<Rightarrow> string \<Rightarrow> string \<Rightarrow> OwnershipMetadata \<Rightarrow> OwnershipMetadata" where
  "enter_state now fromState toState reason actor m =
     m\<lparr>om_State := toState, om_StateTransitionTime := now, om_Version := i64 (om_Version m + 1),
       om_TransitionHistory := last100 (om_TransitionHistory m @
         [\<lparr>st_FromState = fromState, st_ToState = toState, st_Reason = reason, st_Timestamp = now, st_Actor = actor\<rparr>])\<rparr>"

definition Transition ::
  "int \<Rightarrow> OwnershipState \<Rightarrow> string \<Rightarrow> string \<Rightarrow> ('c, 'n) OwnershipStateMachine \<Rightarrow> 'c \<Rightarrow>
   go_error option \<times> ('c, 'n) OwnershipStateMachine \<times> 'c" where
  "Transition now toState reason actor fsm c =
     (let fromState = om_State (fsm_metadata fsm) in
      case guards now fsm c (fromState, toState) of
        None \<Rightarrow> (Some (''Invalid transition: '' @ OwnershipState_String fromState @ '' -> '' @ OwnershipState_String toState), fsm, c)
      | Some (allowed, err) \<Rightarrow>
          if \<not> allowed \<or> err \<noteq> None then (Some (''Transition guard failed: '' @ error_w err), fsm, c)
          else
            let oldMetadata = fsm_metadata fsm;
                acted = (case actions now fsm c (fromState, toState) of
                    Some r \<Rightarrow> r | None \<Rightarrow> (None, fsm_metadata fsm, c))
            in case acted of
                 (Some err, m, c') \<Rightarrow> (Some (''Transition action failed: '' @ err), fsm\<lparr>fsm_metadata := m\<rparr>, c')
               | (None, m, c') \<Rightarrow>
                   let m' = enter_state now fromState toState reason actor m
                   in (None, fsm\<lparr>fsm_metadata := m',
                       fsm_notified := fsm_notified fsm @ map (\<lambda>l. (l, oldMetadata, m')) (fsm_listeners fsm)\<rparr>, c'))"

definition set_target :: "string \<Rightarrow> ('c, 'n) OwnershipStateMachine \<Rightarrow> ('c, 'n) OwnershipStateMachine" where
  "set_target t fsm = fsm\<lparr>fsm_metadata := (fsm_metadata fsm)\<lparr>om_TargetOwner := t\<rparr>\<rparr>"

definition StartMigration ::
  "int \<Rightarrow> string \<Rightarrow> string \<Rightarrow> ('c, 'n) OwnershipStateMachine \<Rightarrow> 'c \<Rightarrow> go_error option \<times> ('c, 'n) OwnershipStateMachine \<times> 'c" where
  "StartMigration now targetOwner actor fsm c =
     Transition now MigrationPending ''StartMigration'' actor (set_target targetOwner fsm) c"

definition Freeze ::
  "int \<Rightarrow> string \<Rightarrow> ('c, 'n) OwnershipStateMachine \<Rightarrow> 'c \<Rightarrow> go_error option \<times> ('c, 'n) OwnershipStateMachine \<times> 'c" where
  "Freeze now actor = Transition now Frozen ''Freeze'' actor"

definition Flush ::
  "int \<Rightarrow> string \<Rightarrow> ('c, 'n) OwnershipStateMachine \<Rightarrow> 'c \<Rightarrow> go_error option \<times> ('c, 'n) OwnershipStateMachine \<times> 'c" where
  "Flush now actor = Transition now Flushing ''Flush'' actor"

definition Transfer ::
  "int \<Rightarrow> string \<Rightarrow> ('c, 'n) OwnershipStateMachine \<Rightarrow> 'c \<Rightarrow> go_error option \<times> ('c, 'n) OwnershipStateMachine \<times> 'c" where
  "Transfer now actor = Transition now Transferring ''Transfer'' actor"

definition Commit ::
  "int \<Rightarrow> string \<Rightarrow> ('c, 'n) OwnershipStateMachine \<Rightarrow> 'c \<Rightarrow> go_error option \<times> ('c, 'n) OwnershipStateMachine \<times> 'c" where
  "Commit now actor = Transition now Standby ''Commit'' actor"

definition Rollback ::
  "int \<Rightarrow> string \<Rightarrow> ('c, 'n) OwnershipStateMachine \<Rightarrow> 'c \<Rightarrow> go_error option \<times> ('c, 'n) OwnershipStateMachine \<times> 'c" where
  "Rollback now actor fsm c = Transition now Failed ''Rollback'' actor (set_target [] fsm) c"

definition Recover ::
  "int \<Rightarrow> string \<Rightarrow> ('c, 'n) OwnershipStateMachine \<Rightarrow> 'c \<Rightarrow> go_error option \<times> ('c, 'n) OwnershipStateMachine \<times> 'c" where
  "Recover now actor = Transition now Owned ''Recover'' actor"

section \<open>Reading and updating\<close>

text \<open>The read-only copy leaves the transfer id and the history out.\<close>

definition GetMetadata :: "('c, 'n) OwnershipStateMachine \<Rightarrow> OwnershipMetadata" where
  "GetMetadata fsm = (fsm_metadata fsm)\<lparr>om_TransferID := [], om_TransitionHistory := []\<rparr>"

definition UpdateLastProcessedSeq ::
  "int \<Rightarrow> ('c, 'n) OwnershipStateMachine \<Rightarrow> go_error option \<times> ('c, 'n) OwnershipStateMachine" where
  "UpdateLastProcessedSeq seq fsm =
     (let m = fsm_metadata fsm in
      if seq < om_LastProcessedSeq m
      then (Some (''Seq cannot go backward: '' @ show_int (om_LastProcessedSeq m) @ '' -> '' @ show_int seq), fsm)
      else (None, fsm\<lparr>fsm_metadata := m\<lparr>om_LastProcessedSeq := seq, om_Version := i64 (om_Version m + 1)\<rparr>\<rparr>))"

definition UpdateCheckpoint ::
  "int \<Rightarrow> ('c, 'n) OwnershipStateMachine \<Rightarrow> go_error option \<times> ('c, 'n) OwnershipStateMachine" where
  "UpdateCheckpoint seq fsm =
     (let m = fsm_metadata fsm in
      if seq > om_LastProcessedSeq m
      then (Some (''Checkpoint seq cannot exceed LastProcessedSeq: '' @ show_int seq @ '' > '' @ show_int (om_LastProcessedSeq m)), fsm)
      else (None, fsm\<lparr>fsm_metadata := m\<lparr>om_CheckpointSeq := seq, om_Version := i64 (om_Version m + 1)\<rparr>\<rparr>))"

definition UpdateKafkaOffset ::
  "string \<Rightarrow> int \<Rightarrow> ('c, 'n) OwnershipStateMachine \<Rightarrow> go_error option \<times> ('c, 'n) OwnershipStateMachine" where
  "UpdateKafkaOffset symbol offset fsm =
     (let m = fsm_metadata fsm in
      if offset < 0 then (Some (''Invalid Kafka offset: '' @ show_int offset), fsm)
      else (None, fsm\<lparr>fsm_metadata := m\<lparr>om_KafkaOffset := (om_KafkaOffset m)(symbol \<mapsto> offset),
              om_Version := i64 (om_Version m + 1)\<rparr>\<rparr>))"

definition GetState :: "('c, 'n) OwnershipStateMachine \<Rightarrow> OwnershipState" where
  "GetState fsm = om_State (fsm_metadata fsm)"

definition IsOwner :: "string \<Rightarrow> ('c, 'n) OwnershipStateMachine \<Rightarrow> bool" where
  "IsOwner nodeID fsm \<longleftrightarrow> om_CurrentOwner (fsm_metadata fsm) = nodeID"

definition AddListener :: "'n \<Rightarrow> ('c, 'n) OwnershipStateMachine \<Rightarrow> ('c, 'n) OwnershipStateMachine" where
  "AddListener listener fsm = fsm\<lparr>fsm_listeners := fsm_listeners fsm @ [listener]\<rparr>"

definition SetMigrationTimeout :: "int \<Rightarrow> ('c, 'n) OwnershipStateMachine \<Rightarrow> ('c, 'n) OwnershipStateMachine" where
  "SetMigrationTimeout timeout fsm = fsm\<lparr>fsm_migrationTimeout := timeout\<rparr>"

definition SetTransferCoordinator ::
  "'c TransferCoordinator option \<Rightarrow> ('c, 'n) OwnershipStateMachine \<Rightarrow> ('c, 'n) OwnershipStateMachine" where
  "SetTransferCoordinator tc fsm = fsm\<lparr>fsm_transferCoordinator := tc\<rparr>"

definition GetTransitionHistory :: "('c, 'n) OwnershipStateMachine \<Rightarrow> StateTransition list" where
  "GetTransitionHistory fsm = om_TransitionHistory (fsm_metadata fsm)"

section \<open>What a transition does\<close>

definition ownership_edges :: "(OwnershipState \<times> OwnershipState) list" where
  "ownership_edges =
     [(Owned, MigrationPending), (MigrationPending, Frozen), (Frozen, Flushing), (Flushing, Transferring),
      (Transferring, Standby), (MigrationPending, Failed), (Frozen, Failed), (Flushing, Failed),
      (Transferring, Failed), (Failed, Owned)]"

lemma guards_edges: "guards now fsm c (a, b) \<noteq> None \<longleftrightarrow> (a, b) \<in> set ownership_edges"
  by (cases a; cases b) (simp_all add: guards_def Let_def ownership_edges_def)

lemma guards_edge: "guards now fsm c (a, b) = Some g \<Longrightarrow> (a, b) \<in> set ownership_edges"
  using guards_edges [of now fsm c a b] by simp

text \<open>What an action leaves of the metadata.\<close>

lemma actions_keep:
  assumes "actions now fsm c (a, b) = Some (err, m, c')"
  shows "om_State m = om_State (fsm_metadata fsm) \<and> om_TransitionHistory m = om_TransitionHistory (fsm_metadata fsm) \<and>
    om_LastProcessedSeq m = om_LastProcessedSeq (fsm_metadata fsm) \<and> om_CheckpointSeq m = om_CheckpointSeq (fsm_metadata fsm) \<and>
    om_Version m = om_Version (fsm_metadata fsm) \<and> om_PartitionID m = om_PartitionID (fsm_metadata fsm) \<and>
    om_KafkaOffset m = om_KafkaOffset (fsm_metadata fsm) \<and>
    ((a, b) \<noteq> (Transferring, Standby) \<longrightarrow> om_CurrentOwner m = om_CurrentOwner (fsm_metadata fsm)) \<and>
    (err \<noteq> None \<longrightarrow> m = fsm_metadata fsm)"
  using assms
  by (cases a; cases b)
    (auto simp: actions_def Let_def split: option.splits prod.splits sum.splits)

lemma Transition_cases:
  assumes "Transition now to reason actor fsm c = (err, fsm', c')"
  obtains (refused) "err \<noteq> None" "fsm' = fsm"
  | (entered) m where "err = None" "guards now fsm c (om_State (fsm_metadata fsm), to) = Some (True, None)"
      "actions now fsm c (om_State (fsm_metadata fsm), to) = Some (None, m, c')"
      "fsm_metadata fsm' = enter_state now (om_State (fsm_metadata fsm)) to reason actor m"
      "fsm_transferCoordinator fsm' = fsm_transferCoordinator fsm"
      "fsm_notified fsm' = fsm_notified fsm @ map (\<lambda>l. (l, fsm_metadata fsm, fsm_metadata fsm')) (fsm_listeners fsm)"
proof (cases "guards now fsm c (om_State (fsm_metadata fsm), to)")
  case None
  with assms show ?thesis by (intro that(1)) (auto simp: Transition_def Let_def)
next
  case (Some g)
  obtain allowed ge where g: "g = (allowed, ge)" by (cases g)
  show ?thesis
  proof (cases "allowed \<and> ge = None")
    case False
    with assms Some g show ?thesis by (intro that(1)) (auto simp: Transition_def Let_def)
  next
    case True
    have "(om_State (fsm_metadata fsm), to) \<in> set ownership_edges" using Some by (rule guards_edge)
    then obtain r where "actions now fsm c (om_State (fsm_metadata fsm), to) = Some r"
      by (cases "om_State (fsm_metadata fsm)"; cases to)
        (simp_all add: actions_def Let_def ownership_edges_def)
    moreover obtain ae m c1 where "r = (ae, m, c1)" by (cases r)
    ultimately have act: "actions now fsm c (om_State (fsm_metadata fsm), to) = Some (ae, m, c1)" by simp
    show ?thesis
    proof (cases ae)
      case None
      with assms True Some g act show ?thesis by (intro that(2) [of m]) (auto simp: Transition_def Let_def)
    next
      case (Some e)
      then have "m = fsm_metadata fsm" using actions_keep [OF act] by simp
      with assms True Some g act \<open>guards now fsm c (om_State (fsm_metadata fsm), to) = Some g\<close>
      show ?thesis by (intro that(1)) (auto simp: Transition_def Let_def)
    qed
  qed
qed

section \<open>Runs\<close>

text \<open>
  One step is one section under the lock, of any method and any caller, or a change of the
  coordinator's state from outside.
\<close>

inductive fsm_step ::
  "('c, 'n) OwnershipStateMachine \<times> 'c \<Rightarrow> ('c, 'n) OwnershipStateMachine \<times> 'c \<Rightarrow> bool" where
  target: "fsm_step (fsm, c) (set_target t fsm, c)"
| trans: "Transition now to reason actor fsm c = (err, fsm', c') \<Longrightarrow> fsm_step (fsm, c) (fsm', c')"
| seq: "UpdateLastProcessedSeq q fsm = (err, fsm') \<Longrightarrow> fsm_step (fsm, c) (fsm', c)"
| checkpoint: "UpdateCheckpoint q fsm = (err, fsm') \<Longrightarrow> fsm_step (fsm, c) (fsm', c)"
| kafka: "UpdateKafkaOffset s q fsm = (err, fsm') \<Longrightarrow> fsm_step (fsm, c) (fsm', c)"
| listener: "fsm_step (fsm, c) (AddListener l fsm, c)"
| timeout: "fsm_step (fsm, c) (SetMigrationTimeout t fsm, c)"
| coordinator: "fsm_step (fsm, c) (SetTransferCoordinator tc fsm, c)"
| outside: "fsm_step (fsm, c) (fsm, c')"

inductive_cases fsm_step_cases
  [consumes 1, case_names target trans seq checkpoint kafka listener timeout coordinator outside]: "fsm_step (fsm, c) (fsm', c')"

lemmas update_defs = UpdateLastProcessedSeq_def UpdateCheckpoint_def UpdateKafkaOffset_def AddListener_def
  SetMigrationTimeout_def SetTransferCoordinator_def set_target_def Let_def

text \<open>The history is a path of the transition graph that ends in the current state.\<close>

fun linked :: "OwnershipState \<Rightarrow> StateTransition list \<Rightarrow> OwnershipState \<Rightarrow> bool" where
  "linked s [] s' \<longleftrightarrow> s = s'"
| "linked s (t # ts) s' \<longleftrightarrow> st_FromState t = s \<and> (s, st_ToState t) \<in> set ownership_edges \<and> linked (st_ToState t) ts s'"

lemma linked_snoc:
  "linked s (ts @ [t]) s' \<longleftrightarrow> linked s ts (st_FromState t) \<and> (st_FromState t, st_ToState t) \<in> set ownership_edges \<and> st_ToState t = s'"
  by (induction ts arbitrary: s) auto

lemma linked_drop: "linked s ts s' \<Longrightarrow> \<exists>s0. linked s0 (drop n ts) s'"
proof (induction n arbitrary: s ts)
  case (Suc n)
  then show ?case by (cases ts) auto
qed auto

lemma linked_last100: "linked s ts s' \<Longrightarrow> \<exists>s0. linked s0 (last100 ts) s'"
  by (auto simp: last100_def dest: linked_drop)

definition ownership_ok :: "OwnershipMetadata \<Rightarrow> bool" where
  "ownership_ok m \<longleftrightarrow> om_CheckpointSeq m \<le> om_LastProcessedSeq m \<and> length (om_TransitionHistory m) \<le> 100 \<and>
     (\<exists>s. linked s (om_TransitionHistory m) (om_State m))"

lemma ownership_ok_enter:
  assumes "ownership_ok m" "om_State m = a" "(a, b) \<in> set ownership_edges"
  shows "ownership_ok (enter_state now a b reason actor m)"
proof -
  let ?t = "\<lparr>st_FromState = a, st_ToState = b, st_Reason = reason, st_Timestamp = now, st_Actor = actor\<rparr>"
  obtain s where path: "linked s (om_TransitionHistory m @ [?t]) b"
    using assms by (auto simp: ownership_ok_def linked_snoc)
  have "\<exists>s. linked s (last100 (om_TransitionHistory m @ [?t])) b"
    using path by (rule linked_last100)
  moreover have "length (last100 xs) \<le> 100" for xs :: "StateTransition list"
    by (simp add: last100_def)
  ultimately show ?thesis using assms(1) by (simp add: ownership_ok_def enter_state_def)
qed

lemma ownership_ok_step:
  assumes "fsm_step (fsm, c) (fsm', c')" "ownership_ok (fsm_metadata fsm)"
  shows "ownership_ok (fsm_metadata fsm')"
  using assms(1)
proof (cases rule: fsm_step_cases)
  case (trans now to reason actor err)
  from this show ?thesis
  proof (cases rule: Transition_cases)
    case (entered m)
    note keep = actions_keep [OF entered(3)]
    then have "ownership_ok m" using assms(2) by (simp add: ownership_ok_def)
    moreover have "(om_State (fsm_metadata fsm), to) \<in> set ownership_edges"
      using entered(2) by (rule guards_edge)
    ultimately show ?thesis using keep entered(4) by (simp add: ownership_ok_enter)
  qed (use assms(2) in simp)
qed (use assms(2) in \<open>auto simp: ownership_ok_def update_defs split: if_splits\<close>)

section \<open>A machine for the examples\<close>

definition demo_fsm :: "(unit, unit) OwnershipStateMachine" where
  "demo_fsm = NewOwnershipStateMachine None 0 ''p'' ''n1'' [''BTC'']"

definition demo_pending :: "(unit, unit) OwnershipStateMachine" where
  "demo_pending = fst (snd (StartMigration 1 ''n2'' ''a'' demo_fsm ()))"

definition demo_flushing :: "(unit, unit) OwnershipStateMachine" where
  "demo_flushing = fst (snd (Flush 3 ''n1'' (fst (snd (Freeze 2 ''n1'' demo_pending ()))) ()))"

definition demo_transferring :: "(unit, unit) OwnershipStateMachine" where
  "demo_transferring = fst (snd (Transfer 4 ''n1'' demo_flushing ()))"

lemma default_timeout: "trunc (duration_Seconds 30000000000) = 30"
  using duration_whole_seconds [of 30] trunc_of_int [of 30] by simp

lemmas demo_fsm_defs = demo_fsm_def demo_pending_def demo_flushing_def demo_transferring_def NewOwnershipStateMachine_def
  StartMigration_def Freeze_def Flush_def Transfer_def Transition_def set_target_def guards_def actions_def enter_state_def
  last100_def Let_def default_timeout i64_def

lemma demo_transferring_state:
  "GetState demo_transferring = Transferring" "fsm_transferCoordinator demo_transferring = None"
  "om_TargetOwner (fsm_metadata demo_transferring) = ''n2''" "om_CurrentOwner (fsm_metadata demo_transferring) = ''n1''"
  by (simp_all add: demo_fsm_defs GetState_def)

section \<open>Properties\<close>

text \<open>
  C32. The machine is well formed after any interleaving of its methods, from any number of callers
  and with any coordinator: the checkpoint never exceeds the last processed number, the history
  has at most a hundred entries, and it is a path of the registered transitions that ends in the
  current state.
\<close>

theorem reachable_ownership_ok:
  assumes "fsm_step\<^sup>*\<^sup>* (NewOwnershipStateMachine tc now p owner symbols, c) (fsm, c')"
  shows "om_CheckpointSeq (fsm_metadata fsm) \<le> om_LastProcessedSeq (fsm_metadata fsm) \<and>
    length (GetTransitionHistory fsm) \<le> 100 \<and> (\<exists>s. linked s (GetTransitionHistory fsm) (GetState fsm))"
proof -
  have "ownership_ok (fsm_metadata fsm)"
    using assms
  proof (induction rule: rtranclp_induct2)
    case refl
    then show ?case by (simp add: ownership_ok_def NewOwnershipStateMachine_def)
  next
    case (step fsm c fsm' c')
    then show ?case by (intro ownership_ok_step [OF step(2,3)])
  qed
  then show ?thesis by (simp add: ownership_ok_def GetTransitionHistory_def GetState_def)
qed

theorem reachable_ownership_ok_witness:
  "\<exists>s. linked s (GetTransitionHistory demo_pending) (GetState demo_pending) \<and> GetState demo_pending = MigrationPending"
proof -
  have "fsm_step (demo_fsm, ()) (set_target ''n2'' demo_fsm, ())" by (rule fsm_step.target)
  moreover have "fsm_step (set_target ''n2'' demo_fsm, ()) (demo_pending, ())"
    by (rule fsm_step.trans [of 1 MigrationPending "''StartMigration''" "''a''" _ _ None])
      (simp add: demo_fsm_defs)
  ultimately have "fsm_step\<^sup>*\<^sup>* (NewOwnershipStateMachine None 0 ''p'' ''n1'' [''BTC''], ()) (demo_pending, ())"
    unfolding demo_fsm_def by (meson converse_rtranclp_into_rtranclp rtranclp.rtrancl_refl)
  from reachable_ownership_ok [OF this] show ?thesis
    by (simp add: demo_fsm_defs GetState_def)
qed

text \<open>
  C30. A partition changes hands only by a commit: a step after which another node is the owner is the
  transition from \<open>Transferring\<close> to \<open>Standby\<close>; the new owner is the node in the target field, the old owner
  is kept as the previous one, and with a coordinator there is a transfer id, for which \<open>IsTargetReady\<close>
  answered yes. That the transfer is one to the node in the target field is not checked.
\<close>

theorem owner_changes_on_commit:
  assumes "fsm_step (fsm, c) (fsm', c')" "\<not> IsOwner (om_CurrentOwner (fsm_metadata fsm)) fsm'"
  shows "GetState fsm = Transferring \<and> GetState fsm' = Standby \<and> IsOwner (om_TargetOwner (fsm_metadata fsm)) fsm' \<and>
    om_PreviousOwner (fsm_metadata fsm') = om_CurrentOwner (fsm_metadata fsm) \<and>
    (\<forall>tc. fsm_transferCoordinator fsm = Some tc \<longrightarrow>
      om_TransferID (fsm_metadata fsm) \<noteq> [] \<and> tc_IsTargetReady tc (om_TransferID (fsm_metadata fsm)) c = Inr True)"
  using assms(1)
proof (cases rule: fsm_step_cases)
  case (trans now to reason actor err)
  from this show ?thesis
  proof (cases rule: Transition_cases)
    case (entered m)
    have edge: "(om_State (fsm_metadata fsm), to) = (Transferring, Standby)"
      using actions_keep [OF entered(3)] assms(2) entered(4) by (auto simp: IsOwner_def enter_state_def)
    then have m: "om_CurrentOwner m = om_TargetOwner (fsm_metadata fsm)" "om_PreviousOwner m = om_CurrentOwner (fsm_metadata fsm)"
      using entered(3) by (auto simp: actions_def Let_def)
    have "\<forall>tc. fsm_transferCoordinator fsm = Some tc \<longrightarrow> om_TransferID (fsm_metadata fsm) \<noteq> [] \<and>
        tc_IsTargetReady tc (om_TransferID (fsm_metadata fsm)) c = Inr True"
      using entered(2) edge by (auto simp: guards_def Let_def split: if_splits sum.splits)
    with edge m entered(4) show ?thesis by (simp add: GetState_def IsOwner_def enter_state_def)
  qed (use assms(2) in \<open>simp add: IsOwner_def\<close>)
qed (use assms(2) in \<open>auto simp: IsOwner_def update_defs split: if_splits\<close>)

theorem owner_changes_on_commit_witness:
  "\<exists>fsm'. Commit 5 ''n2'' demo_transferring () = (None, fsm', ()) \<and> IsOwner ''n2'' fsm'"
proof -
  obtain fsm' where c: "Commit 5 ''n2'' demo_transferring () = (None, fsm', ())" and o: "\<not> IsOwner ''n1'' fsm'"
    by (simp add: demo_fsm_defs Commit_def IsOwner_def)
  have "fsm_step (demo_transferring, ()) (fsm', ())"
    using c unfolding Commit_def by (rule fsm_step.trans)
  from owner_changes_on_commit [OF this] o c show ?thesis by (simp add: demo_transferring_state)
qed

text \<open>
  A migrated partition can never be migrated again: from a machine in \<open>Standby\<close> every
  continuation stays in \<open>Standby\<close> with the same owner, so that each later \<open>StartMigration\<close> fails.
\<close>

lemma standby_is_final:
  assumes "fsm_step\<^sup>*\<^sup>* (fsm, c) (fsm', c')" "GetState fsm = Standby"
  shows "GetState fsm' = Standby \<and> om_CurrentOwner (fsm_metadata fsm') = om_CurrentOwner (fsm_metadata fsm) \<and>
    fst (StartMigration now t actor fsm' c') \<noteq> None"
proof -
  have "GetState fsm' = Standby \<and> om_CurrentOwner (fsm_metadata fsm') = om_CurrentOwner (fsm_metadata fsm)"
    using assms(1)
  proof (induction rule: rtranclp_induct2)
    case (step fsm1 c1 fsm2 c2)
    from step(2) show ?case
    proof (cases rule: fsm_step_cases)
      case (trans now to reason actor err)
      from this show ?thesis
        by (cases rule: Transition_cases) (use step(3) in \<open>auto simp: GetState_def guards_def Let_def split: OwnershipState.splits\<close>)
    qed (use step(3) in \<open>auto simp: GetState_def update_defs split: if_splits\<close>)
  qed (use assms(2) in simp)
  moreover have "fst (StartMigration now t actor fsm' c') \<noteq> None" if "GetState fsm' = Standby"
    using that by (simp add: StartMigration_def Transition_def set_target_def GetState_def guards_def Let_def)
  ultimately show ?thesis by blast
qed

text \<open>
  C31. A request that is refused still redirects the migration in progress. \<open>StartMigration\<close> and \<open>Rollback\<close> write the
  target under the lock, give the lock up, and only then try their transition. Take a partition in transfer
  that is ready to be committed. A \<open>StartMigration\<close> to \<open>t\<close> is refused, but leaves \<open>t\<close> as the target. A commit after
  the target was written succeeds and makes \<open>t\<close> the owner, although the coordinator was asked about the transfer
  to the old target; the transitions of the two requests then fail. So a rollback that overlaps a commit
  leaves a partition that no node owns.
\<close>

theorem target_write_redirects_commit:
  assumes "GetState fsm = Transferring"
    and "\<And>tc. fsm_transferCoordinator fsm = Some tc \<Longrightarrow>
      om_TransferID (fsm_metadata fsm) \<noteq> [] \<and> tc_IsTargetReady tc (om_TransferID (fsm_metadata fsm)) c = Inr True"
  shows "(\<exists>err. StartMigration now t actor fsm c = (Some err, set_target t fsm, c)) \<and>
    (\<exists>fsm'. Commit now' actor' (set_target t fsm) c = (None, fsm', c) \<and> IsOwner t fsm' \<and> GetState fsm' = Standby \<and>
      fst (Transition now'' MigrationPending ''StartMigration'' actor fsm' c) \<noteq> None \<and>
      fst (Transition now'' Failed ''Rollback'' actor fsm' c) \<noteq> None)"
proof -
  have "\<exists>err. StartMigration now t actor fsm c = (Some err, set_target t fsm, c)"
    using assms(1) by (simp add: StartMigration_def Transition_def set_target_def GetState_def guards_def Let_def)
  moreover have "guards now' (set_target t fsm) c (Transferring, Standby) = Some (True, None)"
    using assms(2) by (auto simp: guards_def set_target_def Let_def split: option.split)
  then obtain fsm' where fsm': "Commit now' actor' (set_target t fsm) c = (None, fsm', c)" "IsOwner t fsm'" "GetState fsm' = Standby"
    using assms(1) by (simp add: Commit_def Transition_def GetState_def IsOwner_def actions_def enter_state_def set_target_def Let_def)
  moreover have "fst (Transition now'' to reason actor fsm' c) \<noteq> None" for to reason
    using fsm'(3) by (simp add: Transition_def GetState_def guards_def Let_def)
  ultimately show ?thesis by blast
qed

theorem target_write_redirects_commit_witness:
  "(\<exists>err. StartMigration 5 ''n3'' ''a'' demo_transferring () = (Some err, set_target ''n3'' demo_transferring, ())) \<and>
   (\<exists>fsm'. Commit 6 ''n2'' (set_target ''n3'' demo_transferring) () = (None, fsm', ()) \<and> IsOwner ''n3'' fsm')"
proof -
  have "fsm_transferCoordinator demo_transferring = None" by (simp add: demo_fsm_defs)
  with target_write_redirects_commit [of demo_transferring "()" 5 "''n3''" "''a''" 6 "''n2''"]
  show ?thesis by (auto simp: demo_transferring_state)
qed

end
