(* ===== verification/TransferProtocol.thy ===== *)
theory TransferProtocol
  imports Ownership
begin

text \<open>
  \<^verbatim>\<open>src/biz/model/transfer_protocol.go\<close>: the messages of a migration and the handler that applies
  them to the ownership state machine. \<open>now\<close> is the clock of a call in seconds, \<open>now_nano\<close> the time
  stamp a message carries.
\<close>

section \<open>Messages\<close>

record TransferRequest =
  tq_PartitionID :: string
  tq_SourceOwner :: string
  tq_TargetOwner :: string
  tq_TimeoutMs :: int
  tq_MaxRetries :: int
  tq_RequestTime :: int
  tq_RequestID :: string

record TransferResponse =
  tr_Accepted :: bool
  tr_Reason :: string
  tr_CheckpointSeq :: int
  tr_ResponseTime :: int
  tr_RequestID :: string

record FreezeSignal =
  fs_PartitionID :: string
  fs_FreezeTimestamp :: int
  fs_FreezeTime :: int
  fs_SourceOwner :: string

record FlushAck =
  fa_PartitionID :: string
  fa_LastProcessedSeq :: int
  fa_CheckpointSeq :: int
  fa_KafkaOffsets :: "string \<rightharpoonup> int"
  fa_SourceOwner :: string
  fa_FlushTime :: int
  fa_RequestID :: string

record TransferSignal =
  ts_PartitionID :: string
  ts_SourceOwner :: string
  ts_TargetOwner :: string
  ts_StartFromSeq :: int
  ts_StartFromCheckpoint :: int
  ts_KafkaOffsets :: "string \<rightharpoonup> int"
  ts_TransferTime :: int
  ts_RequestID :: string

record TransferContext =
  tx_PartitionID :: string
  tx_SourceOwner :: string
  tx_TargetOwner :: string
  tx_State :: OwnershipState
  tx_RequestID :: string
  tx_StartTime :: int
  tx_LastUpdateTime :: int
  tx_TimeoutMs :: int
  tx_RetryCount :: int
  tx_MaxRetries :: int
  tx_LastError :: "go_error option"
  tx_CheckpointSeq :: int
  tx_KafkaOffsets :: "string \<rightharpoonup> int"
  tx_FlushAckReceived :: bool
  tx_CommitSignalSent :: bool

section \<open>The handler\<close>

record ('c, 'n) TransferProtocol =
  tp_fsm :: "('c, 'n) OwnershipStateMachine option"

abbreviation no_fsm :: go_error where "no_fsm \<equiv> ''state machine not initialized''"

definition NewTransferProtocol :: "('c, 'n) OwnershipStateMachine option \<Rightarrow> ('c, 'n) TransferProtocol" where
  "NewTransferProtocol fsm = \<lparr>tp_fsm = fsm\<rparr>"

definition StartTransfer ::
  "int \<Rightarrow> int \<Rightarrow> TransferRequest \<Rightarrow> ('c, 'n) TransferProtocol \<Rightarrow> 'c \<Rightarrow>
   (go_error + TransferResponse) \<times> ('c, 'n) TransferProtocol \<times> 'c" where
  "StartTransfer now now_nano req tp c =
     (case tp_fsm tp of
        None \<Rightarrow> (Inl no_fsm, tp, c)
      | Some fsm \<Rightarrow>
          if GetState fsm \<noteq> Owned
          then (Inr \<lparr>tr_Accepted = False,
                  tr_Reason = ''source not in Owned state, current state: '' @ OwnershipState_String (GetState fsm),
                  tr_CheckpointSeq = - 1, tr_ResponseTime = now_nano, tr_RequestID = tq_RequestID req\<rparr>, tp, c)
          else case StartMigration now (tq_TargetOwner req) ''protocol'' fsm c of
            (Some err, fsm', c') \<Rightarrow>
              (Inr \<lparr>tr_Accepted = False, tr_Reason = ''failed to start migration: '' @ err,
                 tr_CheckpointSeq = - 1, tr_ResponseTime = now_nano, tr_RequestID = tq_RequestID req\<rparr>,
               tp\<lparr>tp_fsm := Some fsm'\<rparr>, c')
          | (None, fsm', c') \<Rightarrow>
              (Inr \<lparr>tr_Accepted = True, tr_Reason = [], tr_CheckpointSeq = om_CheckpointSeq (GetMetadata fsm'),
                 tr_ResponseTime = now_nano, tr_RequestID = tq_RequestID req\<rparr>,
               tp\<lparr>tp_fsm := Some fsm'\<rparr>, c'))"

definition ApplyFreezeSignal ::
  "int \<Rightarrow> FreezeSignal \<Rightarrow> ('c, 'n) TransferProtocol \<Rightarrow> 'c \<Rightarrow> go_error option \<times> ('c, 'n) TransferProtocol \<times> 'c" where
  "ApplyFreezeSignal now sig tp c =
     (case tp_fsm tp of
        None \<Rightarrow> (Some no_fsm, tp, c)
      | Some fsm \<Rightarrow>
          if GetState fsm \<noteq> MigrationPending
          then (Some (''cannot freeze: not in MigrationPending state, current: '' @ OwnershipState_String (GetState fsm)), tp, c)
          else let (err, fsm', c') = Freeze now (fs_SourceOwner sig) fsm c in (err, tp\<lparr>tp_fsm := Some fsm'\<rparr>, c'))"

definition copyKafkaOffsets :: "(string \<rightharpoonup> int) \<Rightarrow> (string \<rightharpoonup> int)" where
  "copyKafkaOffsets offsets = offsets"

definition CompleteFlushing ::
  "int \<Rightarrow> int \<Rightarrow> string \<Rightarrow> ('c, 'n) TransferProtocol \<Rightarrow> 'c \<Rightarrow> (go_error + FlushAck) \<times> ('c, 'n) TransferProtocol \<times> 'c" where
  "CompleteFlushing now now_nano sourceOwner tp c =
     (case tp_fsm tp of
        None \<Rightarrow> (Inl no_fsm, tp, c)
      | Some fsm \<Rightarrow>
          if GetState fsm \<noteq> Frozen
          then (Inl (''cannot flush: not in Frozen state, current: '' @ OwnershipState_String (GetState fsm)), tp, c)
          else case Flush now sourceOwner fsm c of
            (Some err, fsm', c') \<Rightarrow> (Inl (''failed to flush: '' @ err), tp\<lparr>tp_fsm := Some fsm'\<rparr>, c')
          | (None, fsm', c') \<Rightarrow>
              let metadata = GetMetadata fsm'
              in (Inr \<lparr>fa_PartitionID = om_PartitionID metadata, fa_LastProcessedSeq = om_LastProcessedSeq metadata,
                    fa_CheckpointSeq = om_CheckpointSeq metadata, fa_KafkaOffsets = copyKafkaOffsets (om_KafkaOffset metadata),
                    fa_SourceOwner = sourceOwner, fa_FlushTime = now_nano, fa_RequestID = []\<rparr>,
                  tp\<lparr>tp_fsm := Some fsm'\<rparr>, c'))"

definition ApplyTransferSignal ::
  "int \<Rightarrow> TransferSignal \<Rightarrow> ('c, 'n) TransferProtocol \<Rightarrow> 'c \<Rightarrow> go_error option \<times> ('c, 'n) TransferProtocol \<times> 'c" where
  "ApplyTransferSignal now sig tp c =
     (case tp_fsm tp of
        None \<Rightarrow> (Some no_fsm, tp, c)
      | Some fsm \<Rightarrow>
          if GetState fsm \<noteq> Flushing
          then (Some (''cannot transfer: not in Flushing state, current: '' @ OwnershipState_String (GetState fsm)), tp, c)
          else let (err, fsm', c') = Transfer now (ts_SourceOwner sig) fsm c
            in (map_option (\<lambda>e. ''failed to transfer: '' @ e) err, tp\<lparr>tp_fsm := Some fsm'\<rparr>, c'))"

definition CommitTransfer ::
  "int \<Rightarrow> string \<Rightarrow> ('c, 'n) TransferProtocol \<Rightarrow> 'c \<Rightarrow> go_error option \<times> ('c, 'n) TransferProtocol \<times> 'c" where
  "CommitTransfer now targetOwner tp c =
     (case tp_fsm tp of
        None \<Rightarrow> (Some no_fsm, tp, c)
      | Some fsm \<Rightarrow>
          if GetState fsm \<noteq> Transferring
          then (Some (''cannot commit: not in Transferring state, current: '' @ OwnershipState_String (GetState fsm)), tp, c)
          else let (err, fsm', c') = Commit now targetOwner fsm c in (err, tp\<lparr>tp_fsm := Some fsm'\<rparr>, c'))"

definition RollbackTransfer ::
  "int \<Rightarrow> string \<Rightarrow> ('c, 'n) TransferProtocol \<Rightarrow> 'c \<Rightarrow> go_error option \<times> ('c, 'n) TransferProtocol \<times> 'c" where
  "RollbackTransfer now reason tp c =
     (case tp_fsm tp of
        None \<Rightarrow> (Some no_fsm, tp, c)
      | Some fsm \<Rightarrow> let (err, fsm', c') = Rollback now reason fsm c in (err, tp\<lparr>tp_fsm := Some fsm'\<rparr>, c'))"

definition GetTransferContext :: "int \<Rightarrow> ('c, 'n) TransferProtocol \<Rightarrow> TransferContext option" where
  "GetTransferContext now_nano tp =
     (case tp_fsm tp of
        None \<Rightarrow> None
      | Some fsm \<Rightarrow>
          let metadata = GetMetadata fsm
          in Some \<lparr>tx_PartitionID = om_PartitionID metadata, tx_SourceOwner = om_CurrentOwner metadata,
                tx_TargetOwner = om_TargetOwner metadata, tx_State = om_State metadata, tx_RequestID = [],
                tx_StartTime = now_nano, tx_LastUpdateTime = 0, tx_TimeoutMs = 30000, tx_RetryCount = 0,
                tx_MaxRetries = 0, tx_LastError = None, tx_CheckpointSeq = om_CheckpointSeq metadata,
                tx_KafkaOffsets = copyKafkaOffsets (om_KafkaOffset metadata), tx_FlushAckReceived = False,
                tx_CommitSignalSent = False\<rparr>)"

definition ValidateTransferInvariants :: "('c, 'n) TransferProtocol \<Rightarrow> go_error option" where
  "ValidateTransferInvariants tp =
     (case tp_fsm tp of
        None \<Rightarrow> Some no_fsm
      | Some fsm \<Rightarrow>
          let metadata = GetMetadata fsm
          in if om_CheckpointSeq metadata > om_LastProcessedSeq metadata
             then Some (''invariant violation: CheckpointSeq ('' @ show_int (om_CheckpointSeq metadata) @
               '') > LastProcessedSeq ('' @ show_int (om_LastProcessedSeq metadata) @ '')'')
             else if (om_State metadata = Transferring \<or> om_State metadata = Flushing) \<and> om_KafkaOffset metadata = Map.empty
             then Some ''invariant violation: KafkaOffset empty during transfer''
             else if om_State metadata \<in> {MigrationPending, Frozen, Flushing, Transferring} \<and> om_TargetOwner metadata = []
             then Some (''invariant violation: no TargetOwner during transfer in state '' @ OwnershipState_String (om_State metadata))
             else None)"

section \<open>Runs of the protocol\<close>

text \<open>
  One call of the protocol, of \<open>Recover\<close> or of a progress update, from its start to its end. The calls lock the machine
  for each access anew, so this is how a handler behaves whose caller makes one call after the other; what
  happens when calls overlap is shown for the sections of the machine (\<open>fsm_step\<close>).
\<close>

inductive serial_call :: "('c, 'n) TransferProtocol \<times> 'c \<Rightarrow> ('c, 'n) TransferProtocol \<times> 'c \<Rightarrow> bool" where
  start: "StartTransfer now nn req tp c = (r, tp', c') \<Longrightarrow> serial_call (tp, c) (tp', c')"
| freeze: "ApplyFreezeSignal now fsig tp c = (err, tp', c') \<Longrightarrow> serial_call (tp, c) (tp', c')"
| flush: "CompleteFlushing now nn source tp c = (ack, tp', c') \<Longrightarrow> serial_call (tp, c) (tp', c')"
| transfer: "ApplyTransferSignal now tsig tp c = (err, tp', c') \<Longrightarrow> serial_call (tp, c) (tp', c')"
| commit: "CommitTransfer now t tp c = (err, tp', c') \<Longrightarrow> serial_call (tp, c) (tp', c')"
| rollback: "RollbackTransfer now reason tp c = (err, tp', c') \<Longrightarrow> serial_call (tp, c) (tp', c')"
| recover: "tp_fsm tp = Some fsm \<Longrightarrow> Recover now actor fsm c = (err, fsm', c') \<Longrightarrow>
    serial_call (tp, c) (tp\<lparr>tp_fsm := Some fsm'\<rparr>, c')"
| seq: "tp_fsm tp = Some fsm \<Longrightarrow> UpdateLastProcessedSeq q fsm = (err, fsm') \<Longrightarrow> serial_call (tp, c) (tp\<lparr>tp_fsm := Some fsm'\<rparr>, c)"
| checkpoint: "tp_fsm tp = Some fsm \<Longrightarrow> UpdateCheckpoint q fsm = (err, fsm') \<Longrightarrow> serial_call (tp, c) (tp\<lparr>tp_fsm := Some fsm'\<rparr>, c)"
| kafka: "tp_fsm tp = Some fsm \<Longrightarrow> UpdateKafkaOffset s q fsm = (err, fsm') \<Longrightarrow> serial_call (tp, c) (tp\<lparr>tp_fsm := Some fsm'\<rparr>, c)"
| outside: "serial_call (tp, c) (tp, c')"

inductive_cases serial_call_cases
  [consumes 1, case_names start freeze flush transfer commit rollback recover seq checkpoint kafka outside]:
  "serial_call (tp, c) (tp', c')"

text \<open>A migration under way has a target, which is not the owner.\<close>

definition migrating :: "OwnershipState \<Rightarrow> bool" where
  "migrating s \<longleftrightarrow> s \<in> {MigrationPending, Frozen, Flushing, Transferring}"

definition target_ok :: "OwnershipMetadata \<Rightarrow> bool" where
  "target_ok m \<longleftrightarrow> om_CheckpointSeq m \<le> om_LastProcessedSeq m \<and>
     (migrating (om_State m) \<longrightarrow> om_TargetOwner m \<noteq> [] \<and> om_TargetOwner m \<noteq> om_CurrentOwner m)"

lemma target_ok_Transition:
  assumes "Transition now to reason actor fsm c = (err, fsm', c')"
    and "target_ok (fsm_metadata fsm) \<or>
      \<not> migrating to \<and> om_CheckpointSeq (fsm_metadata fsm) \<le> om_LastProcessedSeq (fsm_metadata fsm) \<and> err = None"
  shows "target_ok (fsm_metadata fsm')"
  using assms(1)
proof (cases rule: Transition_cases)
  case refused
  then show ?thesis using assms(2) by auto
next
  case (entered m)
  have seqs: "om_CheckpointSeq m \<le> om_LastProcessedSeq m"
    using actions_keep [OF entered(3)] assms(2) by (auto simp: target_ok_def)
  show ?thesis
  proof (cases "migrating to")
    case True
    with assms(2) have "target_ok (fsm_metadata fsm)" by blast
    with True entered(2,3) have "om_TargetOwner m \<noteq> [] \<and> om_TargetOwner m \<noteq> om_CurrentOwner m"
      by (cases "om_State (fsm_metadata fsm)"; cases to)
        (auto simp: migrating_def target_ok_def guards_def actions_def Let_def split: if_splits option.splits prod.splits sum.splits)
    with seqs entered(4) show ?thesis by (simp add: target_ok_def enter_state_def)
  next
    case False
    with seqs entered(4) show ?thesis by (simp add: target_ok_def enter_state_def)
  qed
qed

lemma rollback_succeeds:
  assumes "migrating (GetState fsm)" "Rollback now reason fsm c = (err, fsm', c')"
  shows "err = None"
  using assms by (auto simp: Rollback_def Transition_def set_target_def migrating_def GetState_def guards_def actions_def Let_def)

lemma target_ok_set: "target_ok (fsm_metadata fsm) \<Longrightarrow> \<not> migrating (GetState fsm) \<Longrightarrow> target_ok (fsm_metadata (set_target t fsm))"
  by (simp add: target_ok_def set_target_def GetState_def)

lemma target_ok_step:
  assumes "serial_call (tp, c) (tp', c')" "tp_fsm tp = Some fsm" "target_ok (fsm_metadata fsm)"
  shows "\<exists>fsm'. tp_fsm tp' = Some fsm' \<and> target_ok (fsm_metadata fsm')"
proof -
  note tr = target_ok_Transition [OF _ disjI1 [OF assms(3)]]
  from assms(1) show ?thesis
  proof (cases rule: serial_call_cases)
    case (start now nn req r)
    have "target_ok (fsm_metadata (set_target (tq_TargetOwner req) fsm))" if "GetState fsm = Owned"
      using that assms(3) by (intro target_ok_set) (simp_all add: migrating_def)
    with start assms(2,3) show ?thesis
      by (auto simp: StartTransfer_def StartMigration_def split: if_splits prod.splits option.splits dest!: target_ok_Transition)
  next
    case (rollback now reason err)
    then obtain fsm' where rb: "Rollback now reason fsm c = (err, fsm', c')" and tp': "tp_fsm tp' = Some fsm'"
      using assms(2) by (auto simp: RollbackTransfer_def split: prod.splits)
    have "target_ok (fsm_metadata fsm')"
    proof (cases "migrating (GetState fsm)")
      case True
      with rollback_succeeds [OF this rb] target_ok_Transition [OF rb [unfolded Rollback_def]] assms(3) show ?thesis
        by (simp add: migrating_def target_ok_def set_target_def)
    next
      case False
      with target_ok_Transition [OF rb [unfolded Rollback_def]] target_ok_set [OF assms(3)] show ?thesis by blast
    qed
    with tp' show ?thesis by blast
  qed (use assms(2,3) tr in
      \<open>auto simp: ApplyFreezeSignal_def CompleteFlushing_def ApplyTransferSignal_def CommitTransfer_def Freeze_def Flush_def
        Transfer_def Commit_def Recover_def UpdateLastProcessedSeq_def UpdateCheckpoint_def UpdateKafkaOffset_def target_ok_def Let_def
        split: if_splits prod.splits option.splits\<close>)
qed

section \<open>The calls of a migration\<close>

lemma start_transfer_ok:
  assumes "tp_fsm tp = Some fsm" "GetState fsm = Owned" "tq_TargetOwner req \<noteq> []" "\<not> IsOwner (tq_TargetOwner req) fsm"
    and "m1 = enter_state now Owned MigrationPending ''StartMigration'' ''protocol''
      ((fsm_metadata fsm)\<lparr>om_TargetOwner := tq_TargetOwner req, om_MigrationStartTime := now\<rparr>)"
  shows "\<exists>resp tp1 fsm1. StartTransfer now nn req tp c = (Inr resp, tp1, c) \<and> tr_Accepted resp \<and> tp_fsm tp1 = Some fsm1 \<and>
    fsm_metadata fsm1 = m1 \<and> fsm_transferCoordinator fsm1 = fsm_transferCoordinator fsm \<and>
    fsm_migrationTimeout fsm1 = fsm_migrationTimeout fsm"
  using assms by (simp add: StartTransfer_def StartMigration_def Transition_def set_target_def guards_def actions_def
      GetState_def IsOwner_def Let_def)

lemma freeze_ok:
  assumes "tp_fsm tp = Some fsm" "GetState fsm = MigrationPending"
    and "i64 (now - om_MigrationStartTime (fsm_metadata fsm)) \<le> trunc (duration_Seconds (fsm_migrationTimeout fsm))"
    and "m1 = enter_state now MigrationPending Frozen ''Freeze'' (fs_SourceOwner sig) (fsm_metadata fsm)"
  shows "\<exists>tp1 fsm1. ApplyFreezeSignal now sig tp c = (None, tp1, c) \<and> tp_fsm tp1 = Some fsm1 \<and>
    fsm_metadata fsm1 = m1 \<and> fsm_transferCoordinator fsm1 = fsm_transferCoordinator fsm"
  using assms by (simp add: ApplyFreezeSignal_def Freeze_def Transition_def guards_def actions_def GetState_def Let_def)

lemma flush_ok:
  assumes "tp_fsm tp = Some fsm" "GetState fsm = Frozen"
    and "m1 = enter_state now Frozen Flushing ''Flush'' source (fsm_metadata fsm)"
  shows "\<exists>ack tp1 fsm1. CompleteFlushing now nn source tp c = (Inr ack, tp1, c) \<and>
    fa_CheckpointSeq ack = om_CheckpointSeq (fsm_metadata fsm) \<and> tp_fsm tp1 = Some fsm1 \<and>
    fsm_metadata fsm1 = m1 \<and> fsm_transferCoordinator fsm1 = fsm_transferCoordinator fsm"
  using assms by (simp add: CompleteFlushing_def Flush_def Transition_def guards_def actions_def GetState_def Let_def
      GetMetadata_def enter_state_def)

lemma transfer_ok:
  assumes "tp_fsm tp = Some fsm" "GetState fsm = Flushing" "fsm_transferCoordinator fsm = Some tc"
    and "om_CheckpointSeq (fsm_metadata fsm) \<le> om_LastProcessedSeq (fsm_metadata fsm)"
    and "tc_InitiateTransfer tc (om_PartitionID (fsm_metadata fsm)) (om_CurrentOwner (fsm_metadata fsm))
      (om_TargetOwner (fsm_metadata fsm)) (om_CheckpointSeq (fsm_metadata fsm)) c = (Inr tid, c1)"
    and "m1 = enter_state now Flushing Transferring ''Transfer'' (ts_SourceOwner sig) ((fsm_metadata fsm)\<lparr>om_TransferID := tid\<rparr>)"
  shows "\<exists>tp1 fsm1. ApplyTransferSignal now sig tp c = (None, tp1, c1) \<and> tp_fsm tp1 = Some fsm1 \<and>
    fsm_metadata fsm1 = m1 \<and> fsm_transferCoordinator fsm1 = Some tc"
  using assms by (simp add: ApplyTransferSignal_def Transfer_def Transition_def guards_def actions_def GetState_def Let_def)

lemma commit_ready:
  assumes "tp_fsm tp = Some fsm" "GetState fsm = Transferring" "fsm_transferCoordinator fsm = Some tc"
    and "om_TransferID (fsm_metadata fsm) = tid" "tid \<noteq> []" "tc_IsTargetReady tc tid c = Inr b"
  shows "b \<longrightarrow> (\<exists>tp1 fsm1. CommitTransfer now t tp c = (None, tp1, c) \<and> tp_fsm tp1 = Some fsm1 \<and>
      GetState fsm1 = Standby \<and> IsOwner (om_TargetOwner (fsm_metadata fsm)) fsm1)"
    and "\<not> b \<longrightarrow> (\<exists>err. CommitTransfer now t tp c = (Some err, tp, c))"
  using assms by (auto simp: CommitTransfer_def Commit_def Transition_def guards_def actions_def GetState_def IsOwner_def
      enter_state_def Let_def)

section \<open>Properties\<close>

text \<open>
  C34. The protocol keeps the invariants it checks, as long as its calls are made one after the other: after
  any sequence of complete calls of the protocol and of progress updates, \<open>ValidateTransferInvariants\<close> can
  complain about nothing but an empty map of Kafka offsets while flushing or transferring, and a migration
  under way has a target that is not the owner. Calls that overlap are not covered; they can break this.
\<close>

theorem protocol_invariants:
  assumes "serial_call\<^sup>*\<^sup>* (NewTransferProtocol (Some (NewOwnershipStateMachine tc now p owner symbols)), c) (tp, c')"
  shows "\<exists>fsm. tp_fsm tp = Some fsm \<and>
    (GetState fsm \<in> {MigrationPending, Frozen, Flushing, Transferring} \<longrightarrow>
       om_TargetOwner (fsm_metadata fsm) \<noteq> [] \<and> \<not> IsOwner (om_TargetOwner (fsm_metadata fsm)) fsm) \<and>
    (ValidateTransferInvariants tp \<noteq> None \<longrightarrow>
       ValidateTransferInvariants tp = Some ''invariant violation: KafkaOffset empty during transfer'' \<and>
       GetState fsm \<in> {Flushing, Transferring} \<and> om_KafkaOffset (fsm_metadata fsm) = Map.empty)"
proof -
  have "\<exists>fsm. tp_fsm tp = Some fsm \<and> target_ok (fsm_metadata fsm)"
    using assms
  proof (induction rule: rtranclp_induct2)
    case refl
    then show ?case by (simp add: NewTransferProtocol_def NewOwnershipStateMachine_def target_ok_def migrating_def)
  next
    case (step tp1 c1 tp2 c2)
    then show ?case using target_ok_step [OF step(2)] by blast
  qed
  then show ?thesis
    by (auto simp: ValidateTransferInvariants_def GetMetadata_def GetState_def IsOwner_def target_ok_def migrating_def Let_def)
qed

theorem protocol_invariants_witness:
  "\<exists>tp fsm. StartTransfer 1 0 \<lparr>tq_PartitionID = ''p'', tq_SourceOwner = ''n1'', tq_TargetOwner = ''n2'', tq_TimeoutMs = 0,
       tq_MaxRetries = 0, tq_RequestTime = 0, tq_RequestID = ''r''\<rparr> (NewTransferProtocol (Some demo_fsm)) () =
       (Inr \<lparr>tr_Accepted = True, tr_Reason = [], tr_CheckpointSeq = 0, tr_ResponseTime = 0, tr_RequestID = ''r''\<rparr>, tp, ()) \<and>
     tp_fsm tp = Some fsm \<and> GetState fsm = MigrationPending \<and> \<not> IsOwner (om_TargetOwner (fsm_metadata fsm)) fsm"
proof -
  let ?req = "\<lparr>tq_PartitionID = ''p'', tq_SourceOwner = ''n1'', tq_TargetOwner = ''n2'', tq_TimeoutMs = 0,
       tq_MaxRetries = 0, tq_RequestTime = 0, tq_RequestID = ''r''\<rparr>"
  obtain tp where s: "StartTransfer 1 0 ?req (NewTransferProtocol (Some demo_fsm)) () =
       (Inr \<lparr>tr_Accepted = True, tr_Reason = [], tr_CheckpointSeq = 0, tr_ResponseTime = 0, tr_RequestID = ''r''\<rparr>, tp, ())"
    and st: "\<forall>fsm. tp_fsm tp = Some fsm \<longrightarrow> GetState fsm = MigrationPending"
    by (simp add: StartTransfer_def NewTransferProtocol_def GetState_def demo_fsm_defs GetMetadata_def)
  have "serial_call\<^sup>*\<^sup>* (NewTransferProtocol (Some demo_fsm), ()) (tp, ())"
    using serial_call.start [OF s] by blast
  from protocol_invariants [OF this [unfolded demo_fsm_def]] s st show ?thesis by auto
qed

text \<open>
  C33. A migration that is carried out completes: with a coordinator that keeps its contract, an owned
  partition, a target other than the owner, a freeze within the timeout and a database that answers,
  each call of the protocol succeeds in turn; the commit is refused as long as the target has not
  marked the transfer completed, and once it has, the commit makes the target the owner.
\<close>

theorem migration_completes:
  fixes tc :: "'c TransferCoordinator" and fsm :: "('c, 'n) OwnershipStateMachine"
  assumes "transfer_coordinator tc recs" "tp_fsm tp = Some fsm" "fsm_transferCoordinator fsm = Some tc" "GetState fsm = Owned"
    and "om_CheckpointSeq (fsm_metadata fsm) \<le> om_LastProcessedSeq (fsm_metadata fsm)"
    and "tq_TargetOwner req \<noteq> []" "\<not> IsOwner (tq_TargetOwner req) fsm"
    and "i64 (t2 - t1) \<le> trunc (duration_Seconds (fsm_migrationTimeout fsm))"
    and "tc_InitiateTransfer tc (om_PartitionID (fsm_metadata fsm)) (om_CurrentOwner (fsm_metadata fsm)) (tq_TargetOwner req)
      (om_CheckpointSeq (fsm_metadata fsm)) c = (Inr tid, c1)"
    and "tc_MarkTransferCompleted tc tid c1 = (None, c2)" "tc_IsTargetReady tc tid c1 = Inr b1" "tc_IsTargetReady tc tid c2 = Inr b2"
  shows "\<exists>resp ack tp1 tp2 tp3 tp4 tp5 fsm5 err. StartTransfer t1 nn req tp c = (Inr resp, tp1, c) \<and> tr_Accepted resp \<and>
    ApplyFreezeSignal t2 fsig tp1 c = (None, tp2, c) \<and> CompleteFlushing t3 nn source tp2 c = (Inr ack, tp3, c) \<and>
    ApplyTransferSignal t4 tsig tp3 c = (None, tp4, c1) \<and> CommitTransfer t5 target tp4 c1 = (Some err, tp4, c1) \<and>
    CommitTransfer t6 target tp4 c2 = (None, tp5, c2) \<and> tp_fsm tp5 = Some fsm5 \<and> GetState fsm5 = Standby \<and>
    IsOwner (tq_TargetOwner req) fsm5"
proof -
  have tid: "tid \<noteq> []" "\<not> b1" b2
    using transfer_coordinator.initiate_done [OF assms(1,9)] transfer_coordinator.ready_iff_marked [OF assms(1,9)] assms(10-12)
    by blast+
  obtain resp tp1 fsm1 where 1: "StartTransfer t1 nn req tp c = (Inr resp, tp1, c)" "tr_Accepted resp" "tp_fsm tp1 = Some fsm1"
    "fsm_transferCoordinator fsm1 = Some tc" "fsm_migrationTimeout fsm1 = fsm_migrationTimeout fsm"
    "fsm_metadata fsm1 = enter_state t1 Owned MigrationPending ''StartMigration'' ''protocol''
      ((fsm_metadata fsm)\<lparr>om_TargetOwner := tq_TargetOwner req, om_MigrationStartTime := t1\<rparr>)"
    using start_transfer_ok [OF assms(2,4,6,7) refl, of t1 nn c] assms(3) by auto
  obtain tp2 fsm2 where 2: "ApplyFreezeSignal t2 fsig tp1 c = (None, tp2, c)" "tp_fsm tp2 = Some fsm2"
    "fsm_transferCoordinator fsm2 = Some tc"
    "fsm_metadata fsm2 = enter_state t2 MigrationPending Frozen ''Freeze'' (fs_SourceOwner fsig) (fsm_metadata fsm1)"
    using freeze_ok [OF 1(3) _ _ refl, of t2 fsig c] 1(4-6) assms(8) by (auto simp: GetState_def enter_state_def)
  obtain ack tp3 fsm3 where 3: "CompleteFlushing t3 nn source tp2 c = (Inr ack, tp3, c)" "tp_fsm tp3 = Some fsm3"
    "fsm_transferCoordinator fsm3 = Some tc" "fsm_metadata fsm3 = enter_state t3 Frozen Flushing ''Flush'' source (fsm_metadata fsm2)"
    using flush_ok [OF 2(2) _ refl, of t3 nn source c] 2(3,4) by (auto simp: GetState_def enter_state_def)
  obtain tp4 fsm4 where 4: "ApplyTransferSignal t4 tsig tp3 c = (None, tp4, c1)" "tp_fsm tp4 = Some fsm4"
    "fsm_transferCoordinator fsm4 = Some tc"
    "fsm_metadata fsm4 = enter_state t4 Flushing Transferring ''Transfer'' (ts_SourceOwner tsig) ((fsm_metadata fsm3)\<lparr>om_TransferID := tid\<rparr>)"
    using transfer_ok [OF 3(2) _ 3(3) _ _ refl, of c tid c1 t4 tsig] 1(6) 2(4) 3(4) assms(5,9)
    by (auto simp: GetState_def enter_state_def)
  have fsm4: "GetState fsm4 = Transferring" "om_TransferID (fsm_metadata fsm4) = tid"
    "om_TargetOwner (fsm_metadata fsm4) = tq_TargetOwner req"
    using 1(6) 2(4) 3(4) 4(4) by (simp_all add: GetState_def enter_state_def)
  obtain err where 5: "CommitTransfer t5 target tp4 c1 = (Some err, tp4, c1)"
    using commit_ready(2) [OF 4(2) fsm4(1) 4(3) fsm4(2) tid(1) assms(11), of t5 target] tid(2) by blast
  obtain tp5 fsm5 where "CommitTransfer t6 target tp4 c2 = (None, tp5, c2)" "tp_fsm tp5 = Some fsm5"
    "GetState fsm5 = Standby" "IsOwner (tq_TargetOwner req) fsm5"
    using commit_ready(1) [OF 4(2) fsm4(1) 4(3) fsm4(2) tid(1) assms(12), of t6 target] tid(3) fsm4(3) by auto
  with 1(1,2) 2(1) 3(1) 4(1) 5 show ?thesis by blast
qed

definition demo_request :: TransferRequest where
  "demo_request = \<lparr>tq_PartitionID = ''p'', tq_SourceOwner = ''n1'', tq_TargetOwner = ''n2'', tq_TimeoutMs = 0,
     tq_MaxRetries = 0, tq_RequestTime = 0, tq_RequestID = ''r''\<rparr>"

definition demo_recorded :: "(transfer_rows, unit) OwnershipStateMachine" where
  "demo_recorded = NewOwnershipStateMachine (Some (DBTransferCoordinator memory_transfers)) 0 ''p'' ''n1'' [''BTC'']"

definition demo_freeze :: FreezeSignal where
  "demo_freeze = \<lparr>fs_PartitionID = ''p'', fs_FreezeTimestamp = 0, fs_FreezeTime = 0, fs_SourceOwner = ''n1''\<rparr>"

definition demo_signal :: TransferSignal where
  "demo_signal = \<lparr>ts_PartitionID = ''p'', ts_SourceOwner = ''n1'', ts_TargetOwner = ''n2'', ts_StartFromSeq = 0,
     ts_StartFromCheckpoint = 0, ts_KafkaOffsets = Map.empty, ts_TransferTime = 0, ts_RequestID = ''r''\<rparr>"

lemma demo_transfer:
  assumes "InitiateTransfer memory_transfers ''p'' ''n1'' ''n2'' 0 ([], 7) = (r, c1)"
  shows "r = Inr (show_nat 1) \<and> (\<exists>c2. MarkTransferCompleted memory_transfers (show_nat 1) c1 = (None, c2) \<and>
    (\<exists>b1. IsTargetReady memory_transfers (show_nat 1) c1 = Inr b1) \<and> (\<exists>b2. IsTargetReady memory_transfers (show_nat 1) c2 = Inr b2))"
proof -
  have "sscanf_uint (show_nat 1) = Inr 1" by (rule sscanf_show_nat) simp
  then show ?thesis
    using assms by (auto simp: InitiateTransfer_def memory_transfers_def next_id_def Let_def MarkTransferCompleted_def
        GetTransfer_def IsTargetReady_def)
qed

theorem migration_completes_witness:
  "\<exists>resp ack tp1 tp2 tp3 tp4 tp5 fsm5 err c1 c2. StartTransfer 1 0 demo_request (NewTransferProtocol (Some demo_recorded)) ([], 7) =
       (Inr resp, tp1, ([], 7)) \<and> ApplyFreezeSignal 5 demo_freeze tp1 ([], 7) = (None, tp2, ([], 7)) \<and>
     CompleteFlushing 6 0 ''n1'' tp2 ([], 7) = (Inr ack, tp3, ([], 7)) \<and> ApplyTransferSignal 7 demo_signal tp3 ([], 7) = (None, tp4, c1) \<and>
     CommitTransfer 8 ''n2'' tp4 c1 = (Some err, tp4, c1) \<and> CommitTransfer 9 ''n2'' tp4 c2 = (None, tp5, c2) \<and>
     tp_fsm tp5 = Some fsm5 \<and> IsOwner ''n2'' fsm5"
proof -
  obtain r c1 where "InitiateTransfer memory_transfers ''p'' ''n1'' ''n2'' 0 ([], 7) = (r, c1)" by (rule prod.exhaust)
  note i = this demo_transfer [OF this]
  then obtain c2 b1 b2 where mk: "MarkTransferCompleted memory_transfers (show_nat 1) c1 = (None, c2)"
    "IsTargetReady memory_transfers (show_nat 1) c1 = Inr b1" "IsTargetReady memory_transfers (show_nat 1) c2 = Inr b2"
    by blast
  let ?tc = "DBTransferCoordinator memory_transfers"
  have calls: "tc_InitiateTransfer ?tc ''p'' ''n1'' ''n2'' 0 ([], 7) = (Inr (show_nat 1), c1)"
    "tc_MarkTransferCompleted ?tc (show_nat 1) c1 = (None, c2)" "tc_IsTargetReady ?tc (show_nat 1) c1 = Inr b1"
    "tc_IsTargetReady ?tc (show_nat 1) c2 = Inr b2"
    using i mk by (simp_all add: DBTransferCoordinator_def)
  have fsm: "tp_fsm (NewTransferProtocol (Some demo_recorded)) = Some demo_recorded" "fsm_transferCoordinator demo_recorded = Some ?tc"
    "GetState demo_recorded = Owned" "om_CheckpointSeq (fsm_metadata demo_recorded) = 0" "om_LastProcessedSeq (fsm_metadata demo_recorded) = 0"
    "om_PartitionID (fsm_metadata demo_recorded) = ''p''" "om_CurrentOwner (fsm_metadata demo_recorded) = ''n1''"
    "fsm_migrationTimeout demo_recorded = 30000000000" "tq_TargetOwner demo_request = ''n2''" "\<not> IsOwner ''n2'' demo_recorded"
    by (simp_all add: NewTransferProtocol_def demo_recorded_def NewOwnershipStateMachine_def GetState_def demo_request_def IsOwner_def)
  show ?thesis
    using migration_completes [OF mem_transfers.co.transfer_coordinator_axioms fsm(1-3), of demo_request 5 1 "([], 7)" "show_nat 1" c1 c2 b1 b2
        0 demo_freeze 6 "''n1''" 7 demo_signal 8 "''n2''" 9] calls
    by (simp add: fsm default_timeout i64_def del: split_paired_Ex) blast
qed

end
