(* ===== verification/Sha256.thy ===== *)
theory Sha256
  imports Prelude
begin

text \<open>
  \<^verbatim>\<open>crypto/sha256\<close> and \<^verbatim>\<open>encoding/hex\<close> of Go's standard library, as far as the state snapshots
  use them: the digest of a byte string (FIPS 180-4) and its hexadecimal form. A Go string is a list
  of bytes, which are the characters of the model.
\<close>

unbundle bit_operations_syntax

type_synonym u32 = "32 word"

section \<open>Constants\<close>

text \<open>
  The constants are the first 32 fractional bits of the cube roots of the first 64 primes and of the
  square roots of the first eight. A composite number up to 311 has a divisor up to 17.
\<close>

definition sha256_primes :: "int list" where
  "sha256_primes = filter (\<lambda>p. list_all (\<lambda>d. p \<le> d \<or> p mod d \<noteq> 0) [2..17]) [2..311]"

text \<open>The integer part of a root, bit by bit from the highest.\<close>

fun root_bits :: "nat \<Rightarrow> nat \<Rightarrow> int \<Rightarrow> int \<Rightarrow> int" where
  "root_bits 0 k n r = r"
| "root_bits (Suc b) k n r = root_bits b k n (if (r + 2 ^ b) ^ k \<le> n then r + 2 ^ b else r)"

definition root_fraction :: "nat \<Rightarrow> int \<Rightarrow> u32" where
  "root_fraction k p = of_int (root_bits 35 k (p * 2 ^ (32 * k)) 0 mod 2 ^ 32)"

definition sha256_K :: "u32 list" where
  "sha256_K = map (root_fraction 3) sha256_primes"

definition sha256_init :: "u32 list" where
  "sha256_init = map (root_fraction 2) (take 8 sha256_primes)"

lemma root_bits_bound:
  assumes "0 \<le> r" "r ^ k \<le> n" "n < (r + 2 ^ b) ^ k"
  shows "root_bits b k n r ^ k \<le> n \<and> n < (root_bits b k n r + 1) ^ k"
  using assms
proof (induction b arbitrary: r)
  case (Suc b)
  have "r + 2 ^ Suc b = r + 2 ^ b + 2 ^ b" by simp
  with Suc.prems(3) have "n < (r + 2 ^ b + 2 ^ b) ^ k" by (simp only:)
  with Suc.IH [of "r + 2 ^ b"] Suc.IH [of r] Suc.prems(1,2) show ?case by (simp add: add_nonneg_nonneg not_le)
qed simp

definition byte_word :: "char \<Rightarrow> u32" where
  "byte_word c = of_nat (of_char c)"

section \<open>Padding and blocks\<close>

definition be_bytes :: "nat \<Rightarrow> int \<Rightarrow> u32 list" where
  "be_bytes k n = map (\<lambda>i. of_int (n div 256 ^ (k - Suc i) mod 256)) [0..<k]"

definition sha256_pad :: "string \<Rightarrow> u32 list" where
  "sha256_pad s =
     (let n = length s
      in map byte_word s @ [0x80] @ replicate ((119 - n mod 64) mod 64) 0 @ be_bytes 8 (8 * int n mod 2 ^ 64))"

fun words_of :: "u32 list \<Rightarrow> u32 list" where
  "words_of (a # b # c # d # bs) = (push_bit 24 a OR push_bit 16 b OR push_bit 8 c OR d) # words_of bs"
| "words_of bs = []"

fun blocks :: "nat \<Rightarrow> u32 list \<Rightarrow> u32 list list" where
  "blocks 0 ws = []"
| "blocks (Suc k) ws = take 16 ws # blocks k (drop 16 ws)"

section \<open>Compression\<close>

definition sigma :: "nat \<Rightarrow> nat \<Rightarrow> nat \<Rightarrow> u32 \<Rightarrow> u32" where
  "sigma a b c x = (word_rotr a x XOR word_rotr b x) XOR drop_bit c x"

definition Sigma256 :: "nat \<Rightarrow> nat \<Rightarrow> nat \<Rightarrow> u32 \<Rightarrow> u32" where
  "Sigma256 a b c x = (word_rotr a x XOR word_rotr b x) XOR word_rotr c x"

text \<open>The message schedule, with the last sixteen words in reverse order at the front.\<close>

fun extend :: "nat \<Rightarrow> u32 list \<Rightarrow> u32 list" where
  "extend 0 ws = rev ws"
| "extend (Suc k) ws = extend k ((sigma 17 19 10 (ws ! 1) + ws ! 6 + sigma 7 18 3 (ws ! 14) + ws ! 15) # ws)"

fun sha256_round :: "u32 list \<Rightarrow> u32 \<times> u32 \<Rightarrow> u32 list" where
  "sha256_round [a, b, c, d, e, f, g, h] (k, w) =
     (let t1 = h + Sigma256 6 11 25 e + ((e AND f) XOR (NOT e AND g)) + k + w;
          t2 = Sigma256 2 13 22 a + (((a AND b) XOR (a AND c)) XOR (b AND c))
      in [t1 + t2, a, b, c, d + t1, e, f, g])"
| "sha256_round st kw = st"

definition compress :: "u32 list \<Rightarrow> u32 list \<Rightarrow> u32 list" where
  "compress h ws = map2 (+) h (foldl sha256_round h (zip sha256_K (extend 48 (rev ws))))"

definition sha256 :: "string \<Rightarrow> u32 list" where
  "sha256 s =
     (let bs = sha256_pad s in foldl compress sha256_init (blocks (length bs div 64) (words_of bs)))"

section \<open>Hexadecimal\<close>

definition hex_digit :: "nat \<Rightarrow> char" where
  "hex_digit d = (if d < 10 then digit d else char_of (87 + d))"

definition hex_word :: "u32 \<Rightarrow> string" where
  "hex_word w = map (\<lambda>i. hex_digit (nat (uint w div 16 ^ (7 - i) mod 16))) [0..<8]"

definition sha256_hex :: "string \<Rightarrow> string" where
  "sha256_hex s = concat (map hex_word (sha256 s))"

lemma length_sha256_round: "length st = 8 \<Longrightarrow> length (sha256_round st kw) = 8"
  by (induction st kw rule: sha256_round.induct) (simp_all add: Let_def)

lemma length_primes: "8 \<le> length sha256_primes"
proof -
  have "length sha256_primes = 64" by code_simp
  then show ?thesis by simp
qed

lemma length_sha256: "length (sha256 s) = 8"
proof -
  have rounds: "length (foldl sha256_round h kws) = 8" if "length h = 8" for h kws
    using that by (induction kws arbitrary: h) (simp_all add: length_sha256_round)
  have "length (foldl compress h bs) = 8" if "length h = 8" for h bs
    using that by (induction bs arbitrary: h) (simp_all add: compress_def rounds)
  then show ?thesis by (simp add: sha256_def Let_def sha256_init_def length_primes)
qed

lemma length_sha256_hex: "length (sha256_hex s) = 64"
proof -
  have "length (concat (map hex_word ws)) = 8 * length ws" for ws
    by (induction ws) (simp_all add: hex_word_def)
  then show ?thesis by (simp add: sha256_hex_def length_sha256)
qed

text \<open>The test vector of the standard.\<close>

lemma sha256_abc: "sha256_hex ''abc'' = ''ba7816bf8f01cfea414140de5dae2223b00361a396177a9cb410ff61f20015ad''"
  by code_simp

end
