(* ===== verification/StateSnapshot.thy ===== *)
theory StateSnapshot
  imports Sha256
begin

text \<open>
  \<^verbatim>\<open>src/biz/service/state_snapshot.go\<close>: snapshots of the state before a crash and after the
  recovery, their checksums and their comparison. A Go map is a list of its entries, with distinct
  keys, in the order the runtime ranges over it.
\<close>

type_synonym ('k, 'v) gomap = "('k \<times> 'v) list"

section \<open>Snapshots\<close>

record OrderSnapshot =
  so_OrderID :: string
  so_UserID :: string
  so_Symbol :: string
  so_Side :: string
  so_Price :: int
  so_Quantity :: int
  so_FilledQty :: int
  so_Status :: string
  so_CreatedAt :: int
  so_UpdatedAt :: int

record TradeSnapshot =
  sx_TradeID :: string
  sx_BuyerID :: string
  sx_SellerID :: string
  sx_Symbol :: string
  sx_Price :: int
  sx_Quantity :: int
  sx_CreatedAt :: int

record PositionSnapshot =
  sp_UserID :: string
  sp_Symbol :: string
  sp_QuantityHeld :: int
  sp_CostBase :: int
  sp_RealizedPnl :: int
  sp_UnrealizedPnl :: int
  sp_UpdatedAt :: int

record OrderBookSnapshot =
  sb_Symbol :: string
  sb_LastTradePrice :: int
  sb_BidBook :: "(int, int) gomap"
  sb_AskBook :: "(int, int) gomap"
  sb_BestBid :: int
  sb_BestAsk :: int
  sb_BidDepth :: int
  sb_AskDepth :: int
  sb_Spread :: int

record StateSnapshot =
  ss_Timestamp :: int
  ss_Orders :: "(string, OrderSnapshot) gomap"
  ss_Trades :: "(string, TradeSnapshot) gomap"
  ss_Positions :: "(string, PositionSnapshot) gomap"
  ss_OrderBook :: "OrderBookSnapshot option"
  ss_Checksum :: string
  ss_EventCount :: int
  ss_OrderCount :: int
  ss_TradeCount :: int
  ss_PositionCount :: int

section \<open>The checksum\<close>

text \<open>The values of a map in the order of its sorted keys.\<close>

definition entries :: "('k :: linorder, 'v) gomap \<Rightarrow> 'v list" where
  "entries m = map (\<lambda>k. the (map_of m k)) (sort (map fst m))"

definition priced :: "(int, int) gomap \<Rightarrow> (int \<times> int) list" where
  "priced m = map (\<lambda>p. (p, the (map_of m p))) (sort (map fst m))"

text \<open>Each \<^verbatim>\<open>Fprintf\<close> writes its fields with colons between them and a bar at the end.\<close>

fun join_colon :: "string list \<Rightarrow> string" where
  "join_colon [] = []"
| "join_colon [f] = f"
| "join_colon (f # fs) = f @ CHR '':'' # join_colon fs"

definition record_line :: "string list \<Rightarrow> string" where
  "record_line fs = join_colon fs @ ''|''"

definition order_record :: "OrderSnapshot \<Rightarrow> string list" where
  "order_record e = [''O'', so_OrderID e, so_UserID e, so_Symbol e, so_Side e,
     show_int (so_Price e), show_int (so_Quantity e), show_int (so_FilledQty e), so_Status e]"

definition trade_record :: "TradeSnapshot \<Rightarrow> string list" where
  "trade_record e = [''T'', sx_TradeID e, sx_BuyerID e, sx_SellerID e, sx_Symbol e,
     show_int (sx_Price e), show_int (sx_Quantity e)]"

definition position_record :: "PositionSnapshot \<Rightarrow> string list" where
  "position_record e = [''P'', sp_UserID e, sp_Symbol e, show_int (sp_QuantityHeld e),
     show_int (sp_CostBase e), show_int (sp_RealizedPnl e), show_int (sp_UnrealizedPnl e)]"

definition level_record :: "string \<Rightarrow> int \<times> int \<Rightarrow> string list" where
  "level_record tag pq = [tag, show_int (fst pq), show_int (snd pq)]"

definition book_records :: "OrderBookSnapshot option \<Rightarrow> string list list" where
  "book_records ob =
     (case ob of
        None \<Rightarrow> []
      | Some b \<Rightarrow>
          [''B'', sb_Symbol b, show_int (sb_LastTradePrice b), show_int (sb_BestBid b), show_int (sb_BestAsk b)] #
          map (level_record ''BB'') (priced (sb_BidBook b)) @ map (level_record ''AB'') (priced (sb_AskBook b)))"

definition snapshot_records :: "StateSnapshot \<Rightarrow> string list list" where
  "snapshot_records s =
     map order_record (entries (ss_Orders s)) @ map trade_record (entries (ss_Trades s)) @
     map position_record (entries (ss_Positions s)) @ book_records (ss_OrderBook s) @
     [[''C'', show_int (ss_EventCount s), show_int (ss_OrderCount s), show_int (ss_TradeCount s), show_int (ss_PositionCount s)]]"

definition canonical :: "StateSnapshot \<Rightarrow> string" where
  "canonical s = concat (map record_line (snapshot_records s))"

definition CalculateChecksum :: "StateSnapshot \<Rightarrow> string \<times> StateSnapshot" where
  "CalculateChecksum s = (let sum = sha256_hex (canonical s) in (sum, s\<lparr>ss_Checksum := sum\<rparr>))"

section \<open>Differences\<close>

record CountMismatch =
  cx_Field :: string
  cx_Expected :: int
  cx_Actual :: int

datatype any_value = Int64 int | Str string

record OrderChange =
  ox_OrderID :: string
  ox_Field :: string
  ox_Expected :: any_value
  ox_Actual :: any_value

record PositionChange =
  pc_UserID :: string
  pc_Field :: string
  pc_Expected :: int
  pc_Actual :: int

record OrderBookDiff =
  od_BestBidMismatch :: bool
  od_BestAskMismatch :: bool
  od_BidDepthMismatch :: bool
  od_AskDepthMismatch :: bool
  od_SpreadMismatch :: bool
  od_PreBestBid :: int
  od_PostBestBid :: int
  od_PreBestAsk :: int
  od_PostBestAsk :: int
  od_PreBidDepth :: int
  od_PostBidDepth :: int
  od_PreAskDepth :: int
  od_PostAskDepth :: int
  od_PreSpread :: int
  od_PostSpread :: int

record SnapshotDiff =
  sd_PreChecksum :: string
  sd_PostChecksum :: string
  sd_IsIdentical :: bool
  sd_Timestamp :: int
  sd_EventCountMismatch :: "CountMismatch option"
  sd_OrderCountMismatch :: "CountMismatch option"
  sd_TradeCountMismatch :: "CountMismatch option"
  sd_PositionCountMismatch :: "CountMismatch option"
  sd_MissingOrders :: "string list"
  sd_ExtraOrders :: "string list"
  sd_ChangedOrders :: "OrderChange list"
  sd_MissingTrades :: "string list"
  sd_ExtraTrades :: "string list"
  sd_MissingPositions :: "string list"
  sd_ExtraPositions :: "string list"
  sd_ChangedPositions :: "PositionChange list"
  sd_OrderBookDiff :: "OrderBookDiff option"

text \<open>The keys of the first map that the second does not have, sorted.\<close>

definition keys_without :: "(string, 'v) gomap \<Rightarrow> (string, 'v) gomap \<Rightarrow> string list" where
  "keys_without m m' = sort (filter (\<lambda>k. map_of m' k = None) (map fst m))"

definition findMissingOrders :: "(string, OrderSnapshot) gomap \<Rightarrow> (string, OrderSnapshot) gomap \<Rightarrow> string list" where
  "findMissingOrders pre post = keys_without pre post"

definition findExtraOrders :: "(string, OrderSnapshot) gomap \<Rightarrow> (string, OrderSnapshot) gomap \<Rightarrow> string list" where
  "findExtraOrders pre post = keys_without post pre"

definition findMissingTrades :: "(string, TradeSnapshot) gomap \<Rightarrow> (string, TradeSnapshot) gomap \<Rightarrow> string list" where
  "findMissingTrades pre post = keys_without pre post"

definition findExtraTrades :: "(string, TradeSnapshot) gomap \<Rightarrow> (string, TradeSnapshot) gomap \<Rightarrow> string list" where
  "findExtraTrades pre post = keys_without post pre"

definition findMissingPositions :: "(string, PositionSnapshot) gomap \<Rightarrow> (string, PositionSnapshot) gomap \<Rightarrow> string list" where
  "findMissingPositions pre post = keys_without pre post"

definition findExtraPositions :: "(string, PositionSnapshot) gomap \<Rightarrow> (string, PositionSnapshot) gomap \<Rightarrow> string list" where
  "findExtraPositions pre post = keys_without post pre"

definition order_changes :: "string \<Rightarrow> OrderSnapshot \<Rightarrow> OrderSnapshot \<Rightarrow> OrderChange list" where
  "order_changes k a b =
     (let change = (\<lambda>f x y. if x \<noteq> y then [\<lparr>ox_OrderID = k, ox_Field = f, ox_Expected = x, ox_Actual = y\<rparr>] else [])
      in change ''Price'' (Int64 (so_Price a)) (Int64 (so_Price b)) @
         change ''Quantity'' (Int64 (so_Quantity a)) (Int64 (so_Quantity b)) @
         change ''FilledQty'' (Int64 (so_FilledQty a)) (Int64 (so_FilledQty b)) @
         change ''Status'' (Str (so_Status a)) (Str (so_Status b)))"

definition findChangedOrders :: "(string, OrderSnapshot) gomap \<Rightarrow> (string, OrderSnapshot) gomap \<Rightarrow> OrderChange list" where
  "findChangedOrders pre post =
     concat (map (\<lambda>(k, preOrder). case map_of post k of None \<Rightarrow> [] | Some postOrder \<Rightarrow> order_changes k preOrder postOrder) pre)"

definition position_changes :: "string \<Rightarrow> PositionSnapshot \<Rightarrow> PositionSnapshot \<Rightarrow> PositionChange list" where
  "position_changes k a b =
     (let change = (\<lambda>f x y. if x \<noteq> y then [\<lparr>pc_UserID = k, pc_Field = f, pc_Expected = x, pc_Actual = y\<rparr>] else [])
      in change ''QuantityHeld'' (sp_QuantityHeld a) (sp_QuantityHeld b) @
         change ''CostBase'' (sp_CostBase a) (sp_CostBase b) @
         change ''RealizedPnl'' (sp_RealizedPnl a) (sp_RealizedPnl b) @
         change ''UnrealizedPnl'' (sp_UnrealizedPnl a) (sp_UnrealizedPnl b))"

definition findChangedPositions :: "(string, PositionSnapshot) gomap \<Rightarrow> (string, PositionSnapshot) gomap \<Rightarrow> PositionChange list" where
  "findChangedPositions pre post =
     concat (map (\<lambda>(k, prePos). case map_of post k of None \<Rightarrow> [] | Some postPos \<Rightarrow> position_changes k prePos postPos) pre)"

definition compareOrderBooks :: "OrderBookSnapshot \<Rightarrow> OrderBookSnapshot \<Rightarrow> OrderBookDiff option" where
  "compareOrderBooks pre post =
     (let diff = \<lparr>od_BestBidMismatch = (sb_BestBid pre \<noteq> sb_BestBid post), od_BestAskMismatch = (sb_BestAsk pre \<noteq> sb_BestAsk post),
            od_BidDepthMismatch = (sb_BidDepth pre \<noteq> sb_BidDepth post), od_AskDepthMismatch = (sb_AskDepth pre \<noteq> sb_AskDepth post),
            od_SpreadMismatch = (sb_Spread pre \<noteq> sb_Spread post),
            od_PreBestBid = sb_BestBid pre, od_PostBestBid = sb_BestBid post,
            od_PreBestAsk = sb_BestAsk pre, od_PostBestAsk = sb_BestAsk post,
            od_PreBidDepth = sb_BidDepth pre, od_PostBidDepth = sb_BidDepth post,
            od_PreAskDepth = sb_AskDepth pre, od_PostAskDepth = sb_AskDepth post,
            od_PreSpread = sb_Spread pre, od_PostSpread = sb_Spread post\<rparr>
      in if \<not> od_BestBidMismatch diff \<and> \<not> od_BestAskMismatch diff \<and> \<not> od_BidDepthMismatch diff \<and>
            \<not> od_AskDepthMismatch diff \<and> \<not> od_SpreadMismatch diff
         then None else Some diff)"

definition count_mismatch :: "string \<Rightarrow> int \<Rightarrow> int \<Rightarrow> CountMismatch option" where
  "count_mismatch field expected actual =
     (if expected \<noteq> actual then Some \<lparr>cx_Field = field, cx_Expected = expected, cx_Actual = actual\<rparr> else None)"

definition CompareSnapshots ::
  "int \<Rightarrow> StateSnapshot \<Rightarrow> StateSnapshot \<Rightarrow> SnapshotDiff \<times> StateSnapshot \<times> StateSnapshot" where
  "CompareSnapshots now pre post =
     (let (preSum, pre') = CalculateChecksum pre; (postSum, post') = CalculateChecksum post;
          diff = \<lparr>sd_PreChecksum = preSum, sd_PostChecksum = postSum, sd_IsIdentical = False, sd_Timestamp = now,
            sd_EventCountMismatch = None, sd_OrderCountMismatch = None, sd_TradeCountMismatch = None,
            sd_PositionCountMismatch = None, sd_MissingOrders = [], sd_ExtraOrders = [], sd_ChangedOrders = [],
            sd_MissingTrades = [], sd_ExtraTrades = [], sd_MissingPositions = [], sd_ExtraPositions = [],
            sd_ChangedPositions = [], sd_OrderBookDiff = None\<rparr>
      in if preSum = postSum then (diff\<lparr>sd_IsIdentical := True\<rparr>, pre', post')
         else (diff\<lparr>
            sd_EventCountMismatch := count_mismatch ''EventCount'' (ss_EventCount pre) (ss_EventCount post),
            sd_OrderCountMismatch := count_mismatch ''OrderCount'' (ss_OrderCount pre) (ss_OrderCount post),
            sd_TradeCountMismatch := count_mismatch ''TradeCount'' (ss_TradeCount pre) (ss_TradeCount post),
            sd_PositionCountMismatch := count_mismatch ''PositionCount'' (ss_PositionCount pre) (ss_PositionCount post),
            sd_MissingOrders := findMissingOrders (ss_Orders pre) (ss_Orders post),
            sd_ExtraOrders := findExtraOrders (ss_Orders pre) (ss_Orders post),
            sd_ChangedOrders := findChangedOrders (ss_Orders pre) (ss_Orders post),
            sd_MissingTrades := findMissingTrades (ss_Trades pre) (ss_Trades post),
            sd_ExtraTrades := findExtraTrades (ss_Trades pre) (ss_Trades post),
            sd_MissingPositions := findMissingPositions (ss_Positions pre) (ss_Positions post),
            sd_ExtraPositions := findExtraPositions (ss_Positions pre) (ss_Positions post),
            sd_ChangedPositions := findChangedPositions (ss_Positions pre) (ss_Positions post),
            sd_OrderBookDiff := (case (ss_OrderBook pre, ss_OrderBook post) of
                (Some a, Some b) \<Rightarrow> compareOrderBooks a b | _ \<Rightarrow> None)\<rparr>, pre', post'))"

definition HasDifferences :: "SnapshotDiff \<Rightarrow> bool" where
  "HasDifferences d \<longleftrightarrow>
     \<not> sd_IsIdentical d \<or> sd_EventCountMismatch d \<noteq> None \<or> sd_OrderCountMismatch d \<noteq> None \<or>
     sd_TradeCountMismatch d \<noteq> None \<or> sd_PositionCountMismatch d \<noteq> None \<or>
     length (sd_MissingOrders d) > 0 \<or> length (sd_ExtraOrders d) > 0 \<or> length (sd_ChangedOrders d) > 0 \<or>
     length (sd_MissingTrades d) > 0 \<or> length (sd_ExtraTrades d) > 0 \<or>
     length (sd_MissingPositions d) > 0 \<or> length (sd_ExtraPositions d) > 0 \<or> length (sd_ChangedPositions d) > 0 \<or>
     sd_OrderBookDiff d \<noteq> None"

section \<open>The canonical form determines the records\<close>

definition plain :: "string \<Rightarrow> bool" where
  "plain s \<longleftrightarrow> CHR '':'' \<notin> set s \<and> CHR ''|'' \<notin> set s"

lemma plain_show_int [simp]: "plain (show_int i)"
  using show_int_chars [of "CHR '':''" i] show_int_chars [of "CHR ''|''" i] by (auto simp: plain_def)

lemma bar_join: "\<forall>f \<in> set fs. plain f \<Longrightarrow> CHR ''|'' \<notin> set (join_colon fs)"
  by (induction fs rule: join_colon.induct) (auto simp: plain_def)

lemma colon_join: "fs \<noteq> [] \<Longrightarrow> CHR '':'' \<in> set (join_colon fs) \<longleftrightarrow> length fs > 1 \<or> CHR '':'' \<in> set (hd fs)"
  by (induction fs rule: join_colon.induct) auto

lemma join_inject:
  "join_colon fs = join_colon gs \<Longrightarrow> fs \<noteq> [] \<Longrightarrow> gs \<noteq> [] \<Longrightarrow> \<forall>f \<in> set fs \<union> set gs. plain f \<Longrightarrow> fs = gs"
proof (induction fs arbitrary: gs rule: join_colon.induct)
  case (2 f)
  with colon_join [of gs] show ?case by (cases gs rule: join_colon.cases) (auto simp: plain_def)
next
  case (3 f f' fs)
  then obtain g g' gs' where gs: "gs = g # g' # gs'"
    using colon_join [of gs] by (cases gs rule: join_colon.cases) (auto simp: plain_def)
  with 3(2,5) have "f = g \<and> join_colon (f' # fs) = join_colon (g' # gs')"
    by (auto simp: plain_def append_sep_inject)
  with 3(1) [of "g' # gs'"] 3(5) gs show ?case by auto
qed simp

lemma record_lines_inject:
  "concat (map record_line rs) = concat (map record_line rs') \<Longrightarrow> \<forall>r \<in> set rs \<union> set rs'. r \<noteq> [] \<and> (\<forall>f \<in> set r. plain f) \<Longrightarrow> rs = rs'"
proof (induction rs arbitrary: rs')
  case Nil
  then show ?case by (cases rs') (auto simp: record_line_def)
next
  case (Cons r rs)
  then obtain r' rs1 where rs': "rs' = r' # rs1" by (cases rs') (auto simp: record_line_def)
  with Cons.prems have "join_colon r @ CHR ''|'' # concat (map record_line rs) = join_colon r' @ CHR ''|'' # concat (map record_line rs1)"
    by (simp add: record_line_def [of r] record_line_def [of r'])
  moreover have "CHR ''|'' \<notin> set (join_colon r)" "CHR ''|'' \<notin> set (join_colon r')"
    using Cons.prems(2) rs' by (auto intro!: bar_join)
  ultimately have "join_colon r = join_colon r'" "concat (map record_line rs) = concat (map record_line rs1)"
    by (simp_all add: append_sep_inject)
  with Cons.IH [of rs1] Cons.prems(2) rs' join_inject [of r r'] show ?case by (simp add: ball_Un)
qed

section \<open>Maps and their sorted entries\<close>

lemma map_of_keys: "k \<in> set (map fst m) \<longleftrightarrow> map_of m k \<noteq> None"
  by (metis dom_map_of_conv_image_fst domIff list.set_map)

lemma sorted_keys_eq:
  assumes "distinct (map fst m)" "distinct (map fst m')" "\<forall>k. map_of m k = None \<longleftrightarrow> map_of m' k = None"
  shows "sort (map fst m) = sort (map fst m')"
proof (rule sorted_distinct_set_unique)
  show "set (sort (map fst m)) = set (sort (map fst m'))"
    using assms(3) by (simp add: set_eq_iff map_of_keys del: set_map)
qed (use assms(1,2) in simp_all)

lemma entries_iff:
  assumes "distinct (map fst m)" "distinct (map fst m')" "\<forall>(k, v) \<in> set m \<union> set m'. ident v = k"
    and "\<And>v v'. g v = g v' \<Longrightarrow> ident v = ident v'"
  shows "map g (entries m) = map g (entries m') \<longleftrightarrow> (\<forall>k. map_option g (map_of m k) = map_option g (map_of m' k))"
proof
  have keyed: "map_of x k = Some v \<Longrightarrow> ident v = k" if "x = m \<or> x = m'" for x k v
    using assms(3) that map_of_SomeD [of x k v] by (elim disjE) (auto simp: ball_Un)
  have ids: "map ident (entries x) = sort (map fst x)" if "x = m \<or> x = m'" for x
  proof -
    have "ident (the (map_of x k)) = k" if "k \<in> set (sort (map fst x))" for k
      using that keyed [OF \<open>x = m \<or> x = m'\<close>, of k] map_of_keys [of k x] by auto
    then show ?thesis unfolding entries_def map_map by (intro map_idI) simp
  qed
  assume eq: "map g (entries m) = map g (entries m')"
  have "map ident (entries m) = map ident (entries m')"
    by (rule map_eq_mono [of g ident, OF _ eq]) (rule assms(4))
  with ids have keys: "sort (map fst m) = sort (map fst m')" by simp
  have "map (\<lambda>k. g (the (map_of m k))) (sort (map fst m)) = map (\<lambda>k. g (the (map_of m' k))) (sort (map fst m))"
    using eq unfolding entries_def keys by (simp only: map_map o_def)
  then have same: "g (the (map_of m k)) = g (the (map_of m' k))" if "k \<in> set (map fst m)" for k
    using that by (simp only: map_eq_conv set_sort)
  show "\<forall>k. map_option g (map_of m k) = map_option g (map_of m' k)"
  proof
    fix k
    have "map_of m k = None \<longleftrightarrow> map_of m' k = None"
      using keys map_of_keys [of k m] map_of_keys [of k m'] by (metis set_sort)
    with same [of k] map_of_keys [of k m] show "map_option g (map_of m k) = map_option g (map_of m' k)"
      by (cases "map_of m k"; cases "map_of m' k") auto
  qed
next
  assume eq: "\<forall>k. map_option g (map_of m k) = map_option g (map_of m' k)"
  then have "\<forall>k. map_of m k = None \<longleftrightarrow> map_of m' k = None" by (metis map_option_is_None)
  then have keys: "sort (map fst m) = sort (map fst m')" by (rule sorted_keys_eq [OF assms(1,2)])
  have "g (the (map_of m k)) = g (the (map_of m' k))" for k
    using eq [rule_format, of k] by (cases "map_of m k"; cases "map_of m' k") auto
  then show "map g (entries m) = map g (entries m')" using keys by (simp add: entries_def)
qed

lemma priced_iff:
  assumes "distinct (map fst m)" "distinct (map fst m')"
  shows "priced m = priced m' \<longleftrightarrow> map_of m = map_of m'"
proof
  assume eq: "priced m = priced m'"
  have fst: "map fst (priced x) = sort (map fst x)" for x by (simp add: priced_def o_def)
  have "map_of m p = map_of m' p" for p
  proof -
    have of: "map_of (priced x) p = map_of x p" for x
    proof (cases "p \<in> set (map fst x)")
      case True
      then obtain q where q: "map_of x p = Some q" using map_of_keys [of p x] by auto
      then have "(p, q) \<in> set (priced x)" using True by (force simp: priced_def)
      moreover have "(p, q') \<in> set (priced x) \<Longrightarrow> q' = q" for q' using q by (auto simp: priced_def)
      ultimately show ?thesis using q by (metis map_of_SomeD map_of_eq_None_iff option.exhaust weak_map_of_SomeI)
    next
      case False
      then have "p \<notin> set (map fst (priced x))" by (simp add: fst)
      with False show ?thesis by (metis map_of_keys)
    qed
    show ?thesis using of [of m] of [of m'] eq by simp
  qed
  then show "map_of m = map_of m'" by blast
next
  assume "map_of m = map_of m'"
  with sorted_keys_eq [OF assms] show "priced m = priced m'" by (simp add: priced_def)
qed

section \<open>When two snapshots are the same\<close>

definition keyed :: "('v \<Rightarrow> string) \<Rightarrow> (string, 'v) gomap \<Rightarrow> bool" where
  "keyed ident m \<longleftrightarrow> distinct (map fst m) \<and> (\<forall>(k, v) \<in> set m. ident v = k)"

lemma entries_keyed_iff:
  assumes "keyed ident m" "keyed ident m'" "\<And>v v'. g v = g v' \<Longrightarrow> ident v = ident v'"
  shows "map g (entries m) = map g (entries m') \<longleftrightarrow> (\<forall>k. map_option g (map_of m k) = map_option g (map_of m' k))"
proof (rule entries_iff [where ident = ident])
  show "\<forall>(k, v) \<in> set m \<union> set m'. ident v = k" using assms(1,2) by (auto simp: keyed_def)
qed (use assms(1,2) in \<open>simp_all only: keyed_def\<close>, rule assms(3))

text \<open>Maps keyed by the id of their entries, and no colon or bar in any string.\<close>

definition snapshot_ok :: "StateSnapshot \<Rightarrow> bool" where
  "snapshot_ok s \<longleftrightarrow> keyed so_OrderID (ss_Orders s) \<and> keyed sx_TradeID (ss_Trades s) \<and> keyed sp_UserID (ss_Positions s) \<and>
     (\<forall>b. ss_OrderBook s = Some b \<longrightarrow> distinct (map fst (sb_BidBook b)) \<and> distinct (map fst (sb_AskBook b))) \<and>
     (\<forall>r \<in> set (snapshot_records s). \<forall>f \<in> set r. plain f)"

text \<open>The fields a checksum covers.\<close>

definition order_core :: "OrderSnapshot \<Rightarrow> OrderSnapshot" where
  "order_core e = e\<lparr>so_CreatedAt := 0, so_UpdatedAt := 0\<rparr>"

definition trade_core :: "TradeSnapshot \<Rightarrow> TradeSnapshot" where
  "trade_core e = e\<lparr>sx_CreatedAt := 0\<rparr>"

definition position_core :: "PositionSnapshot \<Rightarrow> PositionSnapshot" where
  "position_core e = e\<lparr>sp_UpdatedAt := 0\<rparr>"

definition same_book :: "OrderBookSnapshot \<Rightarrow> OrderBookSnapshot \<Rightarrow> bool" where
  "same_book a b \<longleftrightarrow> sb_Symbol a = sb_Symbol b \<and> sb_LastTradePrice a = sb_LastTradePrice b \<and> sb_BestBid a = sb_BestBid b \<and>
     sb_BestAsk a = sb_BestAsk b \<and> map_of (sb_BidBook a) = map_of (sb_BidBook b) \<and> map_of (sb_AskBook a) = map_of (sb_AskBook b)"

definition same_state :: "StateSnapshot \<Rightarrow> StateSnapshot \<Rightarrow> bool" where
  "same_state s t \<longleftrightarrow>
     (\<forall>k. map_option order_core (map_of (ss_Orders s) k) = map_option order_core (map_of (ss_Orders t) k)) \<and>
     (\<forall>k. map_option trade_core (map_of (ss_Trades s) k) = map_option trade_core (map_of (ss_Trades t) k)) \<and>
     (\<forall>k. map_option position_core (map_of (ss_Positions s) k) = map_option position_core (map_of (ss_Positions t) k)) \<and>
     rel_option same_book (ss_OrderBook s) (ss_OrderBook t) \<and>
     ss_EventCount s = ss_EventCount t \<and> ss_OrderCount s = ss_OrderCount t \<and>
     ss_TradeCount s = ss_TradeCount t \<and> ss_PositionCount s = ss_PositionCount t"

lemma order_record_core: "order_record a = order_record b \<longleftrightarrow> order_core a = order_core b"
  by (cases a; cases b) (auto simp: order_record_def order_core_def)

lemma trade_record_core: "trade_record a = trade_record b \<longleftrightarrow> trade_core a = trade_core b"
  by (cases a; cases b) (auto simp: trade_record_def trade_core_def)

lemma position_record_core: "position_record a = position_record b \<longleftrightarrow> position_core a = position_core b"
  by (cases a; cases b) (auto simp: position_record_def position_core_def)

lemma core_sel [simp]:
  "so_OrderID (order_core a) = so_OrderID a" "sx_TradeID (trade_core x) = sx_TradeID x" "sp_UserID (position_core p) = sp_UserID p"
  by (simp_all add: order_core_def trade_core_def position_core_def)

lemma core_ids:
  "order_core a = order_core b \<Longrightarrow> so_OrderID a = so_OrderID b"
  "trade_core x = trade_core y \<Longrightarrow> sx_TradeID x = sx_TradeID y"
  "position_core p = position_core q \<Longrightarrow> sp_UserID p = sp_UserID q"
  by (metis core_sel(1), metis core_sel(2), metis core_sel(3))

lemmas map_record_core = map_eq_iff [of order_record order_core, OF order_record_core]
  map_eq_iff [of trade_record trade_core, OF trade_record_core]
  map_eq_iff [of position_record position_core, OF position_record_core]

lemma level_inject: "map (level_record tag) xs = map (level_record tag) ys \<longleftrightarrow> xs = ys"
  by (rule inj_map_eq_map) (auto simp: inj_def level_record_def prod_eq_iff)

text \<open>The tag of a record tells its section.\<close>

definition tagged :: "string \<Rightarrow> string list list \<Rightarrow> string list list" where
  "tagged t rs = filter (\<lambda>r. hd r = t) rs"

lemma tagged_map:
  "tagged t (map order_record xs) = (if t = ''O'' then map order_record xs else [])"
  "tagged t (map trade_record ts) = (if t = ''T'' then map trade_record ts else [])"
  "tagged t (map position_record ps) = (if t = ''P'' then map position_record ps else [])"
  "tagged t (map (level_record u) ls) = (if t = u then map (level_record u) ls else [])"
  by (auto simp: tagged_def order_record_def trade_record_def position_record_def level_record_def filter_empty_conv)

lemma tagged_append: "tagged t (xs @ ys) = tagged t xs @ tagged t ys"
  by (simp add: tagged_def)

lemma tagged_Cons: "tagged t (r # rs) = (if hd r = t then [r] else []) @ tagged t rs"
  by (simp add: tagged_def)

lemma tagged_Nil: "tagged t [] = []"
  by (simp add: tagged_def)

lemmas tagged_simps = tagged_append tagged_Cons tagged_Nil tagged_map

definition book_head :: "OrderBookSnapshot \<Rightarrow> string list" where
  "book_head b = [''B'', sb_Symbol b, show_int (sb_LastTradePrice b), show_int (sb_BestBid b), show_int (sb_BestAsk b)]"

lemma tagged_book:
  "tagged ''B'' (book_records ob) = (case ob of None \<Rightarrow> [] | Some b \<Rightarrow> [book_head b])"
  "tagged ''BB'' (book_records ob) = (case ob of None \<Rightarrow> [] | Some b \<Rightarrow> map (level_record ''BB'') (priced (sb_BidBook b)))"
  "tagged ''AB'' (book_records ob) = (case ob of None \<Rightarrow> [] | Some b \<Rightarrow> map (level_record ''AB'') (priced (sb_AskBook b)))"
  "tagged ''O'' (book_records ob) = []" "tagged ''T'' (book_records ob) = []" "tagged ''P'' (book_records ob) = []"
  "tagged ''C'' (book_records ob) = []"
  by (cases ob; simp add: book_records_def book_head_def tagged_simps)+

text \<open>Two lists of records are equal exactly if their sections are.\<close>

lemma snapshot_records_iff:
  "snapshot_records s = snapshot_records t \<longleftrightarrow>
     map order_record (entries (ss_Orders s)) = map order_record (entries (ss_Orders t)) \<and>
     map trade_record (entries (ss_Trades s)) = map trade_record (entries (ss_Trades t)) \<and>
     map position_record (entries (ss_Positions s)) = map position_record (entries (ss_Positions t)) \<and>
     book_records (ss_OrderBook s) = book_records (ss_OrderBook t) \<and>
     ss_EventCount s = ss_EventCount t \<and> ss_OrderCount s = ss_OrderCount t \<and>
     ss_TradeCount s = ss_TradeCount t \<and> ss_PositionCount s = ss_PositionCount t"
    (is "?l \<longleftrightarrow> ?r")
proof
  assume l: ?l
  then have sec: "tagged u (snapshot_records s) = tagged u (snapshot_records t)" for u by simp
  note simps = snapshot_records_def tagged_simps tagged_book
  have "map order_record (entries (ss_Orders s)) = map order_record (entries (ss_Orders t))"
    using sec [of "''O''"] by (simp add: simps)
  moreover have "map trade_record (entries (ss_Trades s)) = map trade_record (entries (ss_Trades t))"
    using sec [of "''T''"] by (simp add: simps)
  moreover have "map position_record (entries (ss_Positions s)) = map position_record (entries (ss_Positions t))"
    using sec [of "''P''"] by (simp add: simps)
  ultimately show ?r using l by (simp add: snapshot_records_def)
qed (simp add: snapshot_records_def)

lemma book_records_iff:
  assumes "\<forall>b. ob = Some b \<or> ob' = Some b \<longrightarrow> distinct (map fst (sb_BidBook b)) \<and> distinct (map fst (sb_AskBook b))"
  shows "book_records ob = book_records ob' \<longleftrightarrow> rel_option same_book ob ob'"
proof
  assume eq: "book_records ob = book_records ob'"
  then have sec: "tagged u (book_records ob) = tagged u (book_records ob')" for u by simp
  show "rel_option same_book ob ob'"
    using sec [of "''B''"] sec [of "''BB''"] sec [of "''AB''"] assms
    by (cases ob; cases ob') (simp_all add: tagged_book level_inject priced_iff same_book_def book_head_def)
next
  assume "rel_option same_book ob ob'"
  with assms show "book_records ob = book_records ob'"
    by (cases ob; cases ob') (auto simp: book_records_def same_book_def priced_iff [symmetric])
qed

lemma canonical_iff:
  assumes "snapshot_ok s" "snapshot_ok t"
  shows "canonical s = canonical t \<longleftrightarrow> same_state s t"
proof -
  have ne: "r \<noteq> []" if "r \<in> set (snapshot_records x)" for r x
    using that by (auto simp: snapshot_records_def order_record_def trade_record_def position_record_def book_records_def
        level_record_def split: option.splits)
  have "\<forall>r \<in> set (snapshot_records s) \<union> set (snapshot_records t). r \<noteq> [] \<and> (\<forall>f \<in> set r. plain f)"
    using assms ne unfolding snapshot_ok_def by blast
  note inj = record_lines_inject [OF _ this]
  have "canonical s = canonical t \<longleftrightarrow> snapshot_records s = snapshot_records t"
    unfolding canonical_def by (rule iffI, erule inj) simp
  also have "\<dots> \<longleftrightarrow> same_state s t"
  proof -
    have keys: "keyed so_OrderID (ss_Orders s)" "keyed so_OrderID (ss_Orders t)" "keyed sx_TradeID (ss_Trades s)"
      "keyed sx_TradeID (ss_Trades t)" "keyed sp_UserID (ss_Positions s)" "keyed sp_UserID (ss_Positions t)"
      using assms by (simp_all add: snapshot_ok_def)
    have "map order_record (entries (ss_Orders s)) = map order_record (entries (ss_Orders t)) \<longleftrightarrow>
        (\<forall>k. map_option order_core (map_of (ss_Orders s) k) = map_option order_core (map_of (ss_Orders t) k))"
      unfolding map_record_core
      by (rule entries_keyed_iff [OF keys(1,2)]) (rule core_ids(1))
    moreover have "map trade_record (entries (ss_Trades s)) = map trade_record (entries (ss_Trades t)) \<longleftrightarrow>
        (\<forall>k. map_option trade_core (map_of (ss_Trades s) k) = map_option trade_core (map_of (ss_Trades t) k))"
      unfolding map_record_core
      by (rule entries_keyed_iff [OF keys(3,4)]) (rule core_ids(2))
    moreover have "map position_record (entries (ss_Positions s)) = map position_record (entries (ss_Positions t)) \<longleftrightarrow>
        (\<forall>k. map_option position_core (map_of (ss_Positions s) k) = map_option position_core (map_of (ss_Positions t) k))"
      unfolding map_record_core
      by (rule entries_keyed_iff [OF keys(5,6)]) (rule core_ids(3))
    moreover have "book_records (ss_OrderBook s) = book_records (ss_OrderBook t) \<longleftrightarrow> rel_option same_book (ss_OrderBook s) (ss_OrderBook t)"
      using assms by (intro book_records_iff) (auto simp: snapshot_ok_def)
    ultimately show ?thesis by (simp only: snapshot_records_iff same_state_def)
  qed
  finally show ?thesis .
qed

section \<open>The lists of differences\<close>

lemma keys_without_spec:
  "distinct (map fst m) \<Longrightarrow> sorted (keys_without m m') \<and> distinct (keys_without m m') \<and>
   set (keys_without m m') = {k. map_of m k \<noteq> None \<and> map_of m' k = None}"
  using map_of_keys [of _ m] by (auto simp: keys_without_def)

definition order_fields :: "OrderSnapshot \<Rightarrow> (string \<times> any_value) set" where
  "order_fields e = {(''Price'', Int64 (so_Price e)), (''Quantity'', Int64 (so_Quantity e)),
     (''FilledQty'', Int64 (so_FilledQty e)), (''Status'', Str (so_Status e))}"

definition position_fields :: "PositionSnapshot \<Rightarrow> (string \<times> int) set" where
  "position_fields e = {(''QuantityHeld'', sp_QuantityHeld e), (''CostBase'', sp_CostBase e),
     (''RealizedPnl'', sp_RealizedPnl e), (''UnrealizedPnl'', sp_UnrealizedPnl e)}"

lemma order_changes_spec:
  "\<lparr>ox_OrderID = k', ox_Field = f, ox_Expected = x, ox_Actual = y\<rparr> \<in> set (order_changes k a b) \<longleftrightarrow>
   k' = k \<and> (f, x) \<in> order_fields a \<and> (f, y) \<in> order_fields b \<and> x \<noteq> y"
  by (auto simp: order_changes_def order_fields_def Let_def)

lemma position_changes_spec:
  "\<lparr>pc_UserID = k', pc_Field = f, pc_Expected = x, pc_Actual = y\<rparr> \<in> set (position_changes k a b) \<longleftrightarrow>
   k' = k \<and> (f, x) \<in> position_fields a \<and> (f, y) \<in> position_fields b \<and> x \<noteq> y"
  by (auto simp: position_changes_def position_fields_def Let_def)

lemma changed_both:
  assumes "distinct (map fst pre)"
  shows "c \<in> set (concat (map (\<lambda>(k, a). case map_of post k of None \<Rightarrow> [] | Some b \<Rightarrow> h k a b) pre)) \<longleftrightarrow>
    (\<exists>k a b. map_of pre k = Some a \<and> map_of post k = Some b \<and> c \<in> set (h k a b))"
proof
  assume "c \<in> set (concat (map (\<lambda>(k, a). case map_of post k of None \<Rightarrow> [] | Some b \<Rightarrow> h k a b) pre))"
  then obtain k a where ka: "(k, a) \<in> set pre" "c \<in> set (case map_of post k of None \<Rightarrow> [] | Some b \<Rightarrow> h k a b)" by auto
  then obtain b where "map_of post k = Some b" "c \<in> set (h k a b)" by (cases "map_of post k") auto
  with map_of_is_SomeI [OF assms ka(1)] show "\<exists>k a b. map_of pre k = Some a \<and> map_of post k = Some b \<and> c \<in> set (h k a b)" by blast
next
  assume "\<exists>k a b. map_of pre k = Some a \<and> map_of post k = Some b \<and> c \<in> set (h k a b)"
  then obtain k a b where "(k, a) \<in> set pre" "map_of post k = Some b" "c \<in> set (h k a b)" by (auto dest: map_of_SomeD)
  then show "c \<in> set (concat (map (\<lambda>(k, a). case map_of post k of None \<Rightarrow> [] | Some b \<Rightarrow> h k a b) pre))" by force
qed

section \<open>Properties\<close>

text \<open>
  C35. The comparison is exact up to collisions of the hash: for snapshots whose maps are keyed by the
  ids of their entries and whose strings contain no colon and no bar, two snapshots that agree on
  orders, trades, positions, book levels and counts are reported identical, whatever the order in
  which the maps are visited and the time stamps; and when no difference is reported, they agree or
  their different canonical forms have the same SHA-256 digest.
\<close>

theorem compare_identical_iff:
  assumes "snapshot_ok pre" "snapshot_ok post" "CompareSnapshots now pre post = (diff, pre', post')"
  shows "(same_state pre post \<longrightarrow> \<not> HasDifferences diff) \<and>
    (\<not> HasDifferences diff \<longrightarrow> same_state pre post \<or>
       canonical pre \<noteq> canonical post \<and> sha256_hex (canonical pre) = sha256_hex (canonical post))"
proof -
  have "HasDifferences diff \<longleftrightarrow> sha256_hex (canonical pre) \<noteq> sha256_hex (canonical post)"
    using assms(3) by (auto simp: CompareSnapshots_def CalculateChecksum_def HasDifferences_def Let_def split: if_splits)
  with canonical_iff [OF assms(1,2)] show ?thesis by auto
qed

definition demo_order :: "string \<Rightarrow> OrderSnapshot" where
  "demo_order k = \<lparr>so_OrderID = k, so_UserID = ''u'', so_Symbol = ''BTC'', so_Side = ''buy'', so_Price = 10, so_Quantity = 3,
     so_FilledQty = 0, so_Status = ''pending'', so_CreatedAt = 0, so_UpdatedAt = 0\<rparr>"

definition demo_snapshot :: "string list \<Rightarrow> StateSnapshot" where
  "demo_snapshot ks = \<lparr>ss_Timestamp = 0, ss_Orders = map (\<lambda>k. (k, demo_order k)) ks, ss_Trades = [], ss_Positions = [],
     ss_OrderBook = None, ss_Checksum = [], ss_EventCount = 2, ss_OrderCount = 2, ss_TradeCount = 0, ss_PositionCount = 0\<rparr>"

lemma demo_snapshot_ok: "snapshot_ok (demo_snapshot [''a'', ''b''])" "snapshot_ok (demo_snapshot [''b'', ''a''])"
proof -
  have "plain ''O''" "plain ''a''" "plain ''b''" "plain ''u''" "plain ''BTC''" "plain ''buy''" "plain ''pending''" "plain ''C''"
    by (simp_all add: plain_def)
  moreover have "sort [''a'', ''b''] = [''a'', ''b'']" "sort [''b'', ''a''] = [''a'', ''b'']" by code_simp+
  ultimately show "snapshot_ok (demo_snapshot [''a'', ''b''])" "snapshot_ok (demo_snapshot [''b'', ''a''])"
    by (auto simp: snapshot_ok_def demo_snapshot_def keyed_def demo_order_def snapshot_records_def entries_def order_record_def
        book_records_def)
qed

theorem compare_identical_iff_witness:
  "\<not> HasDifferences (fst (CompareSnapshots 5 (demo_snapshot [''a'', ''b'']) (demo_snapshot [''b'', ''a''])))"
proof -
  have "same_state (demo_snapshot [''a'', ''b'']) (demo_snapshot [''b'', ''a''])"
    by (auto simp: same_state_def demo_snapshot_def)
  moreover obtain diff pre' post' where
    c: "CompareSnapshots 5 (demo_snapshot [''a'', ''b'']) (demo_snapshot [''b'', ''a'']) = (diff, pre', post')"
    by (metis prod_cases3)
  ultimately show ?thesis using compare_identical_iff [OF demo_snapshot_ok c] c by simp
qed

text \<open>
  The report names exactly the differences: when the checksums differ, the missing and extra
  orders, trades and positions are the ids of one snapshot that the other does not have, sorted and
  without repetition, and a change of an order or a position is listed exactly if both snapshots have
  it and the field has the two different values.
\<close>

lemma compare_reports_differences:
  assumes "distinct (map fst (ss_Orders pre))" "distinct (map fst (ss_Orders post))" "distinct (map fst (ss_Trades pre))"
    and "distinct (map fst (ss_Trades post))" "distinct (map fst (ss_Positions pre))" "distinct (map fst (ss_Positions post))"
    and "CompareSnapshots now pre post = (diff, pre', post')" "\<not> sd_IsIdentical diff"
  shows "sorted (sd_MissingOrders diff) \<and> distinct (sd_MissingOrders diff) \<and>
    set (sd_MissingOrders diff) = {k. map_of (ss_Orders pre) k \<noteq> None \<and> map_of (ss_Orders post) k = None} \<and>
    set (sd_ExtraOrders diff) = {k. map_of (ss_Orders post) k \<noteq> None \<and> map_of (ss_Orders pre) k = None} \<and>
    set (sd_MissingTrades diff) = {k. map_of (ss_Trades pre) k \<noteq> None \<and> map_of (ss_Trades post) k = None} \<and>
    set (sd_ExtraTrades diff) = {k. map_of (ss_Trades post) k \<noteq> None \<and> map_of (ss_Trades pre) k = None} \<and>
    set (sd_MissingPositions diff) = {k. map_of (ss_Positions pre) k \<noteq> None \<and> map_of (ss_Positions post) k = None} \<and>
    set (sd_ExtraPositions diff) = {k. map_of (ss_Positions post) k \<noteq> None \<and> map_of (ss_Positions pre) k = None} \<and>
    (\<lparr>ox_OrderID = k, ox_Field = f, ox_Expected = x, ox_Actual = y\<rparr> \<in> set (sd_ChangedOrders diff) \<longleftrightarrow>
      (\<exists>a b. map_of (ss_Orders pre) k = Some a \<and> map_of (ss_Orders post) k = Some b \<and>
        (f, x) \<in> order_fields a \<and> (f, y) \<in> order_fields b \<and> x \<noteq> y)) \<and>
    (\<lparr>pc_UserID = k, pc_Field = f, pc_Expected = i, pc_Actual = j\<rparr> \<in> set (sd_ChangedPositions diff) \<longleftrightarrow>
      (\<exists>a b. map_of (ss_Positions pre) k = Some a \<and> map_of (ss_Positions post) k = Some b \<and>
        (f, i) \<in> position_fields a \<and> (f, j) \<in> position_fields b \<and> i \<noteq> j))"
proof -
  have diff: "sd_MissingOrders diff = keys_without (ss_Orders pre) (ss_Orders post)"
    "sd_ExtraOrders diff = keys_without (ss_Orders post) (ss_Orders pre)"
    "sd_MissingTrades diff = keys_without (ss_Trades pre) (ss_Trades post)"
    "sd_ExtraTrades diff = keys_without (ss_Trades post) (ss_Trades pre)"
    "sd_MissingPositions diff = keys_without (ss_Positions pre) (ss_Positions post)"
    "sd_ExtraPositions diff = keys_without (ss_Positions post) (ss_Positions pre)"
    "sd_ChangedOrders diff = findChangedOrders (ss_Orders pre) (ss_Orders post)"
    "sd_ChangedPositions diff = findChangedPositions (ss_Positions pre) (ss_Positions post)"
    using assms(7,8) by (auto simp: CompareSnapshots_def CalculateChecksum_def Let_def findMissingOrders_def findExtraOrders_def
        findMissingTrades_def findExtraTrades_def findMissingPositions_def findExtraPositions_def split: if_splits)
  show ?thesis
    unfolding diff findChangedOrders_def findChangedPositions_def changed_both [OF assms(1)] changed_both [OF assms(5)]
      order_changes_spec position_changes_spec
    by (auto simp: keys_without_spec assms(1-6))
qed

lemma demo_digests: "sha256_hex ''O:a:u:BTC:buy:10:3:0:pending|C:2:2:0:0|'' \<noteq> sha256_hex ''C:2:2:0:0|''"
  by code_simp

text \<open>
  Depths and spread are not compared: if two snapshots differ in the depths and the spread of their
  order books only, they are reported identical and no book difference is given.
\<close>

lemma depth_not_compared:
  assumes "ss_OrderBook pre = Some b"
    and "post = pre\<lparr>ss_OrderBook := Some (b\<lparr>sb_BidDepth := bd, sb_AskDepth := ad, sb_Spread := sp\<rparr>)\<rparr>"
    and "CompareSnapshots now pre post = (diff, pre', post')"
  shows "sd_IsIdentical diff \<and> sd_OrderBookDiff diff = None \<and> \<not> HasDifferences diff"
proof -
  have "canonical post = canonical pre"
    by (simp add: canonical_def snapshot_records_def book_records_def assms(1,2))
  with assms(3) show ?thesis
    by (auto simp: CompareSnapshots_def CalculateChecksum_def HasDifferences_def Let_def)
qed

end
