(* ===== verification/OffsetTracker.thy ===== *)
theory OffsetTracker
  imports Checkpoint
begin

text \<open>
  \<^verbatim>\<open>src/biz/service/kafka_offset_tracker.go\<close>: the offsets a processor has consumed and committed
  for a symbol. Every method of a tracker runs under its lock. \<open>now\<close> is the clock in milliseconds that
  a checkpoint carries, \<open>now_nano\<close> the time stamp of the tracker. Committing writes a checkpoint
  through the repository, whose database is the parameter \<open>db\<close> with state \<open>d\<close>.
\<close>

section \<open>One tracker\<close>

record OffsetTracker =
  ot_symbol :: string
  ot_processorName :: string
  ot_consumedOffset :: int
  ot_committedOffset :: int
  ot_lastCommitTime :: int
  ot_kafkaProducerOffset :: int
  ot_kafkaConsumerGroup :: string
  ot_commitCount :: int
  ot_commitFailureCount :: int
  ot_lagHighWaterMark :: int

definition NewOffsetTracker :: "int \<Rightarrow> string \<Rightarrow> string \<Rightarrow> OffsetTracker" where
  "NewOffsetTracker now_nano symbol processorName =
     \<lparr>ot_symbol = symbol, ot_processorName = processorName, ot_consumedOffset = 0, ot_committedOffset = 0,
      ot_lastCommitTime = now_nano, ot_kafkaProducerOffset = 0, ot_kafkaConsumerGroup = ''cex-hertz-'' @ processorName,
      ot_commitCount = 0, ot_commitFailureCount = 0, ot_lagHighWaterMark = 0\<rparr>"

definition TrackConsumedOffset :: "int \<Rightarrow> OffsetTracker \<Rightarrow> OffsetTracker" where
  "TrackConsumedOffset offset t =
     (if offset > ot_consumedOffset t then t\<lparr>ot_consumedOffset := offset\<rparr> else t)"

definition CommitOffset ::
  "'d checkpoint_db \<Rightarrow> int \<Rightarrow> int \<Rightarrow> int \<Rightarrow> u64 \<Rightarrow> OffsetTracker \<Rightarrow> 'd \<Rightarrow> go_error option \<times> OffsetTracker \<times> 'd" where
  "CommitOffset db now now_nano offset eventSeq t d =
     (if offset > ot_consumedOffset t
      then (Some (''cannot commit offset '' @ show_int offset @ '' > consumedOffset '' @ show_int (ot_consumedOffset t)), t, d)
      else
        let checkpoint =
          \<lparr>cp_ProcessorName = ot_processorName t, cp_Symbol = ot_symbol t, cp_EventSeq = eventSeq,
           cp_KafkaOffset = offset, cp_PartitionID = 0, cp_Timestamp = now, cp_StateChecksum = [], cp_OrderCount = 0,
           cp_TradeCount = 0, cp_RecoveryStatus = ''none'', cp_RecoveryStartTime = None, cp_RecoveryEndTime = None,
           cp_RecoveryError = [], cp_UpdatedAt = 0\<rparr>
        in case SaveCheckpoint db now checkpoint d of
             (Some err, cp, d') \<Rightarrow>
               (Some (''save checkpoint failed: '' @ err), t\<lparr>ot_commitFailureCount := i64 (ot_commitFailureCount t + 1)\<rparr>, d')
           | (None, cp, d') \<Rightarrow>
               (None, t\<lparr>ot_committedOffset := offset, ot_lastCommitTime := now_nano,
                  ot_commitCount := i64 (ot_commitCount t + 1)\<rparr>, d'))"

text \<open>Reading the lag also raises its high-water mark.\<close>

definition GetConsumerLag :: "OffsetTracker \<Rightarrow> int \<times> OffsetTracker" where
  "GetConsumerLag t =
     (let lag = i64 (ot_kafkaProducerOffset t - ot_committedOffset t)
      in (lag, if lag > ot_lagHighWaterMark t then t\<lparr>ot_lagHighWaterMark := lag\<rparr> else t))"

definition GetConsumedButNotCommitted :: "OffsetTracker \<Rightarrow> int" where
  "GetConsumedButNotCommitted t = i64 (ot_consumedOffset t - ot_committedOffset t)"

definition GetRecoveryStartOffset :: "OffsetTracker \<Rightarrow> int" where
  "GetRecoveryStartOffset t = i64 (ot_committedOffset t + 1)"

definition VerifyOffsetConsistency :: "OffsetTracker \<Rightarrow> go_error option" where
  "VerifyOffsetConsistency t =
     (if ot_committedOffset t > ot_consumedOffset t
      then Some (''offset constraint violated: committedOffset='' @ show_int (ot_committedOffset t) @
        '' > consumedOffset='' @ show_int (ot_consumedOffset t))
      else if ot_consumedOffset t > ot_kafkaProducerOffset t
      then Some (''offset constraint violated: consumedOffset='' @ show_int (ot_consumedOffset t) @
        '' > producedOffset='' @ show_int (ot_kafkaProducerOffset t))
      else
        let lag = i64 (ot_kafkaProducerOffset t - ot_committedOffset t)
        in if lag < 0 then Some (''negative consumer lag: '' @ show_int lag) else None)"

definition UpdateKafkaProducerOffset :: "int \<Rightarrow> OffsetTracker \<Rightarrow> OffsetTracker" where
  "UpdateKafkaProducerOffset offset t =
     (if offset > ot_kafkaProducerOffset t then t\<lparr>ot_kafkaProducerOffset := offset\<rparr> else t)"

record OffsetStatus =
  of_Symbol :: string
  of_ProcessorName :: string
  of_ConsumedOffset :: int
  of_CommittedOffset :: int
  of_ProducedOffset :: int
  of_ConsumerLag :: int
  of_ConsumedButNotCommitted :: int
  of_LastCommitTime :: int
  of_CommitCount :: int
  of_CommitFailureCount :: int
  of_LagHighWaterMark :: int

definition GetStatus :: "OffsetTracker \<Rightarrow> OffsetStatus" where
  "GetStatus t =
     \<lparr>of_Symbol = ot_symbol t, of_ProcessorName = ot_processorName t, of_ConsumedOffset = ot_consumedOffset t,
      of_CommittedOffset = ot_committedOffset t, of_ProducedOffset = ot_kafkaProducerOffset t,
      of_ConsumerLag = i64 (ot_kafkaProducerOffset t - ot_committedOffset t),
      of_ConsumedButNotCommitted = i64 (ot_consumedOffset t - ot_committedOffset t),
      of_LastCommitTime = ot_lastCommitTime t, of_CommitCount = ot_commitCount t,
      of_CommitFailureCount = ot_commitFailureCount t, of_LagHighWaterMark = ot_lagHighWaterMark t\<rparr>"

definition OffsetStatus_String :: "OffsetStatus \<Rightarrow> string" where
  "OffsetStatus_String s =
     ''['' @ of_ProcessorName s @ '':'' @ of_Symbol s @ ''] Consumed='' @ show_int (of_ConsumedOffset s) @
     '' Committed='' @ show_int (of_CommittedOffset s) @ '' Produced='' @ show_int (of_ProducedOffset s) @
     '' Lag='' @ show_int (of_ConsumerLag s) @ '' (consumed_not_committed='' @ show_int (of_ConsumedButNotCommitted s) @
     '') Commits='' @ show_int (of_CommitCount s) @ ''(failures='' @ show_int (of_CommitFailureCount s) @ '')''"

section \<open>The manager\<close>

text \<open>A tracker is shared by everybody who asked for it; the key stands for the pointer.\<close>

record OffsetTrackerManager =
  om_trackers :: "string \<rightharpoonup> OffsetTracker"

definition NewOffsetTrackerManager :: OffsetTrackerManager where
  "NewOffsetTrackerManager = \<lparr>om_trackers = Map.empty\<rparr>"

definition GetOrCreateTracker :: "int \<Rightarrow> string \<Rightarrow> string \<Rightarrow> OffsetTrackerManager \<Rightarrow> string \<times> OffsetTrackerManager" where
  "GetOrCreateTracker now_nano processorName symbol m =
     (let key = colon_key processorName symbol
      in case om_trackers m key of
           Some tracker \<Rightarrow> (key, m)
         | None \<Rightarrow> (key, m\<lparr>om_trackers := (om_trackers m)(key \<mapsto> NewOffsetTracker now_nano symbol processorName)\<rparr>))"

text \<open>\<open>keys\<close> is the order in which the runtime ranges over the map.\<close>

definition GetAllTrackers :: "string list \<Rightarrow> OffsetTrackerManager \<Rightarrow> OffsetTracker list" where
  "GetAllTrackers keys m = List.map_filter (om_trackers m) keys"

fun verify_loop :: "OffsetTracker list \<Rightarrow> go_error option" where
  "verify_loop [] = None"
| "verify_loop (t # ts) =
     (case VerifyOffsetConsistency t of
        Some err \<Rightarrow> Some (''consistency check failed for '' @ ot_processorName t @ '':'' @ ot_symbol t @ '': '' @ err)
      | None \<Rightarrow> verify_loop ts)"

definition VerifyAllConsistency :: "string list \<Rightarrow> OffsetTrackerManager \<Rightarrow> go_error option" where
  "VerifyAllConsistency keys m = verify_loop (GetAllTrackers keys m)"

section \<open>Runs\<close>

text \<open>
  \<open>GetConsumerLag\<close> holds the read lock only, and two calls may overlap between reading and writing the mark: a run
  may leave any value there.
\<close>

inductive tracker_step :: "'d checkpoint_db \<Rightarrow> OffsetTracker \<times> 'd \<Rightarrow> OffsetTracker \<times> 'd \<Rightarrow> bool" for db where
  consumed: "tracker_step db (t, d) (TrackConsumedOffset q t, d)"
| produced: "tracker_step db (t, d) (UpdateKafkaProducerOffset q t, d)"
| commit: "CommitOffset db now nn q s t d = (err, t', d') \<Longrightarrow> tracker_step db (t, d) (t', d')"
| lag: "tracker_step db (t, d) (t\<lparr>ot_lagHighWaterMark := mark\<rparr>, d)"
| outside: "tracker_step db (t, d) (t, d')"

inductive_cases tracker_step_cases [consumes 1, case_names consumed produced commit lag outside]:
  "tracker_step db (t, d) (t', d')"

lemma commit_cases:
  assumes "CommitOffset db now nn q s t d = (err, t', d')"
  obtains (refused) "q > ot_consumedOffset t" "err \<noteq> None" "t' = t" "d' = d"
  | (failed) "q \<le> ot_consumedOffset t" "err \<noteq> None" "t' = t\<lparr>ot_commitFailureCount := i64 (ot_commitFailureCount t + 1)\<rparr>"
  | (committed) cp cp' where "q \<le> ot_consumedOffset t" "err = None" "SaveCheckpoint db now cp d = (None, cp', d')"
      "cp_ProcessorName cp = ot_processorName t" "cp_Symbol cp = ot_symbol t" "cp_EventSeq cp = s" "cp_KafkaOffset cp = q"
      "t' = t\<lparr>ot_committedOffset := q, ot_lastCommitTime := nn, ot_commitCount := i64 (ot_commitCount t + 1)\<rparr>"
proof (cases "q > ot_consumedOffset t")
  case True
  with assms show ?thesis by (intro refused) (auto simp: CommitOffset_def)
next
  case False
  define cp where "cp = \<lparr>cp_ProcessorName = ot_processorName t, cp_Symbol = ot_symbol t, cp_EventSeq = s,
    cp_KafkaOffset = q, cp_PartitionID = 0, cp_Timestamp = now, cp_StateChecksum = [], cp_OrderCount = 0,
    cp_TradeCount = 0, cp_RecoveryStatus = ''none'', cp_RecoveryStartTime = None, cp_RecoveryEndTime = None,
    cp_RecoveryError = [], cp_UpdatedAt = 0\<rparr>"
  obtain e cp' d1 where save: "SaveCheckpoint db now cp d = (e, cp', d1)" by (cases "SaveCheckpoint db now cp d")
  show ?thesis
  proof (cases e)
    case None
    with assms False save show ?thesis
      by (intro committed [of cp cp']) (auto simp: CommitOffset_def cp_def [symmetric] Let_def, simp_all add: cp_def)
  next
    case (Some er)
    with assms False save show ?thesis
      by (intro failed) (auto simp: CommitOffset_def cp_def [symmetric] Let_def)
  qed
qed

lemma tracker_step_ok:
  assumes "tracker_step db (t, d) (t', d')" "ot_committedOffset t \<le> ot_consumedOffset t"
  shows "ot_committedOffset t' \<le> ot_consumedOffset t' \<and> ot_consumedOffset t \<le> ot_consumedOffset t' \<and>
    ot_kafkaProducerOffset t \<le> ot_kafkaProducerOffset t'"
  using assms(1)
proof (cases rule: tracker_step_cases)
  case (commit now nn q s err)
  from this show ?thesis by (cases rule: commit_cases) (use assms(2) in simp_all)
qed (use assms(2) in \<open>auto simp: TrackConsumedOffset_def UpdateKafkaProducerOffset_def\<close>)

lemma tracker_steps_ok:
  assumes "(tracker_step db)\<^sup>*\<^sup>* (t, d) (t', d')" "ot_committedOffset t \<le> ot_consumedOffset t"
  shows "ot_committedOffset t' \<le> ot_consumedOffset t' \<and> ot_consumedOffset t \<le> ot_consumedOffset t' \<and>
    ot_kafkaProducerOffset t \<le> ot_kafkaProducerOffset t'"
  using assms(1)
proof (induction rule: rtranclp_induct2)
  case (step t1 d1 t2 d2)
  then show ?case using tracker_step_ok [OF step(2)] by linarith
qed (simp add: assms(2))

section \<open>Properties\<close>

text \<open>
  C36. A tracker never has more committed than consumed, whatever calls are made in whatever order and
  whether the database takes the writes or not, and the offsets it has consumed and was told were produced
  never go back. The check of a tracker whose commits are not negative then fails exactly if it has consumed
  more than it was told was produced.
\<close>

theorem tracker_committed_le_consumed:
  assumes "(tracker_step db)\<^sup>*\<^sup>* (NewOffsetTracker nn s p, d0) (t, d)" "(tracker_step db)\<^sup>*\<^sup>* (t, d) (t', d')"
  shows "ot_committedOffset t' \<le> ot_consumedOffset t' \<and> 0 \<le> ot_consumedOffset t' \<and>
    ot_consumedOffset t \<le> ot_consumedOffset t' \<and> ot_kafkaProducerOffset t \<le> ot_kafkaProducerOffset t' \<and>
    (0 \<le> ot_committedOffset t' \<and> in_i64 (ot_kafkaProducerOffset t') \<longrightarrow>
      (VerifyOffsetConsistency t' = None \<longleftrightarrow> ot_consumedOffset t' \<le> ot_kafkaProducerOffset t'))"
proof -
  have new: "ot_committedOffset (NewOffsetTracker nn s p) \<le> ot_consumedOffset (NewOffsetTracker nn s p)"
    "ot_consumedOffset (NewOffsetTracker nn s p) = 0" by (simp_all add: NewOffsetTracker_def)
  have t: "ot_committedOffset t \<le> ot_consumedOffset t" "0 \<le> ot_consumedOffset t"
    using tracker_steps_ok [OF assms(1) new(1)] by (simp_all add: new(2))
  have ok: "ot_committedOffset t' \<le> ot_consumedOffset t'" "0 \<le> ot_consumedOffset t'" "ot_consumedOffset t \<le> ot_consumedOffset t'"
    "ot_kafkaProducerOffset t \<le> ot_kafkaProducerOffset t'"
    using tracker_steps_ok [OF assms(2) t(1)] t(2) by linarith+
  have "VerifyOffsetConsistency t' = None \<longleftrightarrow> ot_consumedOffset t' \<le> ot_kafkaProducerOffset t'"
    if "0 \<le> ot_committedOffset t'" "in_i64 (ot_kafkaProducerOffset t')"
  proof (cases "ot_consumedOffset t' \<le> ot_kafkaProducerOffset t'")
    case True
    have "in_i64 (ot_kafkaProducerOffset t' - ot_committedOffset t')"
      using that ok True by (auto simp: in_i64_def)
    with ok True show ?thesis by (simp add: VerifyOffsetConsistency_def i64_id Let_def)
  qed (use ok in \<open>simp add: VerifyOffsetConsistency_def\<close>)
  with ok show ?thesis by blast
qed

theorem tracker_committed_le_consumed_witness:
  "\<exists>t d. CommitOffset table_db 1 2 4 9 (UpdateKafkaProducerOffset 7 (TrackConsumedOffset 5 (NewOffsetTracker 0 ''BTC'' ''db''))) [] =
      (None, t, d) \<and> ot_committedOffset t = 4 \<and> ot_committedOffset t \<le> ot_consumedOffset t \<and> VerifyOffsetConsistency t = None"
proof -
  let ?n = "NewOffsetTracker 0 ''BTC'' ''db''" let ?t = "UpdateKafkaProducerOffset 7 (TrackConsumedOffset 5 ?n)"
  have run: "(tracker_step table_db)\<^sup>*\<^sup>* (?n, []) (?t, [])"
    by (meson converse_rtranclp_into_rtranclp rtranclp.rtrancl_refl tracker_step.consumed tracker_step.produced)
  obtain t d where c: "CommitOffset table_db 1 2 4 9 ?t [] = (None, t, d)"
    and t: "ot_committedOffset t = 4" "ot_consumedOffset t = 5" "ot_kafkaProducerOffset t = 7"
    by (simp add: CommitOffset_def TrackConsumedOffset_def UpdateKafkaProducerOffset_def NewOffsetTracker_def SaveCheckpoint_def
        table_db_def Let_def)
  have "(tracker_step table_db)\<^sup>*\<^sup>* (?t, []) (t, d)" using tracker_step.commit [OF c] by blast
  from tracker_committed_le_consumed [OF run this] c t show ?thesis by (auto simp: in_i64_def)
qed

text \<open>
  C37. The tracker and the database agree on where recovery starts: a commit of the offset \<open>q\<close> that reports no
  error was of a consumed offset, both the recovery context read from the table afterwards and
  \<open>GetRecoveryStartOffset\<close> of the tracker give the offset after \<open>q\<close>, and recovery starts at the event after the
  committed one.
\<close>

theorem commit_then_recover:
  assumes "checkpoint_table db rows" "CommitOffset db now nn q s t d = (None, t', d')"
    and "GetRecoveryContext db now' (ot_processorName t) (ot_symbol t) d' = Inr ctx"
  shows "q \<le> ot_consumedOffset t \<and> rc_StartKafkaOffset ctx = i64 (q + 1) \<and> GetRecoveryStartOffset t' = i64 (q + 1) \<and>
    rc_StartEventSeq ctx = s + 1"
  using assms(2)
proof (cases rule: commit_cases)
  case (committed cp cp')
  from checkpoint_table.save_done [OF assms(1) committed(3)] committed(4-7)
  obtain row where "rows d' (ot_processorName t, ot_symbol t) = Some row" "progress row = progress cp" by auto
  with checkpoint_table.recovery_context [OF assms(1,3)] committed(1,6-8) show ?thesis
    by (simp add: GetRecoveryStartOffset_def progress_def)
qed simp_all

theorem commit_then_recover_witness:
  "\<exists>t' d' ctx. CommitOffset table_db 1 2 5 9 (TrackConsumedOffset 5 (NewOffsetTracker 0 ''BTC'' ''db'')) [] = (None, t', d') \<and>
     GetRecoveryContext table_db 3 ''db'' ''BTC'' d' = Inr ctx \<and> rc_StartKafkaOffset ctx = 6 \<and>
     GetRecoveryStartOffset t' = 6 \<and> rc_StartEventSeq ctx = 10"
proof -
  let ?t = "TrackConsumedOffset 5 (NewOffsetTracker 0 ''BTC'' ''db'')"
  have t: "ot_processorName ?t = ''db''" "ot_symbol ?t = ''BTC''" by (simp_all add: TrackConsumedOffset_def NewOffsetTracker_def)
  obtain t' d' where c: "CommitOffset table_db 1 2 5 9 ?t [] = (None, t', d')"
    by (simp add: CommitOffset_def TrackConsumedOffset_def NewOffsetTracker_def SaveCheckpoint_def table_db_def Let_def)
  obtain ctx where "GetRecoveryContext table_db 3 ''db'' ''BTC'' d' = Inr ctx"
    by (cases "map_of d' (''db'', ''BTC'')")
      (simp_all add: GetRecoveryContext_def GetCheckpointSummary_def GetLatestCheckpoint_def table_db_def Let_def)
  with commit_then_recover [OF tbl.checkpoint_table_axioms c, unfolded t] c show ?thesis by (auto simp: i64_id in_i64_def)
qed

end
