(* ===== verification/OwnershipEpoch.thy ===== *)
theory OwnershipEpoch
  imports TransferCoordinator Events
begin

text \<open>
  \<^verbatim>\<open>src/biz/service/redis_lock_manager.go\<close>, \<^verbatim>\<open>src/biz/service/ownership_epoch_manager.go\<close> and
  \<^verbatim>\<open>src/biz/handler/order_fencing.go\<close>: the epoch of a partition's ownership, kept in a Redis hash
  and raised under a distributed lock, and the check that keeps requests with an old epoch out.

  The Redis client and the lock library are third-party code: the calls made to them are the fields
  of \<open>redis_ops\<close>, over a state \<open>'r\<close> that stands for Redis and the caller's context; other clients may
  act during a call. The locale \<open>redis_store\<close> says what the manager needs of them.
\<close>

section \<open>Redis\<close>

datatype redis_cmd = HSet string string string | Expire string int

record 'r redis_ops =
  rd_LockContext :: "string \<Rightarrow> 'r \<Rightarrow> go_error option \<times> 'r"
  rd_TryLockContext :: "string \<Rightarrow> 'r \<Rightarrow> go_error option \<times> 'r"
  rd_Unlock :: "string \<Rightarrow> 'r \<Rightarrow> go_error option \<times> 'r"
  rd_ctxErr :: "'r \<Rightarrow> go_error option"
  rd_wait :: "int \<Rightarrow> 'r \<Rightarrow> bool \<times> 'r"
  rd_HGet :: "string \<Rightarrow> string \<Rightarrow> 'r \<Rightarrow> (go_error + string) \<times> 'r"
  rd_HGetAll :: "string \<Rightarrow> 'r \<Rightarrow> (go_error + (string \<times> string) list) \<times> 'r"
  rd_Exec :: "redis_cmd list \<Rightarrow> 'r \<Rightarrow> go_error option \<times> 'r"

section \<open>The lock manager\<close>

record LockOptions =
  lo_ExpireDuration :: int
  lo_MaxRetries :: int
  lo_RetryDelay :: int

definition DefaultLockOptions :: LockOptions where
  "DefaultLockOptions = \<lparr>lo_ExpireDuration = 30 * 10 ^ 9, lo_MaxRetries = 3, lo_RetryDelay = 100 * 10 ^ 6\<rparr>"

text \<open>
  The retry loop from attempt \<open>i\<close> on; \<open>err\<close> is the variable the loop leaves behind. The left result is
  an early return. \<open>rd_wait\<close> tells whether the context was done before the delay was over.
\<close>

function acquire ::
  "'r redis_ops \<Rightarrow> string \<Rightarrow> LockOptions \<Rightarrow> int \<Rightarrow> go_error option \<Rightarrow> 'r \<Rightarrow> (go_error option + go_error option) \<times> 'r" where
  "acquire ops key opt i err r =
     (if i < lo_MaxRetries opt then
        (case rd_LockContext ops key r of
           (None, r1) \<Rightarrow> (Inr None, r1)
         | (Some e, r1) \<Rightarrow>
             (case rd_ctxErr ops r1 of
                Some ce \<Rightarrow> (Inl (Some (''lock context expired: '' @ ce)), r1)
              | None \<Rightarrow>
                  if i < lo_MaxRetries opt - 1 then
                    (case rd_wait ops (lo_RetryDelay opt) r1 of
                       (True, r2) \<Rightarrow> (Inl (rd_ctxErr ops r2), r2)
                     | (False, r2) \<Rightarrow> acquire ops key opt (i + 1) (Some e) r2)
                  else acquire ops key opt (i + 1) (Some e) r1))
      else (Inr err, r))"
  by pat_completeness auto

termination
  by (relation "measure (\<lambda>(ops, key, opt, i, err, r). nat (lo_MaxRetries opt - i))") auto

declare acquire.simps [simp del]

text \<open>
  \<open>WithLock\<close> runs \<open>fn\<close> between lock and unlock; \<open>fn\<close> may also write a variable of its caller, of type
  \<open>'a\<close>. An error of the unlock is only logged.
\<close>

definition WithLock ::
  "'r redis_ops \<Rightarrow> string \<Rightarrow> ('a \<Rightarrow> 'r \<Rightarrow> go_error option \<times> 'a \<times> 'r) \<Rightarrow> LockOptions option \<Rightarrow> 'a \<Rightarrow> 'r \<Rightarrow>
   go_error option \<times> 'a \<times> 'r" where
  "WithLock ops key fn opts a r =
     (let opt = (case opts of None \<Rightarrow> DefaultLockOptions | Some opt \<Rightarrow> opt)
      in case acquire ops key opt 0 None r of
           (Inl early, r1) \<Rightarrow> (early, a, r1)
         | (Inr (Some err), r1) \<Rightarrow> (Some (''failed to acquire lock on '' @ key @ '': '' @ err), a, r1)
         | (Inr None, r1) \<Rightarrow>
             (case fn a r1 of (err, a', r2) \<Rightarrow> (err, a', snd (rd_Unlock ops key r2))))"

abbreviation ErrFailed :: go_error where
  "ErrFailed \<equiv> ''redsync: failed to acquire lock''"

definition TryLock :: "'r redis_ops \<Rightarrow> string \<Rightarrow> 'r \<Rightarrow> (go_error + bool) \<times> 'r" where
  "TryLock ops key r =
     (case rd_TryLockContext ops key r of
        (None, r1) \<Rightarrow> (Inr True, r1)
      | (Some err, r1) \<Rightarrow> if err = ErrFailed then (Inr False, r1) else (Inl (''lock error: '' @ err), r1))"

definition IsLocked :: "'r redis_ops \<Rightarrow> string \<Rightarrow> 'r \<Rightarrow> (go_error + bool) \<times> 'r" where
  "IsLocked ops key r =
     (case TryLock ops key r of
        (Inl err, r1) \<Rightarrow> (Inl err, r1)
      | (Inr True, r1) \<Rightarrow> (Inr False, snd (rd_Unlock ops key r1))
      | (Inr False, r1) \<Rightarrow> (Inr True, r1))"

definition WithEventProcessingLock ::
  "'r redis_ops \<Rightarrow> string \<Rightarrow> int \<Rightarrow> int \<Rightarrow> ('a \<Rightarrow> 'r \<Rightarrow> go_error option \<times> 'a \<times> 'r) \<Rightarrow> 'a \<Rightarrow> 'r \<Rightarrow> go_error option \<times> 'a \<times> 'r" where
  "WithEventProcessingLock ops topic partitionNo offset fn =
     WithLock ops (''event:processing:'' @ topic @ '':'' @ show_int partitionNo @ '':'' @ show_int offset) fn
       (Some \<lparr>lo_ExpireDuration = 5 * 60 * 10 ^ 9, lo_MaxRetries = 1, lo_RetryDelay = 0\<rparr>)"

definition WithPartitionOwnershipUpdate ::
  "'r redis_ops \<Rightarrow> string \<Rightarrow> ('a \<Rightarrow> 'r \<Rightarrow> go_error option \<times> 'a \<times> 'r) \<Rightarrow> 'a \<Rightarrow> 'r \<Rightarrow> go_error option \<times> 'a \<times> 'r" where
  "WithPartitionOwnershipUpdate ops partitionID fn =
     WithLock ops (''partition:'' @ partitionID @ '':owner_update'') fn
       (Some \<lparr>lo_ExpireDuration = 10 * 10 ^ 9, lo_MaxRetries = 3, lo_RetryDelay = 50 * 10 ^ 6\<rparr>)"

definition WithRecoveryLock ::
  "'r redis_ops \<Rightarrow> string \<Rightarrow> string \<Rightarrow> ('a \<Rightarrow> 'r \<Rightarrow> go_error option \<times> 'a \<times> 'r) \<Rightarrow> 'a \<Rightarrow> 'r \<Rightarrow> go_error option \<times> 'a \<times> 'r" where
  "WithRecoveryLock ops processorName symbol fn =
     WithLock ops (''recovery:lock:'' @ processorName @ '':'' @ symbol) fn
       (Some \<lparr>lo_ExpireDuration = 30 * 60 * 10 ^ 9, lo_MaxRetries = 1, lo_RetryDelay = 0\<rparr>)"

section \<open>The epoch manager\<close>

text \<open>\<^verbatim>\<open>fmt.Sscanf(s, "%d", &n)\<close> into an \<open>int64\<close>: as for \<open>uint\<close>, with an optional sign.\<close>

definition sscanf_int :: "string \<Rightarrow> go_error + int" where
  "sscanf_int s =
     (let rest = dropWhile is_blank s;
          sign = takeWhile (\<lambda>c. c = CHR ''+'' \<or> c = CHR ''-'') (take 1 rest);
          ds = takeWhile (\<lambda>c. read_digit c \<noteq> None) (drop (length sign) rest);
          v = (if sign = ''-'' then - int (digits_val ds) else int (digits_val ds))
      in if rest = [] then Inl ''EOF''
         else if of_char (hd rest) = (10 :: nat) then Inl ''unexpected newline''
         else if ds = [] then Inl ''expected integer''
         else if \<not> in_i64 v
         then Inl (''strconv.ParseInt: parsing '' @ [CHR 0x22] @ sign @ ds @ [CHR 0x22] @ '': value out of range'')
         else Inr v)"

definition ownership_key :: "string \<Rightarrow> string" where
  "ownership_key partitionID = ''partition:'' @ partitionID @ '':ownership''"

record OwnershipEpochInfo =
  oe_Epoch :: int
  oe_Owner :: string
  oe_UpdatedAt :: int

definition GetEpoch :: "'r redis_ops \<Rightarrow> string \<Rightarrow> 'r \<Rightarrow> (go_error + int) \<times> 'r" where
  "GetEpoch ops partitionID r =
     (case rd_HGet ops (ownership_key partitionID) ''epoch'' r of
        (Inl err, r1) \<Rightarrow> (if err = ''redis: nil'' then Inr 0 else Inl (''failed to get epoch: '' @ err), r1)
      | (Inr val, r1) \<Rightarrow>
          (case sscanf_int val of
             Inl err \<Rightarrow> (Inl (''invalid epoch value: '' @ err), r1)
           | Inr epoch \<Rightarrow> (Inr epoch, r1)))"

text \<open>A field that does not scan leaves the zero value.\<close>

definition scan_field :: "(string \<times> string) list \<Rightarrow> string \<Rightarrow> int" where
  "scan_field data f =
     (case map_of data f of None \<Rightarrow> 0 | Some v \<Rightarrow> (case sscanf_int v of Inl _ \<Rightarrow> 0 | Inr n \<Rightarrow> n))"

definition GetOwnershipInfo :: "'r redis_ops \<Rightarrow> string \<Rightarrow> 'r \<Rightarrow> (go_error + OwnershipEpochInfo option) \<times> 'r" where
  "GetOwnershipInfo ops partitionID r =
     (case rd_HGetAll ops (ownership_key partitionID) r of
        (Inl err, r1) \<Rightarrow> (Inl (''failed to get ownership info: '' @ err), r1)
      | (Inr data, r1) \<Rightarrow>
          (Inr (if data = [] then None
                else Some \<lparr>oe_Epoch = scan_field data ''epoch'', oe_Owner = mget [] (map_of data) ''owner'',
                       oe_UpdatedAt = scan_field data ''updated_at''\<rparr>), r1))"

text \<open>The function \<open>UpdateOwnershipEpoch\<close> runs under the lock; it writes the named result \<open>newEpoch\<close>.\<close>

definition update_epoch ::
  "'r redis_ops \<Rightarrow> int \<Rightarrow> string \<Rightarrow> string \<Rightarrow> int \<Rightarrow> 'r \<Rightarrow> go_error option \<times> int \<times> 'r" where
  "update_epoch ops now partitionID newOwner newEpoch r =
     (case GetOwnershipInfo ops partitionID r of
        (Inl err, r1) \<Rightarrow> (Some (''failed to get current ownership: '' @ err), newEpoch, r1)
      | (Inr info, r1) \<Rightarrow>
          let currentEpoch = (case info of None \<Rightarrow> 0 | Some i \<Rightarrow> oe_Epoch i)
          in if (case info of None \<Rightarrow> False | Some i \<Rightarrow> oe_Owner i = newOwner)
             then (None, currentEpoch, r1)
             else
               let newEpoch' = i64 (currentEpoch + 1); key = ownership_key partitionID
               in case rd_Exec ops [HSet key ''epoch'' (show_int newEpoch'), HSet key ''owner'' newOwner,
                          HSet key ''updated_at'' (show_int now), Expire key (24 * 60 * 60 * 10 ^ 9)] r1 of
                    (Some err, r2) \<Rightarrow> (Some (''failed to update ownership: '' @ err), newEpoch', r2)
                  | (None, r2) \<Rightarrow> (None, newEpoch', r2))"

definition UpdateOwnershipEpoch ::
  "'r redis_ops \<Rightarrow> int \<Rightarrow> string \<Rightarrow> string \<Rightarrow> 'r \<Rightarrow> int \<times> go_error option \<times> 'r" where
  "UpdateOwnershipEpoch ops now partitionID newOwner r =
     (case WithLock ops (''partition:'' @ partitionID @ '':ownership_update'')
          (update_epoch ops now partitionID newOwner) None 0 r of
        (err, newEpoch, r') \<Rightarrow> (newEpoch, err, r'))"

definition VerifyOwnershipFencing :: "'r redis_ops \<Rightarrow> string \<Rightarrow> int \<Rightarrow> 'r \<Rightarrow> bool \<times> int \<times> go_error option \<times> 'r" where
  "VerifyOwnershipFencing ops partitionID eventEpoch r =
     (case GetEpoch ops partitionID r of
        (Inl err, r1) \<Rightarrow> (False, 0, Some (''failed to verify fencing: '' @ err), r1)
      | (Inr currentEpoch, r1) \<Rightarrow> (currentEpoch = eventEpoch, currentEpoch, None, r1))"

definition FillEventContextWithEpoch ::
  "'r redis_ops \<Rightarrow> EventContext \<Rightarrow> string \<Rightarrow> string \<Rightarrow> 'r \<Rightarrow> go_error option \<times> EventContext \<times> 'r" where
  "FillEventContextWithEpoch ops eventCtx partitionID nodeID r =
     (case GetEpoch ops partitionID r of
        (Inl err, r1) \<Rightarrow> (Some (''failed to fill epoch: '' @ err), eventCtx, r1)
      | (Inr epoch, r1) \<Rightarrow> (None, WithOwnershipEpoch epoch nodeID eventCtx, r1))"

section \<open>The local cache\<close>

record LocalEpochCache =
  lc_cache :: "string \<rightharpoonup> int"
  lc_expiresAt :: "string \<rightharpoonup> int"
  lc_ttl :: int

definition NewLocalEpochCache :: "int \<Rightarrow> LocalEpochCache" where
  "NewLocalEpochCache ttl = \<lparr>lc_cache = Map.empty, lc_expiresAt = Map.empty, lc_ttl = ttl\<rparr>"

definition Cache_Get :: "int \<Rightarrow> string \<Rightarrow> LocalEpochCache \<Rightarrow> int \<times> bool" where
  "Cache_Get now partitionID lec =
     (case lc_expiresAt lec partitionID of
        Some expireTime \<Rightarrow> if now < expireTime then (mget 0 (lc_cache lec) partitionID, True) else (0, False)
      | None \<Rightarrow> (0, False))"

definition Cache_Set :: "int \<Rightarrow> string \<Rightarrow> int \<Rightarrow> LocalEpochCache \<Rightarrow> LocalEpochCache" where
  "Cache_Set now partitionID epoch lec =
     lec\<lparr>lc_cache := (lc_cache lec)(partitionID \<mapsto> epoch),
         lc_expiresAt := (lc_expiresAt lec)(partitionID \<mapsto> i64 (now + lc_ttl lec))\<rparr>"

definition Invalidate :: "string \<Rightarrow> LocalEpochCache \<Rightarrow> LocalEpochCache" where
  "Invalidate partitionID lec =
     lec\<lparr>lc_cache := (lc_cache lec)(partitionID := None), lc_expiresAt := (lc_expiresAt lec)(partitionID := None)\<rparr>"

definition InvalidateAll :: "LocalEpochCache \<Rightarrow> LocalEpochCache" where
  "InvalidateAll lec = lec\<lparr>lc_cache := Map.empty, lc_expiresAt := Map.empty\<rparr>"

section \<open>Fencing of orders\<close>

record OrderProcessingContext =
  op_Symbol :: string
  op_PartitionID :: string
  op_CurrentEpoch :: int
  op_ProcessingNodeID :: string
  op_IsFenced :: bool
  op_ErrorMsg :: string

definition VerifyOrderOwnershipFencing ::
  "'r redis_ops \<Rightarrow> string \<Rightarrow> string \<Rightarrow> int \<Rightarrow> string \<Rightarrow> 'r \<Rightarrow> OrderProcessingContext \<times> go_error option \<times> 'r" where
  "VerifyOrderOwnershipFencing ops symbol partitionID cachedEpoch nodeID r =
     (let result = \<lparr>op_Symbol = symbol, op_PartitionID = partitionID, op_CurrentEpoch = 0,
            op_ProcessingNodeID = nodeID, op_IsFenced = False, op_ErrorMsg = []\<rparr>
      in case GetEpoch ops partitionID r of
           (Inl err, r1) \<Rightarrow> (result\<lparr>op_ErrorMsg := ''failed to get epoch: '' @ err\<rparr>, Some err, r1)
         | (Inr currentEpoch, r1) \<Rightarrow>
             if cachedEpoch > 0 \<and> cachedEpoch \<noteq> currentEpoch
             then (result\<lparr>op_CurrentEpoch := currentEpoch, op_IsFenced := True,
                     op_ErrorMsg := ''ownership epoch mismatch: expected '' @ show_int cachedEpoch @ '', got '' @
                       show_int currentEpoch @ '' (partition may have migrated)''\<rparr>, None, r1)
             else (result\<lparr>op_CurrentEpoch := currentEpoch\<rparr>, None, r1))"

definition OrderOwnershipInterceptor ::
  "'r redis_ops \<Rightarrow> string \<Rightarrow> string \<Rightarrow> int \<Rightarrow> string \<Rightarrow> 'r \<Rightarrow> OrderProcessingContext \<times> go_error option \<times> 'r" where
  "OrderOwnershipInterceptor ops symbol partitionID cachedEpoch nodeID r =
     VerifyOrderOwnershipFencing ops symbol partitionID cachedEpoch nodeID r"

text \<open>The entries of the diagnostics map, an untyped map in the source.\<close>

datatype diagnostic = DiagError go_error | Uninitialized | DiagOwner int string int

fun GetOwnershipDiagnostics :: "'r redis_ops \<Rightarrow> string list \<Rightarrow> 'r \<Rightarrow> (string \<rightharpoonup> diagnostic) \<Rightarrow> (string \<rightharpoonup> diagnostic) \<times> 'r" where
  "GetOwnershipDiagnostics ops [] r diagnostics = (diagnostics, r)"
| "GetOwnershipDiagnostics ops (symbol # symbols) r diagnostics =
     (case GetOwnershipInfo ops (''partition:'' @ symbol) r of
        (Inl err, r1) \<Rightarrow> GetOwnershipDiagnostics ops symbols r1 (diagnostics(symbol \<mapsto> DiagError err))
      | (Inr None, r1) \<Rightarrow> GetOwnershipDiagnostics ops symbols r1 (diagnostics(symbol \<mapsto> Uninitialized))
      | (Inr (Some info), r1) \<Rightarrow>
          GetOwnershipDiagnostics ops symbols r1
            (diagnostics(symbol \<mapsto> DiagOwner (oe_Epoch info) (oe_Owner info) (oe_UpdatedAt info))))"

section \<open>The contract of Redis\<close>

text \<open>
  What a command does at once to the hash under the key \<open>k\<close>, and to the time at which the key expires. A
  positive time to live, in nanoseconds, deletes nothing yet.
\<close>

fun apply_cmd :: "string \<Rightarrow> redis_cmd \<Rightarrow> (string \<rightharpoonup> string) \<Rightarrow> (string \<rightharpoonup> string)" where
  "apply_cmd k (HSet k' f v) h = (if k' = k then h(f \<mapsto> v) else h)"
| "apply_cmd k (Expire k' t) h = (if k' = k \<and> t \<le> 0 then Map.empty else h)"

fun apply_deadline :: "string \<Rightarrow> int \<Rightarrow> redis_cmd \<Rightarrow> int option \<Rightarrow> int option" where
  "apply_deadline k now (HSet k' f v) dl = dl"
| "apply_deadline k now (Expire k' t) dl = (if k' = k then (if t \<le> 0 then None else Some (now + t)) else dl)"

text \<open>
  Reading changes no hash, a pipeline that succeeds has applied its commands, and unlocking changes no
  hash. While a call waits for a lock other clients may do anything, and a pipeline that fails may
  have applied some of its commands: nothing is said about these.
\<close>

locale redis_store =
  fixes ops :: "'r redis_ops" and hash :: "'r \<Rightarrow> string \<Rightarrow> string \<rightharpoonup> string"
  assumes hget_found: "rd_HGet ops k f r = (Inr v, r') \<Longrightarrow> hash r k f = Some v"
    and hget_nil: "rd_HGet ops k f r = (Inl ''redis: nil'', r') \<Longrightarrow> hash r k f = None"
    and hget_keeps: "rd_HGet ops k f r = (x, r') \<Longrightarrow> hash r' = hash r"
    and hgetall: "rd_HGetAll ops k r = (Inr data, r') \<Longrightarrow> map_of data = hash r k \<and> hash r' = hash r"
    and exec_done: "rd_Exec ops cmds r = (None, r') \<Longrightarrow> hash r' k = fold (apply_cmd k) cmds (hash r k)"
    and unlock_keeps: "hash (snd (rd_Unlock ops k r)) = hash r"
begin

lemma epoch_read:
  assumes "GetEpoch ops p r = (Inr e, r')"
  shows "case hash r (ownership_key p) ''epoch'' of None \<Rightarrow> e = 0 | Some v \<Rightarrow> sscanf_int v = Inr e"
  using assms hget_found hget_nil
  by (auto simp: GetEpoch_def split: prod.splits sum.splits if_splits option.splits)

text \<open>The critical section of \<open>UpdateOwnershipEpoch\<close>.\<close>

lemma update_epoch_done:
  assumes "update_epoch ops now p own ne r = (None, e, r')" 
      "hash r (ownership_key p) = Map.empty \<or> mget [] (hash r (ownership_key p)) ''owner'' \<noteq> own"
  shows "e = i64 ((case hash r (ownership_key p) ''epoch'' of None \<Rightarrow> 0 | Some v \<Rightarrow> (case sscanf_int v of Inl _ \<Rightarrow> 0 | Inr n \<Rightarrow> n)) + 1) \<and>
    hash r' (ownership_key p) ''epoch'' = Some (show_int e) \<and> hash r' (ownership_key p) ''owner'' = Some own"
proof -
  obtain info r1 where info: "GetOwnershipInfo ops p r = (Inr info, r1)"
    using assms(1) by (auto simp: update_epoch_def split: prod.splits sum.splits)
  then obtain data where data: "rd_HGetAll ops (ownership_key p) r = (Inr data, r1)"
    and i: "info = (if data = [] then None else Some \<lparr>oe_Epoch = scan_field data ''epoch'', oe_Owner = mget [] (map_of data) ''owner'',
      oe_UpdatedAt = scan_field data ''updated_at''\<rparr>)"
    by (auto simp: GetOwnershipInfo_def split: prod.splits sum.splits)
  note h = hgetall [OF data]
  have other: "(case info of None \<Rightarrow> False | Some i \<Rightarrow> oe_Owner i = own) = False"
    using assms(2) h by (auto simp: i mget_def split: option.splits)
  let ?cur = "case info of None \<Rightarrow> 0 | Some i \<Rightarrow> oe_Epoch i"
  have cur: "?cur = (case hash r (ownership_key p) ''epoch'' of None \<Rightarrow> 0 | Some v \<Rightarrow> (case sscanf_int v of Inl _ \<Rightarrow> 0 | Inr n \<Rightarrow> n))"
    by (cases "data = []") (simp_all add: i scan_field_def flip: conjunct1 [OF h])
  let ?cmds = "[HSet (ownership_key p) ''epoch'' (show_int (i64 (?cur + 1))), HSet (ownership_key p) ''owner'' own,
    HSet (ownership_key p) ''updated_at'' (show_int now), Expire (ownership_key p) (24 * 60 * 60 * 10 ^ 9)]"
  have ex: "rd_Exec ops ?cmds r1 = (None, r')" "e = i64 (?cur + 1)"
    using assms(1) info other by (auto simp: update_epoch_def Let_def split: prod.splits option.splits)
  show ?thesis using exec_done [OF ex(1), of "ownership_key p"] ex(2) cur by simp
qed

lemma update_done:
  assumes "UpdateOwnershipEpoch ops now p own r = (e, None, r')"
    and "acquire ops (''partition:'' @ p @ '':ownership_update'') DefaultLockOptions 0 None r = (Inr None, r1)"
  obtains r2 where "update_epoch ops now p own 0 r1 = (None, e, r2)" "hash r' = hash r2"
  using assms unlock_keeps
  by (auto simp: UpdateOwnershipEpoch_def WithLock_def Let_def split: prod.splits)

end

text \<open>
  Redis with its clock: a pipeline sets the times of expiry, and when time passes between calls, \<open>pass t\<close>, the
  hashes whose time has come are gone.
\<close>

locale expiring_redis = redis_store ops hash for ops :: "'r redis_ops" and hash +
  fixes clock :: "'r \<Rightarrow> int" and deadline :: "'r \<Rightarrow> string \<Rightarrow> int option" and pass :: "int \<Rightarrow> 'r \<Rightarrow> 'r"
  assumes exec_deadline: "rd_Exec ops cmds r = (None, r') \<Longrightarrow>
      deadline r' k = fold (apply_deadline k (clock r')) cmds (deadline r k)"
    and unlock_clock: "deadline (snd (rd_Unlock ops k r)) = deadline r \<and> clock r \<le> clock (snd (rd_Unlock ops k r))"
    and pass_hash: "0 \<le> t \<Longrightarrow> hash (pass t r) k =
      (case deadline r k of None \<Rightarrow> hash r k | Some d \<Rightarrow> if d \<le> clock r + t then Map.empty else hash r k)"
begin

lemma update_expires:
  assumes upd: "UpdateOwnershipEpoch ops now p own r = (e, None, r')"
    and lock: "acquire ops (''partition:'' @ p @ '':ownership_update'') DefaultLockOptions 0 None r = (Inr None, r1)"
    and other: "mget [] (hash r1 (ownership_key p)) ''owner'' \<noteq> own"
    and t: "24 * 60 * 60 * 10 ^ 9 \<le> t"
  shows "hash (pass t r') (ownership_key p) = Map.empty"
proof -
  let ?key = "ownership_key p"
  obtain r2 where u: "update_epoch ops now p own 0 r1 = (None, e, r2)"
    and r': "r' = snd (rd_Unlock ops (''partition:'' @ p @ '':ownership_update'') r2)"
    using upd lock by (auto simp: UpdateOwnershipEpoch_def WithLock_def Let_def split: prod.splits)
  obtain info r3 where i: "GetOwnershipInfo ops p r1 = (Inr info, r3)"
    using u by (auto simp: update_epoch_def split: prod.splits sum.splits)
  have "(case info of None \<Rightarrow> False | Some i \<Rightarrow> oe_Owner i = own) = False"
    using i hgetall other by (auto simp: GetOwnershipInfo_def split: prod.splits sum.splits if_splits option.splits)
  then obtain c1 c2 c3 where "rd_Exec ops [HSet ?key ''epoch'' c1, HSet ?key ''owner'' c2, HSet ?key ''updated_at'' c3,
      Expire ?key (24 * 60 * 60 * 10 ^ 9)] r3 = (None, r2)"
    using u i by (auto simp: update_epoch_def Let_def split: prod.splits option.splits)
  from exec_deadline [OF this, of ?key] have d: "deadline r' ?key = Some (clock r2 + 24 * 60 * 60 * 10 ^ 9)"
    using unlock_clock by (simp add: r')
  have "clock r2 \<le> clock r'" "0 \<le> t" using unlock_clock t by (simp_all add: r')
  with pass_hash [of t r' ?key] d t show ?thesis by simp
qed

end

lemma sscanf_show_int:
  assumes "in_i64 n"
  shows "sscanf_int (show_int n) = Inr n"
proof -
  have digits: "takeWhile (\<lambda>c. read_digit c \<noteq> None) (show_nat k) = show_nat k" for k
    using digit_read by (simp add: takeWhile_eq_all_conv)
  have hd: "\<not> is_blank (hd (show_nat k))" "of_char (hd (show_nat k)) \<noteq> (10 :: nat)" "hd (show_nat k) \<noteq> CHR ''-''"
    "hd (show_nat k) \<noteq> CHR ''+''" for k
    using digit_read [of "hd (show_nat k)" k] show_nat_chars [of "hd (show_nat k)" k] by auto
  show ?thesis
  proof (cases "n < 0")
    case True
    have "\<not> is_blank (CHR ''-'')" "of_char (CHR ''-'') \<noteq> (10 :: nat)" by code_simp+
    with True assms show ?thesis
      by (simp add: sscanf_int_def show_int_def Let_def digits del: not_None_eq takeWhile_eq_all_conv)
  next
    case False
    obtain c cs where c: "show_nat (nat n) = c # cs" by (cases "show_nat (nat n)") auto
    with hd [of "nat n"] False assms digits [of "nat n"] digits_val_show_nat [of "nat n"] show ?thesis
      by (simp add: sscanf_int_def show_int_def Let_def del: not_None_eq digits_val_show_nat)
  qed
qed

section \<open>Redis in memory\<close>

record mem_redis =
  mr_hashes :: "(string \<times> (string \<times> string) list) list"
  mr_deadlines :: "(string \<times> int option) list"
  mr_clock :: int

definition mem_hash :: "mem_redis \<Rightarrow> string \<Rightarrow> (string \<times> string) list" where
  "mem_hash r k = (case map_of (mr_hashes r) k of None \<Rightarrow> [] | Some h \<Rightarrow> h)"

definition mem_deadline :: "mem_redis \<Rightarrow> string \<Rightarrow> int option" where
  "mem_deadline r k = (case map_of (mr_deadlines r) k of None \<Rightarrow> None | Some d \<Rightarrow> d)"

fun mem_cmd :: "redis_cmd \<Rightarrow> mem_redis \<Rightarrow> mem_redis" where
  "mem_cmd (HSet k f v) r = r\<lparr>mr_hashes := (k, (f, v) # mem_hash r k) # mr_hashes r\<rparr>"
| "mem_cmd (Expire k t) r =
     (if t \<le> 0 then r\<lparr>mr_hashes := (k, []) # mr_hashes r, mr_deadlines := (k, None) # mr_deadlines r\<rparr>
      else r\<lparr>mr_deadlines := (k, Some (mr_clock r + t)) # mr_deadlines r\<rparr>)"

definition mem_expired :: "mem_redis \<Rightarrow> int \<Rightarrow> string \<Rightarrow> bool" where
  "mem_expired r now k = (case mem_deadline r k of None \<Rightarrow> False | Some d \<Rightarrow> d \<le> now)"

definition mem_pass :: "int \<Rightarrow> mem_redis \<Rightarrow> mem_redis" where
  "mem_pass t r =
     \<lparr>mr_hashes = map (\<lambda>(k, h). (k, if mem_expired r (mr_clock r + t) k then [] else h)) (mr_hashes r),
      mr_deadlines = map (\<lambda>(k, d). (k, if mem_expired r (mr_clock r + t) k then None else d)) (mr_deadlines r),
      mr_clock = mr_clock r + t\<rparr>"

definition memory_redis :: "mem_redis redis_ops" where
  "memory_redis =
     \<lparr>rd_LockContext = (\<lambda>k r. (None, r)), rd_TryLockContext = (\<lambda>k r. (None, r)), rd_Unlock = (\<lambda>k r. (None, r)),
      rd_ctxErr = (\<lambda>r. None), rd_wait = (\<lambda>t r. (False, r)),
      rd_HGet = (\<lambda>k f r. (case map_of (mem_hash r k) f of None \<Rightarrow> Inl ''redis: nil'' | Some v \<Rightarrow> Inr v, r)),
      rd_HGetAll = (\<lambda>k r. (Inr (mem_hash r k), r)), rd_Exec = (\<lambda>cmds r. (None, fold mem_cmd cmds r))\<rparr>"

lemma mem_cmd_hash:
  "map_of (mem_hash (mem_cmd c r) k) = apply_cmd k c (map_of (mem_hash r k))"
  "mem_deadline (mem_cmd c r) k = apply_deadline k (mr_clock r) c (mem_deadline r k)"
  "mr_clock (mem_cmd c r) = mr_clock r"
  by (cases c; auto simp: mem_hash_def mem_deadline_def)+

lemma mem_cmds_hash:
  "map_of (mem_hash (fold mem_cmd cmds r) k) = fold (apply_cmd k) cmds (map_of (mem_hash r k))"
  "mem_deadline (fold mem_cmd cmds r) k = fold (apply_deadline k (mr_clock r)) cmds (mem_deadline r k)"
  "mr_clock (fold mem_cmd cmds r) = mr_clock r"
  by (induction cmds arbitrary: r) (simp_all add: mem_cmd_hash)

lemma map_of_key_map: "map_of (map (\<lambda>(k, v). (k, f k v)) xs) k = map_option (f k) (map_of xs k)"
  by (induction xs) auto

interpretation mem_redis: expiring_redis memory_redis "\<lambda>r k. map_of (mem_hash r k)" mr_clock mem_deadline mem_pass
proof unfold_locales
  show "map_of (mem_hash (mem_pass t r) k) = (case mem_deadline r k of None \<Rightarrow> map_of (mem_hash r k)
      | Some d \<Rightarrow> if d \<le> mr_clock r + t then Map.empty else map_of (mem_hash r k))" for t r k
    by (auto simp: mem_pass_def mem_hash_def map_of_key_map mem_expired_def split: option.splits)
qed (auto simp: memory_redis_def mem_cmds_hash split: option.splits)

section \<open>Fencing\<close>

lemma fencing_decision:
  assumes "redis_store ops hash" "VerifyOrderOwnershipFencing ops s p c n r = (ctx, None, r')"
    and "hash r (ownership_key p) ''epoch'' = Some (show_int e)" "in_i64 e"
  shows "op_IsFenced ctx \<longleftrightarrow> 0 < c \<and> c \<noteq> e"
proof -
  obtain cur r1 where cur: "GetEpoch ops p r = (Inr cur, r1)"
    using assms(2) by (auto simp: VerifyOrderOwnershipFencing_def Let_def split: prod.splits sum.splits)
  with redis_store.epoch_read [OF assms(1) cur] assms(3,4) have "cur = e" by (simp add: sscanf_show_int)
  with cur assms(2) show ?thesis
    by (auto simp: VerifyOrderOwnershipFencing_def Let_def split: if_splits)
qed

text \<open>
  C38. Fencing. Suppose \<open>UpdateOwnershipEpoch\<close> gives a partition a new owner and succeeds, and that when it
  got the lock Redis held another owner with epoch \<open>n\<close>. Then the new epoch is \<open>n + 1\<close>, Redis names the new
  owner, and from then on the check of an order fences exactly the requests that carry a positive
  epoch other than \<open>n + 1\<close>: in particular every request admitted under the previous owner.
\<close>

theorem ownership_change_fences:
  assumes store: "redis_store ops hash"
    and upd: "UpdateOwnershipEpoch ops now p own r = (e, None, r')"
    and lock: "acquire ops (''partition:'' @ p @ '':ownership_update'') DefaultLockOptions 0 None r = (Inr None, r1)"
    and owner: "hash r1 (ownership_key p) ''owner'' = Some old" "old \<noteq> own"
    and epoch: "hash r1 (ownership_key p) ''epoch'' = Some (show_int n)" "0 < n" "n < 2 ^ 63 - 1"
  shows "e = n + 1 \<and> hash r' (ownership_key p) ''owner'' = Some own \<and>
    (\<forall>s c node ctx r''. VerifyOrderOwnershipFencing ops s p c node r' = (ctx, None, r'') \<longrightarrow>
       (op_IsFenced ctx \<longleftrightarrow> 0 < c \<and> c \<noteq> n + 1))"
proof -
  have n: "in_i64 n" "in_i64 (n + 1)" using epoch by (simp_all add: in_i64_def)
  obtain r2 where r2: "update_epoch ops now p own 0 r1 = (None, e, r2)" "hash r' = hash r2"
    using redis_store.update_done [OF store upd lock] .
  have "mget [] (hash r1 (ownership_key p)) ''owner'' \<noteq> own" using owner by (simp add: mget_def)
  with redis_store.update_epoch_done [OF store r2(1)] epoch(1) n
  have e: "e = n + 1" "hash r' (ownership_key p) ''epoch'' = Some (show_int (n + 1))" "hash r' (ownership_key p) ''owner'' = Some own"
    by (simp_all add: sscanf_show_int r2(2) i64_id)
  then show ?thesis by (simp add: fencing_decision [OF store, OF _ e(2) n(2)])
qed

definition demo_redis :: mem_redis where
  "demo_redis = \<lparr>mr_hashes = [(ownership_key ''p1'', [(''epoch'', ''1''), (''owner'', ''A''), (''updated_at'', ''100'')])],
     mr_deadlines = [], mr_clock = 0\<rparr>"

definition demo_redis' :: mem_redis where
  "demo_redis' = snd (snd (UpdateOwnershipEpoch memory_redis 200 ''p1'' ''B'' demo_redis))"

theorem ownership_change_fences_witness:
  "UpdateOwnershipEpoch memory_redis 200 ''p1'' ''B'' demo_redis = (2, None, demo_redis') \<and>
   op_IsFenced (fst (VerifyOrderOwnershipFencing memory_redis ''BTC'' ''p1'' 1 ''A'' demo_redis'))"
proof -
  have upd: "UpdateOwnershipEpoch memory_redis 200 ''p1'' ''B'' demo_redis = (2, None, demo_redis')"
    by code_simp
  have lock: "acquire memory_redis (''partition:'' @ ''p1'' @ '':ownership_update'') DefaultLockOptions 0 None demo_redis =
    (Inr None, demo_redis)" by code_simp
  have read: "map_of (mem_hash demo_redis (ownership_key ''p1'')) ''owner'' = Some ''A''"
    "map_of (mem_hash demo_redis (ownership_key ''p1'')) ''epoch'' = Some (show_int 1)" by code_simp+
  have check: "VerifyOrderOwnershipFencing memory_redis ''BTC'' ''p1'' 1 ''A'' demo_redis' =
    (fst (VerifyOrderOwnershipFencing memory_redis ''BTC'' ''p1'' 1 ''A'' demo_redis'), None, demo_redis')" by code_simp
  have "''A'' \<noteq> ''B''" "(0 :: int) < 1" "(1 :: int) < 2 ^ 63 - 1" by simp_all
  note fences = ownership_change_fences [OF mem_redis.redis_store_axioms, OF upd lock read(1) this(1) read(2) this(2,3)]
  show ?thesis using upd fences [THEN conjunct2, THEN conjunct2, rule_format, OF check] by simp
qed

text \<open>
  C40. The epoch restarts. An update that changes the owner lets the hash with the epoch expire after 24
  hours. If the owner stays the same for that long, the next update starts again at epoch 1, whatever the
  epoch was, and an order that was admitted under the partition's first owner, with epoch 1, passes the
  check again.
\<close>

theorem epoch_restarts_after_expiry:
  assumes store: "expiring_redis ops hash clock deadline pass"
    and upd: "UpdateOwnershipEpoch ops now p own r = (e, None, r')"
    and lock: "acquire ops (''partition:'' @ p @ '':ownership_update'') DefaultLockOptions 0 None r = (Inr None, r1)"
    and owner: "mget [] (hash r1 (ownership_key p)) ''owner'' \<noteq> own"
    and day: "24 * 60 * 60 * 10 ^ 9 \<le> t"
    and upd': "UpdateOwnershipEpoch ops now' p own' (pass t r') = (e', None, r'')"
    and lock': "acquire ops (''partition:'' @ p @ '':ownership_update'') DefaultLockOptions 0 None (pass t r') = (Inr None, r2)"
      "hash r2 (ownership_key p) = hash (pass t r') (ownership_key p)"
  shows "e' = 1 \<and> (\<forall>s node ctx r3. VerifyOrderOwnershipFencing ops s p 1 node r'' = (ctx, None, r3) \<longrightarrow> \<not> op_IsFenced ctx)"
proof -
  have store': "redis_store ops hash" using store by (simp add: expiring_redis_def)
  have gone: "hash r2 (ownership_key p) = Map.empty"
    using expiring_redis.update_expires [OF store upd lock owner day] lock'(2) by simp
  obtain r4 where r4: "update_epoch ops now' p own' 0 r2 = (None, e', r4)" "hash r'' = hash r4"
    using redis_store.update_done [OF store' upd' lock'(1)] .
  from redis_store.update_epoch_done [OF store' r4(1)] gone
  have e: "e' = 1" "hash r'' (ownership_key p) ''epoch'' = Some (show_int 1)"
    by (simp_all add: r4(2) i64_id in_i64_def)
  have one: "in_i64 1" by (simp add: in_i64_def)
  show ?thesis
  proof (intro conjI allI impI)
    fix s node ctx r3
    assume "VerifyOrderOwnershipFencing ops s p 1 node r'' = (ctx, None, r3)"
    from fencing_decision [OF store', OF this e(2) one] show "\<not> op_IsFenced ctx" by simp
  qed (rule e(1))
qed

text \<open>The partition of the example goes from \<open>A\<close> to \<open>B\<close> with epoch 2, and a day later to \<open>C\<close>.\<close>

definition demo_day :: mem_redis where
  "demo_day = mem_pass (24 * 60 * 60 * 10 ^ 9) demo_redis'"

definition demo_restarted :: mem_redis where
  "demo_restarted = snd (snd (UpdateOwnershipEpoch memory_redis 300 ''p1'' ''C'' demo_day))"

theorem epoch_restarts_after_expiry_witness:
  "UpdateOwnershipEpoch memory_redis 200 ''p1'' ''B'' demo_redis = (2, None, demo_redis') \<and>
   UpdateOwnershipEpoch memory_redis 300 ''p1'' ''C'' demo_day = (1, None, demo_restarted) \<and>
   \<not> op_IsFenced (fst (VerifyOrderOwnershipFencing memory_redis ''BTC'' ''p1'' 1 ''A'' demo_restarted))"
proof -
  have upd: "UpdateOwnershipEpoch memory_redis 200 ''p1'' ''B'' demo_redis = (2, None, demo_redis')"
    "UpdateOwnershipEpoch memory_redis 300 ''p1'' ''C'' demo_day = (1, None, demo_restarted)" by code_simp+
  have lock: "acquire memory_redis k DefaultLockOptions 0 None r = (Inr None, r)" for k r
    by (simp add: acquire.simps DefaultLockOptions_def memory_redis_def)
  have owner: "mget [] (map_of (mem_hash demo_redis (ownership_key ''p1''))) ''owner'' \<noteq> ''B''" by code_simp
  have check: "VerifyOrderOwnershipFencing memory_redis ''BTC'' ''p1'' 1 ''A'' demo_restarted =
    (fst (VerifyOrderOwnershipFencing memory_redis ''BTC'' ''p1'' 1 ''A'' demo_restarted), None, demo_restarted)" by code_simp
  from epoch_restarts_after_expiry [OF mem_redis.expiring_redis_axioms, OF upd(1) lock owner order_refl
      upd(2) [unfolded demo_day_def] lock refl] check upd
  show ?thesis by blast
qed

section \<open>The lock loop\<close>

text \<open>Redis with a record of what each call of \<open>LockContext\<close> returned.\<close>

definition traced :: "'r redis_ops \<Rightarrow> ('r \<times> go_error option list) redis_ops" where
  "traced ops =
     \<lparr>rd_LockContext = (\<lambda>k (r, tr). case rd_LockContext ops k r of (e, r') \<Rightarrow> (e, r', tr @ [e])),
      rd_TryLockContext = (\<lambda>k (r, tr). case rd_TryLockContext ops k r of (e, r') \<Rightarrow> (e, r', tr)),
      rd_Unlock = (\<lambda>k (r, tr). case rd_Unlock ops k r of (e, r') \<Rightarrow> (e, r', tr)),
      rd_ctxErr = (\<lambda>(r, tr). rd_ctxErr ops r),
      rd_wait = (\<lambda>t (r, tr). case rd_wait ops t r of (e, r') \<Rightarrow> (e, r', tr)),
      rd_HGet = (\<lambda>k f (r, tr). case rd_HGet ops k f r of (e, r') \<Rightarrow> (e, r', tr)),
      rd_HGetAll = (\<lambda>k (r, tr). case rd_HGetAll ops k r of (e, r') \<Rightarrow> (e, r', tr)),
      rd_Exec = (\<lambda>cmds (r, tr). case rd_Exec ops cmds r of (e, r') \<Rightarrow> (e, r', tr))\<rparr>"

text \<open>What the loop adds to the record from attempt \<open>i\<close> on.\<close>

definition attempts_ok :: "LockOptions \<Rightarrow> int \<Rightarrow> go_error option \<Rightarrow> go_error option + go_error option \<Rightarrow> go_error option list \<Rightarrow> bool" where
  "attempts_ok opt i err x new \<longleftrightarrow>
     length new \<le> nat (lo_MaxRetries opt - i) \<and> None \<notin> set (butlast new) \<and>
     (if new = [] then x = Inr err \<and> lo_MaxRetries opt \<le> i else (x = Inr None \<longleftrightarrow> last new = None))"

lemma attempts_ok_step:
  assumes "attempts_ok opt (i + 1) (Some e) x new" "i < lo_MaxRetries opt"
  shows "attempts_ok opt i err x (Some e # new)"
  using assms by (auto simp: attempts_ok_def split: if_splits)

lemma attempts_ok_last:
  "i < lo_MaxRetries opt \<Longrightarrow> attempts_ok opt i err x [e] \<longleftrightarrow> (x = Inr None \<longleftrightarrow> e = None)"
  by (auto simp: attempts_ok_def)

lemma acquire_attempts:
  assumes "acquire (traced ops) key opt i err (r, tr) = (x, r', tr')"
  shows "\<exists>new. tr' = tr @ new \<and> attempts_ok opt i err x new"
  using assms
proof (induction "nat (lo_MaxRetries opt - i)" arbitrary: i err r tr)
  case 0
  then show ?case by (subst (asm) acquire.simps) (simp add: attempts_ok_def)
next
  case (Suc k)
  then have i: "i < lo_MaxRetries opt" and k: "k = nat (lo_MaxRetries opt - (i + 1))" by simp_all
  obtain e r1 where l: "rd_LockContext ops key r = (e, r1)" by fastforce
  have again: "\<exists>new. tr' = tr @ new \<and> attempts_ok opt i err x new"
    if "acquire (traced ops) key opt (i + 1) e (r2, tr @ [e]) = (x, r', tr')" "e = Some ee" for r2 ee
  proof -
    from Suc.hyps(1) [OF k that(1)] obtain new
      where "tr' = (tr @ [e]) @ new" "attempts_ok opt (i + 1) e x new" by blast
    with attempts_ok_step [of opt i ee x new err] i that(2) show ?thesis
      by (intro exI [of _ "e # new"]) simp
  qed
  show ?case
  proof (cases e)
    case None
    with Suc.prems l i show ?thesis by (subst (asm) acquire.simps) (auto simp: traced_def attempts_ok_last)
  next
    case (Some ee)
    with Suc.prems l i again show ?thesis
      by (subst (asm) acquire.simps)
        (auto simp: traced_def attempts_ok_last split: option.splits if_splits prod.splits bool.splits)
  qed
qed

text \<open>
  C39. Acquiring a lock ends. With \<open>MaxRetries\<close> positive, \<open>WithLock\<close> asks for the lock at most \<open>MaxRetries\<close>
  times whatever Redis answers, it asks again only after a refusal, and it goes on to run the
  protected function exactly if the last answer granted the lock. With \<open>MaxRetries\<close> zero or negative
  it never asks, and runs the function without the lock.
\<close>

theorem lock_attempts_bounded:
  assumes "acquire (traced ops) key opt 0 None (r, []) = (x, r', tr)"
  shows "length tr \<le> nat (lo_MaxRetries opt) \<and> None \<notin> set (butlast tr) \<and>
    (0 < lo_MaxRetries opt \<longrightarrow> tr \<noteq> [] \<and> (x = Inr None \<longleftrightarrow> last tr = None)) \<and>
    (lo_MaxRetries opt \<le> 0 \<longrightarrow> tr = [] \<and> x = Inr None)"
  using acquire_attempts [OF assms] by (auto simp: attempts_ok_def split: if_splits)

text \<open>A lock that is refused twice and then granted; the state counts the calls.\<close>

definition busy_redis :: "nat redis_ops" where
  "busy_redis =
     \<lparr>rd_LockContext = (\<lambda>k n. (if n < 2 then Some ErrFailed else None, Suc n)), rd_TryLockContext = (\<lambda>k n. (None, n)),
      rd_Unlock = (\<lambda>k n. (None, n)), rd_ctxErr = (\<lambda>n. None), rd_wait = (\<lambda>t n. (False, n)),
      rd_HGet = (\<lambda>k f n. (Inl ''redis: nil'', n)), rd_HGetAll = (\<lambda>k n. (Inr [], n)), rd_Exec = (\<lambda>cmds n. (None, n))\<rparr>"

theorem lock_attempts_bounded_witness:
  "length (snd (snd (acquire (traced busy_redis) ''k'' DefaultLockOptions 0 None (0, [])))) \<le> 3"
proof -
  let ?tr = "[Some ErrFailed, Some ErrFailed, None]"
  have run: "acquire (traced busy_redis) ''k'' DefaultLockOptions 0 None (0, []) = (Inr None, 3, ?tr)" by code_simp
  from lock_attempts_bounded [OF run] run show ?thesis by (simp add: DefaultLockOptions_def)
qed

end
