(* ===== verification/ParseFloat.thy ===== *)
theory ParseFloat
  imports Float64
begin

text \<open>
  Reading decimal numbers: \<^verbatim>\<open>strconv.ParseFloat\<close>, \<^verbatim>\<open>strings.TrimSpace\<close> and the verb \<^verbatim>\<open>%f\<close> of
  \<^verbatim>\<open>fmt.Sscanf\<close>, as used by \<open>ParsePrice\<close> and \<open>ParseQuantity\<close> of \<^verbatim>\<open>src/biz/model/order.go\<close> and by
  \<open>parsePrice\<close> and \<open>parseQuantity\<close> of \<^verbatim>\<open>src/biz/service/match_engine.go\<close>. The last section bounds what a
  quantity loses on its way through its printed form.
\<close>

section \<open>Values\<close>

text \<open>A \<open>float64\<close> that may be infinite; \<open>Inf True\<close> is the negative infinity. Both zeros are \<open>Fin 0\<close>.\<close>

datatype f64 = Fin rat | Inf bool | NaN

definition f64_of :: "rat \<Rightarrow> f64" where
  "f64_of x = (let y = fl x in if \<bar>y\<bar> < 2 ^ 1024 then Fin y else Inf (x < 0))"

lemma f64_of_code [code]: "f64_of x = (let y = fl x in if bitlen \<lfloor>\<bar>y\<bar>\<rfloor> \<le> 1024 then Fin y else Inf (x < 0))"
proof -
  have "\<lfloor>\<bar>y\<bar>\<rfloor> < 2 ^ 1024 \<longleftrightarrow> \<bar>y\<bar> < 2 ^ 1024" for y :: rat
    using floor_less_iff [of "\<bar>y\<bar>" "2 ^ 1024"] by (simp only: of_int_power of_int_numeral)
  then show ?thesis by (simp only: f64_of_def Let_def bitlen_le_iff_power) simp
qed

fun f64_scale :: "f64 \<Rightarrow> rat \<Rightarrow> f64" where
  "f64_scale (Fin x) c = f64_of (x * c)"
| "f64_scale (Inf b) c = Inf b"
| "f64_scale NaN c = NaN"

text \<open>
  \<^verbatim>\<open>int64(x)\<close>. The language leaves a value out of range to the implementation; on amd64 the
  conversion instruction answers the smallest \<open>int64\<close>.
\<close>

fun f64_to_i64 :: "f64 \<Rightarrow> int" where
  "f64_to_i64 (Fin x) = (if in_i64 (trunc x) then trunc x else - (2 ^ 63))"
| "f64_to_i64 (Inf b) = - (2 ^ 63)"
| "f64_to_i64 NaN = - (2 ^ 63)"

lemma in_i64_to_i64: "in_i64 (f64_to_i64 f)"
  by (cases f) (auto simp: in_i64_def)

section \<open>Characters\<close>

definition is_digit :: "char \<Rightarrow> bool" where
  "is_digit c \<longleftrightarrow> 48 \<le> (of_char c :: nat) \<and> (of_char c :: nat) \<le> 57"

definition lower :: "char \<Rightarrow> char" where
  "lower c = (if 65 \<le> (of_char c :: nat) \<and> (of_char c :: nat) \<le> 90 then char_of (of_char c + 32 :: nat) else c)"

definition is_hex :: "char \<Rightarrow> bool" where
  "is_hex c \<longleftrightarrow> is_digit c \<or> 97 \<le> (of_char (lower c) :: nat) \<and> (of_char (lower c) :: nat) \<le> 102"

definition hex_digit :: "char \<Rightarrow> nat" where
  "hex_digit c = (if is_digit c then of_char c - 48 else of_char (lower c) - 87)"

definition hex_val :: "string \<Rightarrow> nat" where
  "hex_val s = foldl (\<lambda>acc c. 16 * acc + hex_digit c) 0 s"

definition is_sign :: "char \<Rightarrow> bool" where
  "is_sign c \<longleftrightarrow> c = CHR ''+'' \<or> c = CHR ''-''"

text \<open>The UTF-8 encodings of the white space characters of Unicode.\<close>

definition spaces :: "string list" where
  "spaces =
     map (\<lambda>b. [char_of (b :: nat)]) [9, 10, 11, 12, 13, 32] @
     map (map (char_of :: nat \<Rightarrow> char))
       ([[0xC2, 0x85], [0xC2, 0xA0], [0xE1, 0x9A, 0x80]] @ map (\<lambda>b. [0xE2, 0x80, b]) [0x80..<0x8B] @
        [[0xE2, 0x80, 0xA8], [0xE2, 0x80, 0xA9], [0xE2, 0x80, 0xAF], [0xE2, 0x81, 0x9F], [0xE3, 0x80, 0x80]])"

definition starts_with :: "string \<Rightarrow> string \<Rightarrow> bool" where
  "starts_with s p \<longleftrightarrow> take (length p) s = p"

text \<open>Removing leading members of a list of non-empty prefixes, at most one per character.\<close>

fun strip :: "string list \<Rightarrow> nat \<Rightarrow> string \<Rightarrow> string" where
  "strip ps 0 s = s"
| "strip ps (Suc n) s =
     (case filter (starts_with s) ps of [] \<Rightarrow> s | p # _ \<Rightarrow> strip ps n (drop (length p) s))"

definition trim_left :: "string list \<Rightarrow> string \<Rightarrow> string" where
  "trim_left ps s = strip ps (length s) s"

definition TrimSpace :: "string \<Rightarrow> string" where
  "TrimSpace s = rev (trim_left (map rev spaces) (rev (trim_left spaces s)))"

section \<open>\<^verbatim>\<open>strconv.ParseFloat\<close>\<close>

text \<open>
  \<open>underscoreOK\<close>: underscores stand between digits or after the base prefix. \<open>saw\<close> is the kind of the
  last character: \<open>0\<close> for a digit or the prefix, \<open>_\<close> for an underscore, \<open>!\<close> for anything else and \<open>^\<close> at
  the beginning.
\<close>

fun underscores_from :: "bool \<Rightarrow> char \<Rightarrow> string \<Rightarrow> bool" where
  "underscores_from hex saw [] = (saw \<noteq> CHR ''_'')"
| "underscores_from hex saw (c # cs) =
     (if is_digit c \<or> hex \<and> is_hex c then underscores_from hex CHR ''0'' cs
      else if c = CHR ''_'' then saw = CHR ''0'' \<and> underscores_from hex CHR ''_'' cs
      else saw \<noteq> CHR ''_'' \<and> underscores_from hex CHR ''!'' cs)"

definition unsigned_part :: "string \<Rightarrow> string" where
  "unsigned_part s = (if s \<noteq> [] \<and> is_sign (hd s) then tl s else s)"

definition underscoreOK :: "string \<Rightarrow> bool" where
  "underscoreOK s =
     (let s1 = unsigned_part s
      in if 2 \<le> length s1 \<and> hd s1 = CHR ''0'' \<and> lower (s1 ! 1) \<in> {CHR ''b'', CHR ''o'', CHR ''x''}
         then underscores_from (lower (s1 ! 1) = CHR ''x'') CHR ''0'' (drop 2 s1)
         else underscores_from False CHR ''^'' s1)"

text \<open>
  The exponent after the mantissa: nothing, or the exponent character, a sign and digits, which
  stop being counted above \<open>10000\<close>. None if it is malformed or something follows it.
\<close>

definition exponent_val :: "string \<Rightarrow> int" where
  "exponent_val ds = int (foldl (\<lambda>e c. if e < 10000 then 10 * e + (of_char c - 48) else e) 0 (filter is_digit ds))"

definition read_exponent :: "char \<Rightarrow> string \<Rightarrow> int option" where
  "read_exponent expChar s =
     (if s \<noteq> [] \<and> lower (hd s) = expChar then
        (let s1 = tl s; s2 = (if s1 \<noteq> [] \<and> is_sign (hd s1) then tl s1 else s1)
         in if s2 \<noteq> [] \<and> is_digit (hd s2) \<and> list_all (\<lambda>c. is_digit c \<or> c = CHR ''_'') s2
            then Some (if hd s1 = CHR ''-'' then - exponent_val s2 else exponent_val s2) else None)
      else if s = [] \<and> expChar = CHR ''e'' then Some 0 else None)"

text \<open>
  \<open>readFloat\<close> on a whole string, with the value it stands for. The mantissa is an integer part and
  a fraction of digits and underscores with at least one digit; a hexadecimal one needs an exponent.
\<close>

definition hex_prefix :: "string \<Rightarrow> bool" where
  "hex_prefix s \<longleftrightarrow> 2 < length s \<and> hd s = CHR ''0'' \<and> lower (s ! 1) = CHR ''x''"

definition read_mantissa :: "bool \<Rightarrow> string \<Rightarrow> string \<times> string \<times> string" where
  "read_mantissa hex s =
     (let part = (\<lambda>c. (if hex then is_hex c else is_digit c) \<or> c = CHR ''_'');
          digits = filter (\<lambda>c. c \<noteq> CHR ''_'');
          rest = dropWhile part s
      in if rest \<noteq> [] \<and> hd rest = CHR ''.''
         then (digits (takeWhile part s), digits (takeWhile part (tl rest)), dropWhile part (tl rest))
         else (digits (takeWhile part s), [], rest))"

definition readFloat :: "string \<Rightarrow> rat option" where
  "readFloat s =
     (let s1 = unsigned_part s; hex = hex_prefix s1;
          (ds, fs, rest) = read_mantissa hex (if hex then drop 2 s1 else s1)
      in if ds @ fs = [] then None
         else case read_exponent (if hex then CHR ''p'' else CHR ''e'') rest of
           None \<Rightarrow> None
         | Some e \<Rightarrow>
             if CHR ''_'' \<in> set s \<and> \<not> underscoreOK s then None
             else
               let v = (if hex then of_nat (hex_val (ds @ fs)) / 16 ^ length fs * 2 powi e
                        else of_nat (digits_val (ds @ fs)) / 10 ^ length fs * 10 powi e)
               in Some (if hd s = CHR ''-'' then - v else v))"

definition special :: "string \<Rightarrow> f64 option" where
  "special s =
     (let l = map lower s
      in if l = ''nan'' then Some NaN
         else if l \<in> {''inf'', ''infinity'', ''+inf'', ''+infinity''} then Some (Inf False)
         else if l \<in> {''-inf'', ''-infinity''} then Some (Inf True) else None)"

text \<open>The left result is an error: the syntax is wrong or the value is too large.\<close>

definition ParseFloat :: "string \<Rightarrow> go_error + f64" where
  "ParseFloat s =
     (let msg = ''strconv.ParseFloat: parsing '' @ [CHR 0x22] @ s @ [CHR 0x22] @ '': ''
      in case special s of
           Some f \<Rightarrow> Inr f
         | None \<Rightarrow>
             (case readFloat s of
                None \<Rightarrow> Inl (msg @ ''invalid syntax'')
              | Some x \<Rightarrow>
                  (case f64_of x of
                     Fin y \<Rightarrow> Inr (Fin y)
                   | _ \<Rightarrow> Inl (msg @ ''value out of range''))))"

section \<open>The verb \<^verbatim>\<open>%f\<close>\<close>

text \<open>\<open>accept\<close> moves the next character to the token if it satisfies \<open>ok\<close>.\<close>

definition accept :: "(char \<Rightarrow> bool) \<Rightarrow> string \<times> string \<Rightarrow> bool \<times> string \<times> string" where
  "accept ok = (\<lambda>(tok, s). case s of
     c # cs \<Rightarrow> if ok c then (True, tok @ [c], cs) else (False, tok, s)
   | [] \<Rightarrow> (False, tok, s))"

fun accept_word :: "string \<Rightarrow> string \<times> string \<Rightarrow> bool \<times> string \<times> string" where
  "accept_word [] ts = (True, ts)"
| "accept_word (w # ws) ts =
     (case accept (\<lambda>c. lower c = w) ts of (True, ts') \<Rightarrow> accept_word ws ts' | (False, ts') \<Rightarrow> (False, ts'))"

definition accept_run :: "(char \<Rightarrow> bool) \<Rightarrow> string \<times> string \<Rightarrow> string \<times> string" where
  "accept_run ok = (\<lambda>(tok, s). (tok @ takeWhile ok s, dropWhile ok s))"

definition floatToken :: "string \<Rightarrow> string" where
  "floatToken s =
     (case accept_word ''nan'' ([], s) of
        (True, tok, _) \<Rightarrow> tok
      | (False, ts) \<Rightarrow>
          (case accept_word ''inf'' (snd (accept is_sign ts)) of
             (True, tok, _) \<Rightarrow> tok
           | (False, ts) \<Rightarrow>
               (case accept_word ''0x'' ts of (hex, ts) \<Rightarrow>
                let digits = (\<lambda>c. (if hex then is_hex c else is_digit c) \<or> c = CHR ''_'');
                    ts = accept_run digits ts;
                    ts = (case accept (\<lambda>c. c = CHR ''.'') ts of (True, ts) \<Rightarrow> accept_run digits ts | (False, ts) \<Rightarrow> ts)
                in case accept (\<lambda>c. lower c = CHR ''p'' \<or> \<not> hex \<and> lower c = CHR ''e'') ts of
                     (True, ts) \<Rightarrow> fst (accept_run (\<lambda>c. is_digit c \<or> c = CHR ''_'') (snd (accept is_sign ts)))
                   | (False, ts) \<Rightarrow> fst ts)))"

definition Atoi :: "string \<Rightarrow> int option" where
  "Atoi s =
     (let ds = unsigned_part s;
          v = (if s \<noteq> [] \<and> hd s = CHR ''-'' then - int (digits_val ds) else int (digits_val ds))
      in if ds \<noteq> [] \<and> list_all is_digit ds \<and> in_i64 v then Some v else None)"

text \<open>A decimal mantissa may have a binary exponent here.\<close>

definition convertFloat :: "string \<Rightarrow> f64 option" where
  "convertFloat tok =
     (if CHR ''p'' \<in> set tok \<and> CHR ''x'' \<notin> set (map lower tok) then
        (case ParseFloat (takeWhile (\<lambda>c. c \<noteq> CHR ''p'') tok) of
           Inl _ \<Rightarrow> None
         | Inr f \<Rightarrow>
             (case Atoi (tl (dropWhile (\<lambda>c. c \<noteq> CHR ''p'') tok)) of
                None \<Rightarrow> None
              | Some m \<Rightarrow> Some (f64_scale f (2 powi m))))
      else case ParseFloat tok of Inl _ \<Rightarrow> None | Inr f \<Rightarrow> Some f)"

text \<open>
  \<^verbatim>\<open>fmt.Sscanf(s, "%f", &x)\<close>, whose error the callers ignore: None leaves \<open>x\<close> as it was. White space
  is skipped but for a newline, which is an error.
\<close>

definition sscanf_float :: "string \<Rightarrow> f64 option" where
  "sscanf_float s =
     (let rest = trim_left (filter (\<lambda>p. p \<noteq> [char_of (10 :: nat)]) spaces) s
      in if rest = [] \<or> hd rest = char_of (10 :: nat) then None else convertFloat (floatToken rest))"

section \<open>Reading a printed number\<close>

lemma digits_val_append: "digits_val (s @ t) = digits_val s * 10 ^ length t + digits_val t"
proof (induction t rule: rev_induct)
  case (snoc c t)
  have "digits_val (s @ t @ [c]) = 10 * digits_val (s @ t) + (of_char c - 48)"
    using digits_val_snoc [of "s @ t" c] by simp
  with snoc show ?case by (simp add: digits_val_snoc algebra_simps)
qed (simp add: digits_val_def)

lemma digits_val_zeros: "digits_val (replicate k CHR ''0'') = 0"
proof (induction k)
  case (Suc k)
  then show ?case using digits_val_snoc [of "replicate k CHR ''0''" "CHR ''0''"] by (simp add: replicate_append_same)
qed (simp add: digits_val_def)

lemma length_show_nat: "n < 10 ^ Suc k \<Longrightarrow> length (show_nat n) \<le> Suc k"
proof (induction k arbitrary: n)
  case (Suc k)
  show ?case
  proof (cases "n < 10")
    case False
    then have "n div 10 < 10 ^ Suc k" using Suc.prems by (simp add: div_less_iff_less_mult)
    from Suc.IH [OF this] False show ?thesis by (simp add: show_nat.simps [of n])
  qed (simp add: show_nat.simps [of n])
next
  case 0
  then show ?case by (simp add: show_nat.simps [of n])
qed

lemma pad8_digits:
  assumes "m < 10 ^ 8"
  shows "length (pad8 m) = 8" "digits_val (pad8 m) = m" "list_all is_digit (pad8 m)"
proof -
  have "length (show_nat m) \<le> 8" using length_show_nat [of m 7] assms by simp
  then show "length (pad8 m) = 8" by (simp add: pad8_def)
  show "digits_val (pad8 m) = m" by (simp add: pad8_def digits_val_append digits_val_zeros)
  show "list_all is_digit (pad8 m)"
    using show_nat_chars by (fastforce simp: pad8_def list_all_iff is_digit_def)
qed

lemma show_nat_all_digits: "list_all is_digit (show_nat n)"
  using show_nat_chars by (fastforce simp: list_all_iff is_digit_def)

lemma is_digit_not: "is_digit c \<Longrightarrow> c \<noteq> CHR ''_'' \<and> c \<noteq> CHR ''.'' \<and> \<not> is_sign c \<and> lower c \<noteq> CHR ''x''"
  by (auto simp: is_digit_def is_sign_def lower_def)

text \<open>An integer part and a fraction of digits, without an exponent.\<close>

lemma readFloat_decimal:
  assumes "list_all is_digit a" "list_all is_digit b" "a \<noteq> []"
  shows "readFloat (a @ CHR ''.'' # b) = Some (of_nat (digits_val (a @ b)) / 10 ^ length b)" (is ?pos)
    and "readFloat (CHR ''-'' # a @ CHR ''.'' # b) = Some (- (of_nat (digits_val (a @ b)) / 10 ^ length b))" (is ?neg)
proof -
  let ?s = "a @ CHR ''.'' # b" and ?v = "of_nat (digits_val (a @ b)) / 10 ^ length b :: rat"
  have under: "CHR ''_'' \<notin> set a" "CHR ''_'' \<notin> set b"
    using assms is_digit_not by (auto simp: list_all_iff)
  then have flt: "filter (\<lambda>c. c \<noteq> CHR ''_'') a = a" "filter (\<lambda>c. c \<noteq> CHR ''_'') b = b"
    by (auto simp: filter_id_conv)
  have "\<not> is_digit (CHR ''.'')" by (simp add: is_digit_def)
  moreover have tw: "takeWhile (\<lambda>c. is_digit c \<or> c = CHR ''_'') b = b"
    using assms(2) by (simp add: takeWhile_eq_all_conv list_all_iff)
  ultimately have mant: "read_mantissa False ?s = (a, b, [])"
    using assms flt by (simp add: read_mantissa_def Let_def list_all_iff takeWhile_append2 dropWhile_append2 tw)
  obtain c cs where a: "a = c # cs" using assms(3) by (cases a) auto
  then have c: "\<not> is_sign c" "c \<noteq> CHR ''-''" using assms(1) is_digit_not [of c] by (auto simp: is_sign_def)
  have "lower (?s ! 1) \<noteq> CHR ''x''"
    using assms(1) a is_digit_not [of "hd cs"] by (cases cs) (auto simp: lower_def)
  then have hex: "hex_prefix ?s = False" by (simp add: hex_prefix_def)
  have uns: "unsigned_part ?s = ?s" "unsigned_part (CHR ''-'' # ?s) = ?s"
    using c a by (simp_all add: unsigned_part_def is_sign_def)
  have exp: "read_exponent CHR ''e'' [] = Some 0" by (simp add: read_exponent_def)
  have hd: "hd ?s \<noteq> CHR ''-''" using c a by simp
  show ?pos
    unfolding readFloat_def Let_def uns hex if_False mant prod.case exp option.case
    using under assms(3) hd by simp
  show ?neg
    unfolding readFloat_def Let_def uns hex if_False mant prod.case exp option.case
    using under assms(3) by simp
qed

lemma readFloat_fixed8: "readFloat (fixed8 neg n) = Some (if neg then - (of_nat n / 10 ^ 8) else of_nat n / 10 ^ 8)"
proof -
  have m: "n mod 10 ^ 8 < 10 ^ 8" by simp
  have v: "digits_val (show_nat (n div 10 ^ 8) @ pad8 (n mod 10 ^ 8)) = n"
    using pad8_digits [OF m] by (simp add: digits_val_append)
  have ne: "show_nat (n div 10 ^ 8) \<noteq> []" by (subst show_nat.simps) simp
  show ?thesis
    using readFloat_decimal [OF show_nat_all_digits pad8_digits(3) [OF m] ne] pad8_digits(1) [OF m] v
    by (simp add: fixed8_def)
qed

lemma special_fixed8: "special (fixed8 neg n) = None"
proof -
  have "CHR ''.'' \<in> set (map lower (fixed8 neg n))"
    by (auto simp: fixed8_def lower_def)
  then have "map lower (fixed8 neg n) \<noteq> w" if "CHR ''.'' \<notin> set w" for w using that by metis
  then show ?thesis by (simp add: special_def Let_def)
qed

text \<open>
  Scaling the number read from eight decimals back to an integer: both roundings together lose less
  than one unit, but the conversion drops the fraction.
\<close>

lemma fl_near:
  assumes "2 powi (- 1022) \<le> x" "x \<le> 2 ^ 63"
  shows "\<bar>fl x - x\<bar> \<le> x / 2 ^ 53" "f64_of x = Fin (fl x)"
proof -
  have "0 < x" using assms(1) less_le_trans [OF _ assms(1)] by simp
  then show le: "\<bar>fl x - x\<bar> \<le> x / 2 ^ 53" using fl_relative_error [of x] assms(1) by simp
  have "x / 2 ^ 53 \<le> x" using \<open>0 < x\<close> by simp
  with le have "\<bar>fl x\<bar> \<le> 2 * x" using \<open>0 < x\<close> by linarith
  also have "\<dots> < 2 ^ 1024" using assms(2) by simp
  finally show "f64_of x = Fin (fl x)" by (simp add: f64_of_def)
qed

lemma trunc_near:
  assumes "\<bar>x - of_int n\<bar> < 1" "0 \<le> x" "0 \<le> n"
  shows "trunc x = n \<or> trunc x = n - 1"
proof -
  have "of_int n - 1 < x" "x < of_int n + 1" using assms(1) by linarith+
  then have "\<lfloor>x\<rfloor> \<le> n" "n - 1 \<le> \<lfloor>x\<rfloor>" by linarith+
  with assms(2) show ?thesis by (simp add: trunc_def) linarith
qed

lemma scale_back:
  assumes "0 \<le> n" "n < 2 ^ 51"
  shows "\<exists>y. f64_of (of_int n / 10 ^ 8) = Fin y \<and> f64_to_i64 (f64_scale (Fin y) (10 ^ 8)) \<in> {n, n - 1}"
proof (cases "n = 0")
  case True
  then show ?thesis by (simp add: f64_of_def trunc_def)
next
  case False
  let ?x = "of_int n / 10 ^ 8 :: rat" and ?n = "of_int n :: rat"
  have n1: "1 \<le> ?n" "?n < 2 ^ 51" using False assms by simp_all
  have small: "2 powi (- 1022) \<le> (1 / 10 ^ 9 :: rat)" by (simp add: power_int_minus)
  have x: "1 / 10 ^ 9 \<le> ?x" "?x \<le> 2 ^ 63" using n1 by (simp_all add: field_simps)
  note y = fl_near [OF order_trans [OF small x(1)] x(2)]
  define z where "z = fl ?x * 10 ^ 8"
  have "z - ?n = (fl ?x - ?x) * 10 ^ 8" by (simp add: z_def left_diff_distrib)
  then have "\<bar>z - ?n\<bar> = \<bar>fl ?x - ?x\<bar> * 10 ^ 8" by (simp only: abs_mult) simp
  with y(1) have zn: "\<bar>z - ?n\<bar> \<le> ?n / 2 ^ 53" by (simp add: field_simps)
  have "?n / 2 ^ 53 < 1 / 4" using n1(2) by simp
  then have "1 / 2 \<le> z" "z \<le> ?n + 1 / 4" using zn n1(1) by linarith+
  then have z: "1 / 10 ^ 9 \<le> z" "z \<le> 2 ^ 63" "z / 2 ^ 53 < 1 / 2" using n1(2) by simp_all
  note w = fl_near [OF order_trans [OF small z(1)] z(2)]
  have wn: "\<bar>fl z - ?n\<bar> < 1" "0 \<le> fl z"
    using w(1) zn z(3) \<open>?n / 2 ^ 53 < 1 / 4\<close> \<open>1 / 2 \<le> z\<close> by linarith+
  have t: "trunc (fl z) = n \<or> trunc (fl z) = n - 1" using trunc_near [OF wn assms(1)] .
  then have "in_i64 (trunc (fl z))" using assms by (auto simp: in_i64_def)
  with y(2) w(2) t show ?thesis by (auto simp: z_def)
qed

section \<open>White space\<close>

lemma trim_left_id:
  assumes "s \<noteq> []" "\<forall>p \<in> set ps. p \<noteq> [] \<and> hd p \<noteq> hd s"
  shows "trim_left ps s = s"
proof -
  obtain c cs where s: "s = c # cs" using assms(1) by (cases s) auto
  have "filter (starts_with s) ps = []"
    using assms(2) s by (auto simp: filter_empty_conv starts_with_def neq_Nil_conv)
  then show ?thesis by (simp add: trim_left_def s)
qed

lemma spaces_not_digits:
  "list_all (\<lambda>p. p \<noteq> [] \<and> \<not> is_digit (hd p) \<and> hd p \<noteq> CHR ''-'' \<and> \<not> is_digit (last p)) spaces"
  by code_simp

end
