(* ===== verification/Orders.thy ===== *)
theory Orders
  imports ParseFloat Events
begin

text \<open>
  \<^verbatim>\<open>src/biz/model/order.go\<close> and the number formats of \<^verbatim>\<open>src/biz/model/event.go\<close>: prices and quantities as
  text and as integers of \<open>10 ^ -8\<close>, and what is lost between the two.
\<close>

section \<open>Prices and quantities as text\<close>

definition PriceInNano_String :: "PriceInNano \<Rightarrow> string" where
  "PriceInNano_String p = format8 (nano_to_float p)"

definition QuantityInNano_String :: "QuantityInNano \<Rightarrow> string" where
  "QuantityInNano_String q = format8 (nano_to_float q)"

definition ParsePrice :: "string \<Rightarrow> go_error + PriceInNano" where
  "ParsePrice priceStr =
     (let priceStr = TrimSpace priceStr
      in case ParseFloat priceStr of
           Inl _ \<Rightarrow> Inl (''invalid price format: '' @ priceStr)
         | Inr price \<Rightarrow> Inr (f64_to_i64 (f64_scale price (10 ^ 8))))"

definition ParseQuantity :: "string \<Rightarrow> go_error + QuantityInNano" where
  "ParseQuantity qtyStr =
     (let qtyStr = TrimSpace qtyStr
      in case ParseFloat qtyStr of
           Inl _ \<Rightarrow> Inl (''invalid quantity format: '' @ qtyStr)
         | Inr qty \<Rightarrow> Inr (f64_to_i64 (f64_scale qty (10 ^ 8))))"

lemma in_i64_parsed: "ParseQuantity s = Inr q \<Longrightarrow> in_i64 q" "ParsePrice s = Inr q \<Longrightarrow> in_i64 q"
  by (auto simp: ParseQuantity_def ParsePrice_def Let_def in_i64_to_i64 split: sum.splits)

section \<open>Order messages\<close>

record SubmitOrderMsg =
  so_OrderID :: string
  so_Symbol :: string
  so_Side :: string
  so_Price :: string
  so_Quantity :: string
  so_UserID :: string

record SubmitOrderMsgInternal =
  si_OrderID :: string
  si_Symbol :: string
  si_Side :: string
  si_Price :: PriceInNano
  si_Quantity :: QuantityInNano
  si_UserID :: string

definition ToInternal :: "SubmitOrderMsg \<Rightarrow> go_error + SubmitOrderMsgInternal" where
  "ToInternal s =
     (case ParsePrice (so_Price s) of Inl err \<Rightarrow> Inl err | Inr price \<Rightarrow>
      case ParseQuantity (so_Quantity s) of Inl err \<Rightarrow> Inl err | Inr quantity \<Rightarrow>
        Inr \<lparr>si_OrderID = so_OrderID s, si_Symbol = so_Symbol s, si_Side = so_Side s, si_Price = price,
             si_Quantity = quantity, si_UserID = so_UserID s\<rparr>)"

section \<open>What a printed quantity is read as\<close>

lemma fixed8_ends: "is_digit (hd (fixed8 neg n)) \<or> hd (fixed8 neg n) = CHR ''-''" "is_digit (last (fixed8 neg n))"
proof -
  have ne: "show_nat k \<noteq> []" for k by (subst show_nat.simps) simp
  have dig: "is_digit c" if "c \<in> set (show_nat k)" for c k using show_nat_all_digits [of k] that by (simp add: list_all_iff)
  show "is_digit (hd (fixed8 neg n)) \<or> hd (fixed8 neg n) = CHR ''-''"
    using ne dig [OF hd_in_set [OF ne]] by (simp add: fixed8_def)
  show "is_digit (last (fixed8 neg n))"
    using ne dig [OF last_in_set [OF ne]] by (simp add: fixed8_def pad8_def)
qed

lemma TrimSpace_fixed8: "TrimSpace (fixed8 neg n) = fixed8 neg n"
proof -
  let ?s = "fixed8 neg n"
  have ne: "?s \<noteq> []" by (simp add: fixed8_def)
  have sp: "p \<noteq> [] \<and> hd p \<noteq> hd ?s \<and> last p \<noteq> last ?s" if "p \<in> set spaces" for p
    using spaces_not_digits that fixed8_ends [of neg n] unfolding list_all_iff by metis
  have "trim_left spaces ?s = ?s" by (rule trim_left_id) (use ne sp in auto)
  moreover have "trim_left (map rev spaces) (rev ?s) = rev ?s"
    by (rule trim_left_id) (use ne sp in \<open>auto simp: hd_rev\<close>)
  ultimately show ?thesis by (simp add: TrimSpace_def)
qed

lemma parse_fixed8:
  assumes "f64_of (if neg then - (of_nat n / 10 ^ 8) else of_nat n / 10 ^ 8) = Fin y"
  shows "ParseQuantity (fixed8 neg n) = Inr (f64_to_i64 (f64_scale (Fin y) (10 ^ 8)))"
    and "ParsePrice (fixed8 neg n) = Inr (f64_to_i64 (f64_scale (Fin y) (10 ^ 8)))"
  using assms
  by (simp_all add: ParseQuantity_def ParsePrice_def ParseFloat_def TrimSpace_fixed8 special_fixed8 readFloat_fixed8 Let_def)

text \<open>
  C16. A quantity or price below \<open>2 ^ 51\<close> units that is printed and read back, as happens to both legs
  of every trade, comes back as itself or as one unit less.
\<close>

theorem printed_amount_read_back:
  assumes "0 \<le> q" "q < 2 ^ 51"
  shows "ParseQuantity (QuantityInNano_String q) \<in> {Inr q, Inr (q - 1)} \<and>
    ParsePrice (PriceInNano_String q) = ParseQuantity (QuantityInNano_String q)"
proof -
  have str: "QuantityInNano_String q = fixed8 False (nat q)" "PriceInNano_String q = fixed8 False (nat q)"
    using format8_nano [of q] assms by (simp_all add: QuantityInNano_String_def PriceInNano_String_def)
  obtain y where y: "f64_of (of_int q / 10 ^ 8) = Fin y" "f64_to_i64 (f64_scale (Fin y) (10 ^ 8)) \<in> {q, q - 1}"
    using scale_back [OF assms] by blast
  have q: "(of_nat (nat q) :: rat) = of_int q" using assms(1) by simp
  show ?thesis
    using parse_fixed8 [of False "nat q" y] y unfolding str by (auto simp: q)
qed

text \<open>The loss happens: 0.29 is read back as 0.28999999.\<close>

lemma read_back_29: "ParseQuantity (QuantityInNano_String 29000000) = Inr 28999999"
proof -
  let ?y = "5224175567749775 / 18014398509481984 :: rat" and ?z = "7784628223999999 / 268435456 :: rat"
  have y: "fl (29 / 100) = ?y" and z: "fl (?y * 10 ^ 8) = ?z" by code_simp+
  have small: "2 powi (- 1022) \<le> (1 / 10 :: rat)" by (simp add: power_int_minus)
  have fy: "f64_of (29 / 100) = Fin ?y" and fz: "f64_of (?y * 10 ^ 8) = Fin ?z"
    using fl_near(2) [of "29 / 100"] fl_near(2) [of "?y * 10 ^ 8"] order_trans [OF small] y z by simp_all
  have str: "QuantityInNano_String 29000000 = fixed8 False 29000000"
    using format8_nano [of 29000000] by (simp add: QuantityInNano_String_def)
  have "\<lfloor>?z\<rfloor> = 28999999" by (simp add: floor_eq_iff)
  then have "f64_to_i64 (f64_scale (Fin ?y) (10 ^ 8)) = 28999999"
    unfolding f64_scale.simps fz by (simp add: trunc_def in_i64_def)
  then show ?thesis
    using parse_fixed8(1) [of False 29000000 ?y] fy by (simp add: str)
qed

theorem printed_amount_read_back_witness:
  "ParseQuantity (QuantityInNano_String 29000000) = Inr 28999999 \<and>
   ParsePrice (PriceInNano_String 29000000) = ParseQuantity (QuantityInNano_String 29000000)"
  using printed_amount_read_back [of 29000000] read_back_29 by simp

end
