(* ===== verification/MatchEngine.thy ===== *)
theory MatchEngine
  imports OrderBookLaws EventPipeline Orders "HOL-Library.Code_Target_Nat" "HOL-Library.Sublist"
begin

text \<open>
  \<^verbatim>\<open>src/biz/service/match_engine.go\<close>: orders are checked, numbered, put through the event pipeline and
  queued; one worker per symbol matches them against the symbol's book and publishes the trades.

  \<open>SubmitOrder\<close> holds no lock, so a running engine (\<open>engine_reach\<close>) takes it in steps: the order gets its id,
  its event gets its number, the event goes through the pipeline, the queue and the book are looked up
  or made, the order is sent to the queue. A worker's work on an order is several steps as well: it
  matches the order, which gives the trades their sequence numbers, then publishes them one by one, then
  notifies the user. The steps of all calls and workers interleave. Messages to WebSocket clients are
  recorded in the order they are sent.
\<close>

section \<open>Reading an order\<close>

definition parsePrice :: "string \<Rightarrow> PriceInNano" where
  "parsePrice priceStr =
     (let price = (case sscanf_float priceStr of None \<Rightarrow> Fin 0 | Some f \<Rightarrow> f)
      in f64_to_i64 (f64_scale price (10 ^ 8)))"

definition parseQuantity :: "string \<Rightarrow> QuantityInNano" where
  "parseQuantity qtyStr =
     (let qty = (case sscanf_float qtyStr of None \<Rightarrow> Fin 0 | Some f \<Rightarrow> f)
      in f64_to_i64 (f64_scale qty (10 ^ 8)))"

record OrderQueueItem =
  qi_orderMsg :: SubmitOrderMsg

section \<open>The engine\<close>

datatype sent = Broadcast string json | Unicast string json

text \<open>
  The engine with what its pipeline works on: the world of the processors and the checkpoint
  database. \<open>me_broadcaster\<close> and \<open>me_unicaster\<close> tell whether the functions are set.
\<close>

record ('s, 'l, 'w, 'd) MatchEngine =
  me_orderQueues :: "string \<rightharpoonup> OrderQueueItem list"
  me_orderBooks :: "string \<rightharpoonup> 's OrderBook"
  me_eventPipeline :: "('l, 'w) EventPipeline"
  me_sequencer :: Sequencer
  me_cancelled :: bool
  me_broadcaster :: bool
  me_unicaster :: bool
  me_world :: 'w
  me_checkpoints :: 'd
  me_sent :: "sent list"

text \<open>What the engine is built on: the skip list, the event store, the checkpoint table and the scheduler.\<close>

record ('s, 'l, 'w, 'd) engine_deps =
  dp_prices :: "'s price_ops"
  dp_store :: "'l event_store_ops"
  dp_db :: "'d checkpoint_db"
  dp_sched :: "'w EventProcessor list \<Rightarrow> 'w EventProcessor list"
  dp_keys :: "string list"

text \<open>The readings of the clock in the handling of one order.\<close>

datatype reading = AtID | AtSubmit | AtDispatch nat | AtEntry | AtTrade nat | AtNotify

definition NewMatchEngine ::
  "('l, 'w) EventPipeline \<Rightarrow> Sequencer \<Rightarrow> bool \<Rightarrow> bool \<Rightarrow> 'w \<Rightarrow> 'd \<Rightarrow> ('s, 'l, 'w, 'd) MatchEngine" where
  "NewMatchEngine eventPipeline sequencer broadcaster unicaster w d =
     \<lparr>me_orderQueues = Map.empty, me_orderBooks = Map.empty, me_eventPipeline = eventPipeline,
      me_sequencer = sequencer, me_cancelled = False, me_broadcaster = broadcaster, me_unicaster = unicaster,
      me_world = w, me_checkpoints = d, me_sent = []\<rparr>"

definition publish ::
  "('s, 'l, 'w, 'd) engine_deps \<Rightarrow> int \<Rightarrow> MatchingEngineEvent \<Rightarrow> ('s, 'l, 'w, 'd) MatchEngine \<Rightarrow>
   (go_error option \<times> ('s, 'l, 'w, 'd) MatchEngine) outcome" where
  "publish dp now event me =
     (case ProcessEvent (dp_store dp) (dp_db dp) now (dp_sched dp) (dp_keys dp) (Some event)
         (me_eventPipeline me) (me_world me) (me_checkpoints me) of
        Panics \<Rightarrow> Panics
      | Returns (err, ep, w, d) \<Rightarrow>
          Returns (err, me\<lparr>me_eventPipeline := ep, me_world := w, me_checkpoints := d\<rparr>))"

section \<open>Submitting\<close>

definition open_queue :: "string \<Rightarrow> ('s, 'l, 'w, 'd) MatchEngine \<Rightarrow> ('s, 'l, 'w, 'd) MatchEngine" where
  "open_queue symbol me =
     (case me_orderQueues me symbol of
        None \<Rightarrow> me\<lparr>me_orderQueues := (me_orderQueues me)(symbol \<mapsto> [])\<rparr>
      | Some _ \<Rightarrow> me)"

definition open_book ::
  "('s, 'l, 'w, 'd) engine_deps \<Rightarrow> string \<Rightarrow> ('s, 'l, 'w, 'd) MatchEngine \<Rightarrow> ('s, 'l, 'w, 'd) MatchEngine" where
  "open_book dp symbol me =
     (case me_orderBooks me symbol of
        None \<Rightarrow> me\<lparr>me_orderBooks := (me_orderBooks me)(symbol \<mapsto> NewOrderBook (dp_prices dp) symbol)\<rparr>
      | Some _ \<Rightarrow> me)"

text \<open>
  A full queue blocks the caller (None) until the engine is shut down; on shutdown the runtime may
  take either branch of the \<open>select\<close>, and \<open>dropped\<close> is its choice. The result also tells whether the
  order is in the queue.
\<close>

definition send ::
  "bool \<Rightarrow> SubmitOrderMsg \<Rightarrow> ('s, 'l, 'w, 'd) MatchEngine \<Rightarrow> (bool \<times> ('s, 'l, 'w, 'd) MatchEngine) option" where
  "send dropped order me =
     (let queue = mget [] (me_orderQueues me) (so_Symbol order)
      in if int (length queue) < 10000 \<and> \<not> (me_cancelled me \<and> dropped)
         then Some (True, me\<lparr>me_orderQueues := (me_orderQueues me)(so_Symbol order \<mapsto> queue @ [\<lparr>qi_orderMsg = order\<rparr>])\<rparr>)
         else if me_cancelled me then Some (False, me) else None)"

definition enqueueOrder ::
  "('s, 'l, 'w, 'd) engine_deps \<Rightarrow> bool \<Rightarrow> SubmitOrderMsg \<Rightarrow> ('s, 'l, 'w, 'd) MatchEngine \<Rightarrow>
   ('s, 'l, 'w, 'd) MatchEngine option" where
  "enqueueOrder dp dropped order me =
     map_option snd (send dropped order (open_book dp (so_Symbol order) (open_queue (so_Symbol order) me)))"

definition submitted_event :: "(reading \<Rightarrow> int) \<Rightarrow> u64 \<Rightarrow> SubmitOrderMsg \<Rightarrow> OrderSubmittedEvent" where
  "submitted_event now seq order =
     \<lparr>os_Seq = seq, os_Timestamp = now AtSubmit, os_OrderID = so_OrderID order, os_UserID = so_UserID order,
      os_SymbolStr = so_Symbol order, os_Side = so_Side order, os_Price = parsePrice (so_Price order),
      os_Quantity = parseQuantity (so_Quantity order), os_Status = ''submitted''\<rparr>"

definition invalid_order :: "SubmitOrderMsg \<Rightarrow> bool" where
  "invalid_order order \<longleftrightarrow> so_Symbol order = [] \<or> so_Side order = [] \<or> so_UserID order = []"

definition assign_id ::
  "(reading \<Rightarrow> int) \<Rightarrow> SubmitOrderMsg \<Rightarrow> Sequencer \<Rightarrow> SubmitOrderMsg \<times> Sequencer" where
  "assign_id now order sq =
     (if so_OrderID order = [] then
        (case NextGlobalSeq sq of (n, sq') \<Rightarrow>
           (order\<lparr>so_OrderID := ''ord-'' @ show_int (now AtID) @ ''-'' @ show_nat (unat n)\<rparr>, sq'))
      else (order, sq))"

text \<open>The message of the result is the order as it was queued, with its id.\<close>

definition SubmitOrder ::
  "('s, 'l, 'w, 'd) engine_deps \<Rightarrow> (reading \<Rightarrow> int) \<Rightarrow> bool \<Rightarrow> SubmitOrderMsg \<Rightarrow> ('s, 'l, 'w, 'd) MatchEngine \<Rightarrow>
   (go_error option \<times> SubmitOrderMsg \<times> ('s, 'l, 'w, 'd) MatchEngine) outcome option" where
  "SubmitOrder dp now dropped order me =
     (if invalid_order order
      then Some (Returns (Some ''invalid order: missing required fields'', order, me))
      else
        case assign_id now order (me_sequencer me) of (order, sq1) \<Rightarrow>
        case NextGlobalSeq sq1 of (seq, sq2) \<Rightarrow>
        case publish dp (now (AtDispatch 0)) (OrderSubmitted (submitted_event now seq order)) (me\<lparr>me_sequencer := sq2\<rparr>) of
          Panics \<Rightarrow> Some Panics
        | Returns (Some err, me1) \<Rightarrow> Some (Returns (Some err, order, me1))
        | Returns (None, me1) \<Rightarrow> map_option (\<lambda>me2. Returns (None, order, me2)) (enqueueOrder dp dropped order me1))"

section \<open>Processing\<close>

definition order_entry :: "(reading \<Rightarrow> int) \<Rightarrow> string \<Rightarrow> SubmitOrderMsg \<Rightarrow> u64 \<Rightarrow> OrderBookEntry" where
  "order_entry now symbol orderMsg seq =
     \<lparr>obe_OrderID = so_OrderID orderMsg, obe_UserID = so_UserID orderMsg, obe_Symbol = symbol,
      obe_Side = so_Side orderMsg, obe_Price = parsePrice (so_Price orderMsg),
      obe_Quantity = parseQuantity (so_Quantity orderMsg), obe_FilledQty = 0,
      obe_SubmitTime = now AtEntry, obe_SequenceNum = seq\<rparr>"

text \<open>
  Matching; None if the symbol has no book, which a worker never sees, or the loop does not end.
  \<open>drawn i\<close> numbers are drawn by other goroutines before the \<open>i\<close>-th trade.
\<close>

definition match_order ::
  "('s, 'l, 'w, 'd) engine_deps \<Rightarrow> (reading \<Rightarrow> int) \<Rightarrow> (nat \<Rightarrow> nat) \<Rightarrow> string \<Rightarrow> SubmitOrderMsg \<Rightarrow> ('s, 'l, 'w, 'd) MatchEngine \<Rightarrow>
   (MatchingEngineEvent list \<times> QuantityInNano \<times> ('s, 'l, 'w, 'd) MatchEngine) option" where
  "match_order dp now drawn symbol orderMsg me =
     (case me_orderBooks me symbol of None \<Rightarrow> None | Some ob \<Rightarrow>
      case NextGlobalSeq (me_sequencer me) of (seq, sq1) \<Rightarrow>
      case alloc_entry (order_entry now symbol orderMsg seq) ob of (oa, ob1) \<Rightarrow>
      case MatchOrder (dp_prices dp) (\<lambda>i. (now (AtTrade i), drawn i)) oa ob1 sq1 of
        None \<Rightarrow> None
      | Some (tradeEvents, remainingQty, ob2, sq2) \<Rightarrow>
          Some (tradeEvents, remainingQty,
            me\<lparr>me_orderBooks := (me_orderBooks me)(symbol \<mapsto> ob2), me_sequencer := sq2\<rparr>))"

definition trade_message :: "TradeExecutedEvent \<Rightarrow> json" where
  "trade_message trade = JObj
     [(''maker'', enc_str (te_MakerUser trade)), (''price'', JStr (format8 (nano_to_float (te_Price trade)))),
      (''quantity'', JStr (format8 (nano_to_float (te_Quantity trade)))), (''symbol'', enc_str (te_SymbolStr trade)),
      (''taker'', enc_str (te_TakerUser trade)), (''timestamp'', enc_i64 (te_Timestamp trade)),
      (''trade_id'', enc_str (te_TradeID trade)), (''type'', JStr ''trade'')]"

text \<open>Calling a unicaster that is not set panics; the broadcaster alone is checked.\<close>

definition broadcastTrade ::
  "TradeExecutedEvent \<Rightarrow> ('s, 'l, 'w, 'd) MatchEngine \<Rightarrow> ('s, 'l, 'w, 'd) MatchEngine outcome" where
  "broadcastTrade trade me =
     (if \<not> me_broadcaster me then Returns me
      else
        let data = trade_message trade;
            users = filter (\<lambda>u. u \<noteq> []) [te_TakerUser trade, te_MakerUser trade]
        in if users \<noteq> [] \<and> \<not> me_unicaster me then Panics
           else Returns (me\<lparr>me_sent := me_sent me @ Broadcast (te_SymbolStr trade) data # map (\<lambda>u. Unicast u data) users\<rparr>))"

definition notifyOrderFilled ::
  "(reading \<Rightarrow> int) \<Rightarrow> SubmitOrderMsg \<Rightarrow> ('s, 'l, 'w, 'd) MatchEngine \<Rightarrow> ('s, 'l, 'w, 'd) MatchEngine" where
  "notifyOrderFilled now order me =
     (if \<not> me_unicaster me then me
      else me\<lparr>me_sent := me_sent me @ [Unicast (so_UserID order) (JObj
             [(''order_id'', enc_str (so_OrderID order)), (''status'', JStr ''filled''),
              (''timestamp'', enc_i64 (now AtNotify)), (''type'', JStr ''order_status'')])]\<rparr>)"

definition notifyOrderPending ::
  "(reading \<Rightarrow> int) \<Rightarrow> SubmitOrderMsg \<Rightarrow> QuantityInNano \<Rightarrow> ('s, 'l, 'w, 'd) MatchEngine \<Rightarrow> ('s, 'l, 'w, 'd) MatchEngine" where
  "notifyOrderPending now order remainingQty me =
     (if \<not> me_unicaster me then me
      else me\<lparr>me_sent := me_sent me @ [Unicast (so_UserID order) (JObj
             [(''order_id'', enc_str (so_OrderID order)), (''remaining_qty'', JStr (format8 (nano_to_float remainingQty))),
              (''status'', JStr ''pending''), (''timestamp'', enc_i64 (now AtNotify)), (''type'', JStr ''order_status'')])]\<rparr>)"

text \<open>One round of the loop over the trades; an error of the pipeline is only logged.\<close>

definition publish_trade ::
  "('s, 'l, 'w, 'd) engine_deps \<Rightarrow> int \<Rightarrow> MatchingEngineEvent \<Rightarrow> ('s, 'l, 'w, 'd) MatchEngine \<Rightarrow>
   ('s, 'l, 'w, 'd) MatchEngine outcome" where
  "publish_trade dp now event me =
     (case publish dp now event me of
        Panics \<Rightarrow> Panics
      | Returns (err, me1) \<Rightarrow> (case event of TradeExecuted trade \<Rightarrow> broadcastTrade trade me1 | _ \<Rightarrow> Panics))"

definition notify ::
  "(reading \<Rightarrow> int) \<Rightarrow> SubmitOrderMsg \<Rightarrow> QuantityInNano \<Rightarrow> nat \<Rightarrow> ('s, 'l, 'w, 'd) MatchEngine \<Rightarrow> ('s, 'l, 'w, 'd) MatchEngine" where
  "notify now orderMsg remainingQty trades me =
     (if remainingQty = 0 \<and> trades > 0 then notifyOrderFilled now orderMsg me
      else if remainingQty > 0 then notifyOrderPending now orderMsg remainingQty me else me)"

fun publish_trades ::
  "('s, 'l, 'w, 'd) engine_deps \<Rightarrow> (reading \<Rightarrow> int) \<Rightarrow> nat \<Rightarrow> MatchingEngineEvent list \<Rightarrow> ('s, 'l, 'w, 'd) MatchEngine \<Rightarrow>
   ('s, 'l, 'w, 'd) MatchEngine outcome" where
  "publish_trades dp now i [] me = Returns me"
| "publish_trades dp now i (event # events) me =
     (case publish_trade dp (now (AtDispatch i)) event me of
        Panics \<Rightarrow> Panics
      | Returns me1 \<Rightarrow> publish_trades dp now (Suc i) events me1)"

definition processOrder ::
  "('s, 'l, 'w, 'd) engine_deps \<Rightarrow> (reading \<Rightarrow> int) \<Rightarrow> (nat \<Rightarrow> nat) \<Rightarrow> string \<Rightarrow> SubmitOrderMsg \<Rightarrow> ('s, 'l, 'w, 'd) MatchEngine \<Rightarrow>
   ('s, 'l, 'w, 'd) MatchEngine outcome option" where
  "processOrder dp now drawn symbol orderMsg me =
     (case match_order dp now drawn symbol orderMsg me of
        None \<Rightarrow> None
      | Some (tradeEvents, remainingQty, me1) \<Rightarrow>
          Some (case publish_trades dp now 0 tradeEvents me1 of
             Panics \<Rightarrow> Panics
           | Returns me2 \<Rightarrow> Returns (notify now orderMsg remainingQty (length tradeEvents) me2)))"

definition Shutdown :: "('s, 'l, 'w, 'd) MatchEngine \<Rightarrow> ('s, 'l, 'w, 'd) MatchEngine" where
  "Shutdown me = me\<lparr>me_cancelled := True\<rparr>"

definition GetOrderBook :: "string \<Rightarrow> ('s, 'l, 'w, 'd) MatchEngine \<Rightarrow> 's OrderBook option" where
  "GetOrderBook symbol me = me_orderBooks me symbol"

definition MatchEngine_GetDepth ::
  "('s, 'l, 'w, 'd) engine_deps \<Rightarrow> string \<Rightarrow> int \<Rightarrow> ('s, 'l, 'w, 'd) MatchEngine \<Rightarrow>
   (string \<rightharpoonup> string) list \<times> (string \<rightharpoonup> string) list" where
  "MatchEngine_GetDepth dp symbol levels me =
     (case GetOrderBook symbol me of None \<Rightarrow> ([], []) | Some ob \<Rightarrow> OrderBook.GetDepth (dp_prices dp) levels ob)"

section \<open>Interleavings\<close>

text \<open>
  How far a call of \<open>SubmitOrder\<close> has come: the order has its id; its event has its number; the event is
  through the pipeline; the queue is there; the book and its worker are there; the call has returned.
\<close>

datatype call = NotCalled | Identified SubmitOrderMsg | Numbered SubmitOrderMsg OrderSubmittedEvent |
  Published SubmitOrderMsg | Queue_open SubmitOrderMsg | Book_open SubmitOrderMsg | Returned "go_error option"

text \<open>
  What a worker is at: waiting for an order, publishing the trades of one, or gone. The second number is
  how many trades there were, the list is what is still to be published.
\<close>

datatype work = Idle | Publishing SubmitOrderMsg QuantityInNano nat "MatchingEngineEvent list" | Stopped

text \<open>
  What has happened so far: the events whose \<open>ProcessEvent\<close> returned no error, the orders whose call
  returned no error, the orders put in a queue, the orders taken from one.
\<close>

record history =
  h_events :: "MatchingEngineEvent list"
  h_accepted :: "SubmitOrderMsg list"
  h_enqueued :: "SubmitOrderMsg list"
  h_taken :: "SubmitOrderMsg list"

definition no_history :: history where
  "no_history = \<lparr>h_events = [], h_accepted = [], h_enqueued = [], h_taken = []\<rparr>"

text \<open>The queues, the books and whether the engine is shut down: what only the engine's own steps change.\<close>

definition engine_core :: "('s, 'l, 'w, 'd) MatchEngine \<Rightarrow> (string \<rightharpoonup> OrderQueueItem list) \<times> (string \<rightharpoonup> 's OrderBook) \<times> bool" where
  "engine_core me = (me_orderQueues me, me_orderBooks me, me_cancelled me)"

text \<open>
  The states of a running engine, with the calls of \<open>SubmitOrder\<close> (numbered) and the workers (by symbol).
  The sequencer, the event log and the processors are shared with code outside the engine, and two
  calls of the pipeline may overlap: between two steps everything but the core may change in any way
  (\<open>others\<close>).
\<close>

inductive engine_reach ::
  "('s, 'l, 'w, 'd) engine_deps \<Rightarrow> ('s, 'l, 'w, 'd) MatchEngine \<Rightarrow> ('s, 'l, 'w, 'd) MatchEngine \<Rightarrow>
   (nat \<Rightarrow> call) \<Rightarrow> (string \<Rightarrow> work) \<Rightarrow> history \<Rightarrow> bool" for dp me0 where
  start: "engine_reach dp me0 me0 (\<lambda>_. NotCalled) (\<lambda>_. Idle) no_history"
| others: "engine_reach dp me0 me cl wk h \<Longrightarrow> engine_core me' = engine_core me \<Longrightarrow> engine_reach dp me0 me' cl wk h"
| refuse: "engine_reach dp me0 me cl wk h \<Longrightarrow> cl i = NotCalled \<Longrightarrow> invalid_order order \<Longrightarrow>
    engine_reach dp me0 me (cl(i := Returned (Some ''invalid order: missing required fields''))) wk h"
| identify: "engine_reach dp me0 me cl wk h \<Longrightarrow> cl i = NotCalled \<Longrightarrow> \<not> invalid_order order \<Longrightarrow>
    assign_id now order (me_sequencer me) = (order', sq) \<Longrightarrow>
    engine_reach dp me0 (me\<lparr>me_sequencer := sq\<rparr>) (cl(i := Identified order')) wk h"
| number: "engine_reach dp me0 me cl wk h \<Longrightarrow> cl i = Identified order \<Longrightarrow>
    NextGlobalSeq (me_sequencer me) = (seq, sq) \<Longrightarrow>
    engine_reach dp me0 (me\<lparr>me_sequencer := sq\<rparr>) (cl(i := Numbered order (submitted_event now seq order))) wk h"
| process: "engine_reach dp me0 me cl wk h \<Longrightarrow> cl i = Numbered order event \<Longrightarrow>
    publish dp t (OrderSubmitted event) me = Returns (err, me') \<Longrightarrow>
    engine_reach dp me0 me' (cl(i := if err = None then Published order else Returned err)) wk
      (if err = None then h\<lparr>h_events := h_events h @ [OrderSubmitted event]\<rparr> else h)"
| queue: "engine_reach dp me0 me cl wk h \<Longrightarrow> cl i = Published order \<Longrightarrow>
    engine_reach dp me0 (open_queue (so_Symbol order) me) (cl(i := Queue_open order)) wk h"
| book: "engine_reach dp me0 me cl wk h \<Longrightarrow> cl i = Queue_open order \<Longrightarrow>
    engine_reach dp me0 (open_book dp (so_Symbol order) me) (cl(i := Book_open order)) wk h"
| send: "engine_reach dp me0 me cl wk h \<Longrightarrow> cl i = Book_open order \<Longrightarrow> send dropped order me = Some (sent, me') \<Longrightarrow>
    engine_reach dp me0 me' (cl(i := Returned None)) wk
      (h\<lparr>h_accepted := h_accepted h @ [order], h_enqueued := h_enqueued h @ (if sent then [order] else [])\<rparr>)"
| take: "engine_reach dp me0 me cl wk h \<Longrightarrow> wk s = Idle \<Longrightarrow> me_orderQueues me s = Some (item # queue) \<Longrightarrow>
    match_order dp now drawn s (qi_orderMsg item) (me\<lparr>me_orderQueues := (me_orderQueues me)(s \<mapsto> queue)\<rparr>) = Some (es, rem, me') \<Longrightarrow>
    engine_reach dp me0 me' cl (wk(s := Publishing (qi_orderMsg item) rem (length es) es))
      (h\<lparr>h_taken := h_taken h @ [qi_orderMsg item]\<rparr>)"
| trade: "engine_reach dp me0 me cl wk h \<Longrightarrow> wk s = Publishing msg rem n (e # es) \<Longrightarrow>
    publish_trade dp t e me = Returns me' \<Longrightarrow>
    engine_reach dp me0 me' cl (wk(s := Publishing msg rem n es)) h"
| finish: "engine_reach dp me0 me cl wk h \<Longrightarrow> wk s = Publishing msg rem n [] \<Longrightarrow>
    engine_reach dp me0 (notify now msg rem n me) cl (wk(s := Idle)) h"
| shutdown: "engine_reach dp me0 me cl wk h \<Longrightarrow> engine_reach dp me0 (Shutdown me) cl wk h"
| stop: "engine_reach dp me0 me cl wk h \<Longrightarrow> wk s = Idle \<Longrightarrow> me_cancelled me \<Longrightarrow>
    engine_reach dp me0 me cl (wk(s := Stopped)) h"

section \<open>What the steps leave alone\<close>

text \<open>The engine's own fields, which the pipeline does not touch.\<close>

definition engine_view :: "('s, 'l, 'w, 'd) MatchEngine \<Rightarrow> (string \<rightharpoonup> OrderQueueItem list) \<times> (string \<rightharpoonup> 's OrderBook) \<times> Sequencer \<times> bool" where
  "engine_view me = (me_orderQueues me, me_orderBooks me, me_sequencer me, me_cancelled me)"

lemma publish_view: "publish dp t e me = Returns (err, me') \<Longrightarrow> engine_view me' = engine_view me"
  by (auto simp: publish_def engine_view_def split: outcome.splits)

lemma publish_trade_view:
  assumes "publish_trade dp t e me = Returns me'"
  shows "engine_view me' = engine_view me"
proof -
  obtain err me1 trade where p: "publish dp t e me = Returns (err, me1)" and b: "broadcastTrade trade me1 = Returns me'"
    using assms by (auto simp: publish_trade_def split: outcome.splits MatchingEngineEvent.splits)
  have "engine_view me' = engine_view me1"
    using b by (auto simp: broadcastTrade_def Let_def engine_view_def split: if_splits)
  with publish_view [OF p] show ?thesis by simp
qed

lemma notify_view: "engine_view (notify now msg rem n me) = engine_view me"
  by (auto simp: notify_def notifyOrderFilled_def notifyOrderPending_def engine_view_def)

lemma view_core: "engine_view me' = engine_view me \<Longrightarrow> engine_core me' = engine_core me"
  by (simp add: engine_view_def engine_core_def)

text \<open>The steps of a submission that succeeds while the engine is running.\<close>

lemma submit_cases:
  assumes "SubmitOrder dp now dropped order me = Some (Returns (err, order', me'))"
  obtains (invalid) "err \<noteq> None" "me' = me"
  | (refused) seq sq' where "err \<noteq> None" "publish dp (now (AtDispatch 0)) (OrderSubmitted (submitted_event now seq order')) (me\<lparr>me_sequencer := sq'\<rparr>) = Returns (err, me')"
  | (accepted) seq sq1 sq' me1 where "err = None" "NextGlobalSeq sq1 = (seq, sq')" "so_Symbol order' = so_Symbol order"
      "publish dp (now (AtDispatch 0)) (OrderSubmitted (submitted_event now seq order')) (me\<lparr>me_sequencer := sq'\<rparr>) = Returns (None, me1)"
      "enqueueOrder dp dropped order' me1 = Some me'"
proof (cases "invalid_order order")
  case True
  with assms show thesis by (intro invalid) (auto simp: SubmitOrder_def)
next
  case False
  obtain o1 sq1 where id: "assign_id now order (me_sequencer me) = (o1, sq1)" by fastforce
  obtain seq sq' where n: "NextGlobalSeq sq1 = (seq, sq')" by fastforce
  have sym: "so_Symbol o1 = so_Symbol order" using id by (auto simp: assign_id_def split: if_splits prod.splits)
  let ?pub = "publish dp (now (AtDispatch 0)) (OrderSubmitted (submitted_event now seq o1)) (me\<lparr>me_sequencer := sq'\<rparr>)"
  obtain perr me1 where p: "?pub = Returns (perr, me1)"
    using assms False id n by (cases ?pub) (auto simp: SubmitOrder_def)
  show thesis
  proof (cases perr)
    case None
    with assms False id n p have "enqueueOrder dp dropped o1 me1 = Some me'" "err = None" "order' = o1"
      by (auto simp: SubmitOrder_def)
    with n sym p None show thesis by (intro accepted) auto
  next
    case (Some x)
    with assms False id n p have "err = Some x" "order' = o1" "me' = me1" by (auto simp: SubmitOrder_def)
    with p Some show thesis by (intro refused [of seq sq']) auto
  qed
qed

lemma enqueue_running:
  assumes "enqueueOrder dp dropped order me = Some me'" "\<not> me_cancelled me"
  shows "me_orderQueues me' = (me_orderQueues me)(so_Symbol order \<mapsto>
      mget [] (me_orderQueues me) (so_Symbol order) @ [\<lparr>qi_orderMsg = order\<rparr>])"
    and "me_orderBooks me' = me_orderBooks me \<or>
      me_orderBooks me' = (me_orderBooks me)(so_Symbol order \<mapsto> NewOrderBook (dp_prices dp) (so_Symbol order))"
    and "me_cancelled me' = me_cancelled me" "me_eventPipeline me' = me_eventPipeline me"
    and "me_sequencer me' = me_sequencer me" "me_world me' = me_world me"
  using assms
  by (auto simp: enqueueOrder_def send_def open_book_def open_queue_def mget_def Let_def split: if_splits option.splits)

lemma match_order_done:
  assumes "match_order dp now drawn s msg me = Some (es, rem, me')"
  obtains ob ob' where "me_orderBooks me s = Some ob" "me_orderBooks me' = (me_orderBooks me)(s \<mapsto> ob')"
    "me_orderQueues me' = me_orderQueues me" "me_cancelled me' = me_cancelled me" "me_eventPipeline me' = me_eventPipeline me"
    "book_reach (dp_prices dp) s ob \<Longrightarrow> book_reach (dp_prices dp) s ob'"
proof -
  obtain ob seq sq1 oa ob1 ob2 sq2 where m: "me_orderBooks me s = Some ob" "NextGlobalSeq (me_sequencer me) = (seq, sq1)"
    "alloc_entry (order_entry now s msg seq) ob = (oa, ob1)"
    "MatchOrder (dp_prices dp) (\<lambda>i. (now (AtTrade i), drawn i)) oa ob1 sq1 = Some (es, rem, ob2, sq2)"
    and me': "me' = me\<lparr>me_orderBooks := (me_orderBooks me)(s \<mapsto> ob2), me_sequencer := sq2\<rparr>"
    using assms by (auto simp: match_order_def split: option.splits prod.splits)
  have "book_reach (dp_prices dp) s ob2" if "book_reach (dp_prices dp) s ob"
    by (rule book_reach.match [OF that _ _ m(3,4)]) (simp_all add: order_entry_def parseQuantity_def Let_def in_i64_to_i64)
  with m(1) me' show thesis by (intro that [of ob ob2]) simp_all
qed

section \<open>The engine's invariant\<close>

abbreviation of_symbol :: "string \<Rightarrow> SubmitOrderMsg list \<Rightarrow> SubmitOrderMsg list" where
  "of_symbol s \<equiv> filter (\<lambda>order. so_Symbol order = s)"

definition queued :: "('s, 'l, 'w, 'd) MatchEngine \<Rightarrow> string \<Rightarrow> SubmitOrderMsg list" where
  "queued me s = map qi_orderMsg (mget [] (me_orderQueues me) s)"

text \<open>For each symbol, the orders put in the queue are those taken, then those still there.\<close>

definition fifo_ok :: "('s, 'l, 'w, 'd) MatchEngine \<Rightarrow> history \<Rightarrow> bool" where
  "fifo_ok me h \<longleftrightarrow> (\<forall>s. of_symbol s (h_enqueued h) = of_symbol s (h_taken h) @ queued me s) \<and>
     subseq (h_enqueued h) (h_accepted h) \<and> (\<not> me_cancelled me \<longrightarrow> h_enqueued h = h_accepted h)"

definition books_ok :: "('s, 'l, 'w, 'd) engine_deps \<Rightarrow> ('s, 'l, 'w, 'd) MatchEngine \<Rightarrow> bool" where
  "books_ok dp me \<longleftrightarrow> (\<forall>s ob. me_orderBooks me s = Some ob \<longrightarrow> book_reach (dp_prices dp) s ob)"

text \<open>The event of an order has gone through the pipeline.\<close>

definition published :: "history \<Rightarrow> SubmitOrderMsg \<Rightarrow> bool" where
  "published h order \<longleftrightarrow> (\<exists>now seq. OrderSubmitted (submitted_event now seq order) \<in> set (h_events h))"

fun call_ok :: "history \<Rightarrow> call \<Rightarrow> bool" where
  "call_ok h (Numbered order event) \<longleftrightarrow> (\<exists>now seq. event = submitted_event now seq order)"
| "call_ok h (Published order) \<longleftrightarrow> published h order"
| "call_ok h (Queue_open order) \<longleftrightarrow> published h order"
| "call_ok h (Book_open order) \<longleftrightarrow> published h order"
| "call_ok h _ \<longleftrightarrow> True"

definition calls_ok :: "(nat \<Rightarrow> call) \<Rightarrow> history \<Rightarrow> bool" where
  "calls_ok cl h \<longleftrightarrow> (\<forall>i. call_ok h (cl i)) \<and> (\<forall>order \<in> set (h_accepted h). published h order)"

lemma core_ok:
  assumes "engine_core me' = engine_core me"
  shows "fifo_ok me' h = fifo_ok me h" "books_ok dp me' = books_ok dp me"
  using assms by (simp_all add: engine_core_def fifo_ok_def books_ok_def queued_def)

lemma sequencer_core: "engine_core (me\<lparr>me_sequencer := sq\<rparr>) = engine_core me"
  by (simp add: engine_core_def)

lemma call_ok_mono: "call_ok h c \<Longrightarrow> set (h_events h) \<subseteq> set (h_events h') \<Longrightarrow> call_ok h' c"
  by (cases c) (auto simp: published_def)

lemma calls_ok_upd: "calls_ok cl h \<Longrightarrow> call_ok h c \<Longrightarrow> calls_ok (cl(i := c)) h"
  by (simp add: calls_ok_def)

lemma calls_ok_event:
  assumes "calls_ok cl h"
  shows "calls_ok cl (h\<lparr>h_events := h_events h @ [e]\<rparr>)"
  using assms call_ok_mono [of h _ "h\<lparr>h_events := h_events h @ [e]\<rparr>"] by (fastforce simp: calls_ok_def published_def)

lemma calls_ok_same:
  assumes "h_events h' = h_events h" "h_accepted h' = h_accepted h"
  shows "calls_ok cl h' = calls_ok cl h"
proof -
  have "call_ok h' c = call_ok h c" for c by (cases c) (simp_all add: published_def assms(1))
  then show ?thesis by (simp add: calls_ok_def published_def assms)
qed

lemma fifo_ok_send:
  assumes "send dropped order me = Some (sent, me')" "fifo_ok me h"
  shows "fifo_ok me' (h\<lparr>h_accepted := h_accepted h @ [order], h_enqueued := h_enqueued h @ (if sent then [order] else [])\<rparr>)"
    and "me_orderBooks me' = me_orderBooks me"
proof -
  have q: "queued me' s = (if s = so_Symbol order \<and> sent then queued me s @ [order] else queued me s)" for s
    using assms(1) by (auto simp: send_def queued_def mget_upd Let_def split: if_splits)
  have c: "me_cancelled me' = me_cancelled me" "\<not> sent \<longrightarrow> me_cancelled me" "me_orderBooks me' = me_orderBooks me"
    using assms(1) by (auto simp: send_def Let_def split: if_splits)
  have "subseq (h_enqueued h @ (if sent then [order] else [])) (h_accepted h @ [order])"
    using assms(2) by (auto simp: fifo_ok_def intro: list_emb_append_mono)
  with assms(2) q c show "fifo_ok me' (h\<lparr>h_accepted := h_accepted h @ [order],
      h_enqueued := h_enqueued h @ (if sent then [order] else [])\<rparr>)"
    by (auto simp: fifo_ok_def)
  show "me_orderBooks me' = me_orderBooks me" by (rule c(3))
qed

lemma calls_ok_send:
  assumes "calls_ok cl h" "cl i = Book_open order"
  shows "calls_ok (cl(i := Returned None)) (h\<lparr>h_accepted := h_accepted h @ [order], h_enqueued := enq\<rparr>)"
proof -
  have "call_ok h (cl i)" using assms(1) by (simp add: calls_ok_def)
  then have "published h order" by (simp add: assms(2))
  moreover have "call_ok (h\<lparr>h_accepted := acc, h_enqueued := enq\<rparr>) c = call_ok h c" for c acc
    by (cases c) (simp_all add: published_def)
  ultimately show ?thesis using assms(1) by (auto simp: calls_ok_def published_def)
qed

lemma fifo_ok_take:
  assumes "fifo_ok me h" "me_orderQueues me s = Some (item # queue)"
    and "match_order dp now drawn s (qi_orderMsg item) (me\<lparr>me_orderQueues := (me_orderQueues me)(s \<mapsto> queue)\<rparr>) = Some (es, rem, me')"
  shows "fifo_ok me' (h\<lparr>h_taken := h_taken h @ [qi_orderMsg item]\<rparr>)" "books_ok dp me \<Longrightarrow> books_ok dp me'"
proof -
  have own: "queued me s = qi_orderMsg item # map qi_orderMsg queue"
    using assms(2) by (simp add: queued_def mget_def)
  then have "qi_orderMsg item \<in> set (of_symbol s (h_enqueued h))" using assms(1) by (simp add: fifo_ok_def)
  then have sym: "so_Symbol (qi_orderMsg item) = s" by simp
  from assms(3) obtain ob ob' where m: "me_orderBooks me s = Some ob" "me_orderBooks me' = (me_orderBooks me)(s \<mapsto> ob')"
    "me_orderQueues me' = (me_orderQueues me)(s \<mapsto> queue)" "me_cancelled me' = me_cancelled me"
    "book_reach (dp_prices dp) s ob \<Longrightarrow> book_reach (dp_prices dp) s ob'"
    by (rule match_order_done) simp
  have "queued me' t = (if t = s then map qi_orderMsg queue else queued me t)" for t
    by (simp add: queued_def mget_upd m(3))
  with assms(1) own sym m(4) show "fifo_ok me' (h\<lparr>h_taken := h_taken h @ [qi_orderMsg item]\<rparr>)"
    by (auto simp: fifo_ok_def)
  show "books_ok dp me \<Longrightarrow> books_ok dp me'" using m by (auto simp: books_ok_def)
qed

lemma open_ok:
  "fifo_ok (open_queue s me) h = fifo_ok me h" "books_ok dp (open_queue s me) = books_ok dp me"
  "fifo_ok (open_book dp s me) h = fifo_ok me h" "books_ok dp me \<Longrightarrow> books_ok dp (open_book dp s me)"
proof -
  have "queued (open_queue s me) = queued me" "queued (open_book dp s me) = queued me"
    by (auto simp: open_queue_def open_book_def queued_def mget_def fun_eq_iff split: option.splits)
  moreover have "me_cancelled (open_queue s me) = me_cancelled me" "me_cancelled (open_book dp s me) = me_cancelled me"
    by (simp_all add: open_queue_def open_book_def split: option.splits)
  ultimately show "fifo_ok (open_queue s me) h = fifo_ok me h" "fifo_ok (open_book dp s me) h = fifo_ok me h"
    by (simp_all add: fifo_ok_def)
  show "books_ok dp (open_queue s me) = books_ok dp me" "books_ok dp me \<Longrightarrow> books_ok dp (open_book dp s me)"
    by (auto simp: open_queue_def open_book_def books_ok_def intro: book_reach.new split: option.splits if_splits)
qed

lemma engine_reach_ok:
  assumes "engine_reach dp me0 me cl wk h" "me0 = NewMatchEngine ep sq b u w d"
  shows "fifo_ok me h \<and> books_ok dp me \<and> calls_ok cl h"
  using assms(1)
proof (induction rule: engine_reach.induct)
  case start
  show ?case by (simp add: assms(2) NewMatchEngine_def fifo_ok_def books_ok_def calls_ok_def queued_def no_history_def)
next
  case (others me cl wk h me')
  then show ?case by (simp add: core_ok [OF others.hyps(2)])
next
  case (identify me cl wk h i order now order' sq)
  then show ?case by (simp add: core_ok [OF sequencer_core] calls_ok_upd del: fun_upd_apply)
next
  case (number me cl wk h i order seq sq now)
  then show ?case by (auto simp: core_ok [OF sequencer_core] simp del: fun_upd_apply intro!: calls_ok_upd exI)
next
  case (process me cl wk h i order event t err me')
  have "call_ok h (cl i)" using process.IH by (simp add: calls_ok_def)
  then have e: "\<exists>now seq. event = submitted_event now seq order" by (simp add: process.hyps(2))
  then have "published (h\<lparr>h_events := h_events h @ [OrderSubmitted event]\<rparr>) order" by (auto simp: published_def)
  then have "calls_ok (cl(i := if err = None then Published order else Returned err))
      (if err = None then h\<lparr>h_events := h_events h @ [OrderSubmitted event]\<rparr> else h)"
    using process.IH by (cases err) (simp_all add: calls_ok_upd calls_ok_event del: fun_upd_apply)
  moreover have "fifo_ok me (h\<lparr>h_events := es\<rparr>) = fifo_ok me h" for es by (simp add: fifo_ok_def)
  ultimately show ?case
    using process.IH by (simp add: core_ok [OF view_core [OF publish_view [OF process.hyps(3)]]] del: fun_upd_apply)
next
  case (send me cl wk h i order dropped sent me')
  have ih: "calls_ok cl h" "fifo_ok me h" "books_ok dp me" using send.IH by simp_all
  have "books_ok dp me'" using ih(3) unfolding books_ok_def fifo_ok_send(2) [OF send.hyps(3) ih(2)] .
  with fifo_ok_send(1) [OF send.hyps(3) ih(2)] calls_ok_send [where cl = cl and i = i, OF ih(1) send.hyps(2)]
  show ?case by blast
next
  case (take me cl wk h s item queue now drawn es rem me')
  have ih: "calls_ok cl h" "fifo_ok me h" "books_ok dp me" using take.IH by simp_all
  have "calls_ok cl (h\<lparr>h_taken := h_taken h @ [qi_orderMsg item]\<rparr>)"
    using ih(1) by (rule calls_ok_same [THEN iffD2, rotated -1]) simp_all
  with fifo_ok_take [OF ih(2) take.hyps(3,4)] ih(3) show ?case by blast
next
  case (trade me cl wk h s msg rem n e es t me')
  then show ?case by (simp add: core_ok [OF view_core [OF publish_trade_view [OF trade.hyps(3)]]])
next
  case (finish me cl wk h s msg rem n now)
  then show ?case by (simp add: core_ok [OF view_core [OF notify_view]])
next
  case (shutdown me cl wk h)
  then show ?case by (simp add: Shutdown_def fifo_ok_def books_ok_def queued_def)
next
  case (queue me cl wk h i order)
  have "call_ok h (cl i)" using queue.IH by (simp add: calls_ok_def)
  with queue show ?case by (simp add: open_ok calls_ok_upd del: fun_upd_apply)
next
  case (book me cl wk h i order)
  have "call_ok h (cl i)" using book.IH by (simp add: calls_ok_def)
  with book show ?case by (simp add: open_ok calls_ok_upd del: fun_upd_apply)
qed (simp_all add: calls_ok_upd del: fun_upd_apply)

section \<open>Properties\<close>

text \<open>
  C14. The engine doubles and reorders no order, and loses none before it is shut down. However the steps of
  the calls of \<open>SubmitOrder\<close>, of the workers and of a shutdown interleave, and whatever other code does with
  the sequencer and the pipeline in between: for each symbol the orders put in the queue are, in this order,
  those the worker took followed by those in the queue. They are orders whose call returned no error,
  all of these unless the engine is shut down. The event of such an order has gone through the pipeline
  without an error, with its price and quantity as integers. Every book is one that matching from the empty
  book leads to, so that the properties of reachable books hold for it.
\<close>

theorem engine_fifo:
  assumes "engine_reach dp (NewMatchEngine ep sq b u w d) me cl wk h"
  shows "of_symbol s (h_enqueued h) = of_symbol s (h_taken h) @ queued me s \<and>
    subseq (h_enqueued h) (h_accepted h) \<and> (\<not> me_cancelled me \<longrightarrow> h_enqueued h = h_accepted h) \<and>
    (\<forall>order \<in> set (h_accepted h). \<exists>now seq. OrderSubmitted (submitted_event now seq order) \<in> set (h_events h)) \<and>
    (\<forall>ob. GetOrderBook s me = Some ob \<longrightarrow> book_reach (dp_prices dp) s ob)"
  using engine_reach_ok [OF assms refl]
  by (simp add: fifo_ok_def books_ok_def calls_ok_def published_def GetOrderBook_def)

text \<open>
  C15. A trade can be lost. The worker numbers a trade when it matches, but publishes it later. If in
  between a new order of the symbol is submitted, with a later number, and the processors take it, then
  publishing the trade calls no processor: the world of the processors, and so every position, stays
  as it was.
\<close>

theorem late_trade_skipped:
  assumes sched: "schedule (dp_sched dp)" "distinct (map pr_ProcessorName (ep_processors (me_eventPipeline me)))"
    and sub: "SubmitOrder dp now dropped order me = Some (Returns (None, order', me1))" "\<not> me_cancelled me"
    and late: "te_SymbolStr trade = so_Symbol order" "te_Seq trade \<le> GetCurrentGlobalSeq (me_sequencer me1)"
    and pub: "publish_trade dp t (TradeExecuted trade) me1 = Returns me2"
  shows "me_world me2 = me_world me1"
  using sub(1)
proof (cases rule: submit_cases)
  case (accepted seq sq1 sq' me0)
  let ?e = "OrderSubmitted (submitted_event now seq order')"
  have v: "me_sequencer me0 = sq'" "\<not> me_cancelled me0"
    using publish_view [OF accepted(4)] sub(2) by (simp_all add: engine_view_def)
  note q = enqueue_running [OF accepted(5) v(2)]
  have seq: "GetCurrentGlobalSeq (me_sequencer me1) = seq"
    unfolding q(5) v(1) using accepted(2) by (auto simp: NextGlobalSeq_def GetCurrentGlobalSeq_def Let_def)
  obtain l d' where disp: "dispatchToProcessorsInternal (dp_db dp) (now (AtDispatch 0)) (dp_sched dp) (dp_keys dp) ?e None
      ((me_eventPipeline me)\<lparr>ep_eventLog := l\<rparr>) (me_world me) (me_checkpoints me) =
      Returns (None, me_eventPipeline me0, me_world me0, d')"
    using accepted(4) by (auto simp: publish_def ProcessEvent_def split: outcome.splits prod.splits option.splits)
  let ?ep = "me_eventPipeline me1"
  have "dispatch_effect ?e (dp_sched dp (ep_processors (me_eventPipeline me))) [] ((me_eventPipeline me)\<lparr>ep_eventLog := l\<rparr>) ?ep"
    using dispatch_effect [OF disp sched(1)] sched(2) q(4) by simp
  then have none: "\<forall>p \<in> set (dp_sched dp (ep_processors ?ep)). \<not> behind ?e ?ep p" "ep_processors ?ep = ep_processors (me_eventPipeline me)"
    by (simp_all add: dispatch_effect_def)
  have skip: "\<forall>p \<in> set (dp_sched dp (ep_processors ?ep)). \<not> behind (TradeExecuted trade) (?ep\<lparr>ep_eventLog := l'\<rparr>) p" for l'
    using none(1) late seq accepted(3) by (auto simp: behind_def submitted_event_def not_less)
  obtain err me3 where p: "publish dp t (TradeExecuted trade) me1 = Returns (err, me3)" and w: "me_world me2 = me_world me3"
    using pub by (auto simp: publish_trade_def broadcastTrade_def Let_def split: outcome.splits if_splits)
  have "me_world me3 = me_world me1"
    using p by (auto simp: publish_def ProcessEvent_def dispatchToProcessorsInternal_def
        run_processors_skip [OF skip, simplified] split: outcome.splits prod.splits option.splits)
  with w show ?thesis by simp
qed simp_all

section \<open>An example\<close>

text \<open>
  An engine with two processors that record the numbers they see. The worker has numbered a trade, and
  an order is submitted before the trade is published.
\<close>

definition demo_deps ::
  "(comparator \<times> (PriceInNano \<times> addr list) list, InMemoryEventLog, (string \<times> u64) list, table) engine_deps" where
  "demo_deps = \<lparr>dp_prices = list_ops score_before, dp_store = memory_store, dp_db = table_db, dp_sched = rev, dp_keys = []\<rparr>"

definition demo_msg :: SubmitOrderMsg where
  "demo_msg = \<lparr>so_OrderID = ''a'', so_Symbol = ''BTC'', so_Side = ''buy'', so_Price = ''2'', so_Quantity = ''1'', so_UserID = ''u''\<rparr>"

definition demo_engine ::
  "(comparator \<times> (PriceInNano \<times> addr list) list, InMemoryEventLog, (string \<times> u64) list, table) MatchEngine" where
  "demo_engine = NewMatchEngine demo_pipeline (snd (NextGlobalSeq NewSequencer)) False False [] []"

definition demo_waiting :: TradeExecutedEvent where
  "demo_waiting = zero_trade\<lparr>te_Seq := fst (NextGlobalSeq NewSequencer), te_SymbolStr := ''BTC''\<rparr>"

fun returns :: "'a outcome \<Rightarrow> bool" where
  "returns (Returns x) = True"
| "returns Panics = False"

lemma demo_eval:
  "case SubmitOrder demo_deps (\<lambda>_. 0) False demo_msg demo_engine of
     Some (Returns (None, order, me)) \<Rightarrow>
       order = demo_msg \<and> te_Seq demo_waiting < GetCurrentGlobalSeq (me_sequencer me) \<and>
       returns (publish_trade demo_deps 0 (TradeExecuted demo_waiting) me)
   | _ \<Rightarrow> False"
  by code_simp

lemma demo_steps:
  obtains me me' where "SubmitOrder demo_deps (\<lambda>_. 0) False demo_msg demo_engine = Some (Returns (None, demo_msg, me))"
    "te_Seq demo_waiting < GetCurrentGlobalSeq (me_sequencer me)"
    "publish_trade demo_deps 0 (TradeExecuted demo_waiting) me = Returns me'"
proof -
  obtain me where s: "SubmitOrder demo_deps (\<lambda>_. 0) False demo_msg demo_engine = Some (Returns (None, demo_msg, me))"
    "te_Seq demo_waiting < GetCurrentGlobalSeq (me_sequencer me)"
    and p: "returns (publish_trade demo_deps 0 (TradeExecuted demo_waiting) me)"
    using demo_eval by (auto split: option.splits outcome.splits)
  from p obtain me' where "publish_trade demo_deps 0 (TradeExecuted demo_waiting) me = Returns me'"
    by (cases "publish_trade demo_deps 0 (TradeExecuted demo_waiting) me") simp_all
  with s show thesis by (rule that)
qed

text \<open>A worker that takes an order of a reachable book never gets stuck in matching it.\<close>

lemma match_order_returns:
  assumes "price_levels (dp_prices dp) ok items cmp precedes" "me_orderBooks me s = Some ob" "book_reach (dp_prices dp) s ob"
  obtains es rem me' where "match_order dp now drawn s msg me = Some (es, rem, me')"
proof -
  obtain seq sq1 where n: "NextGlobalSeq (me_sequencer me) = (seq, sq1)" by fastforce
  let ?e = "order_entry now s msg seq"
  obtain oa ob1 where a: "alloc_entry ?e ob = (oa, ob1)" by fastforce
  have e: "obe_FilledQty ?e = 0" "in_i64 (obe_Quantity ?e)"
    by (simp_all add: order_entry_def parseQuantity_def Let_def in_i64_to_i64)
  note alloc = price_levels.alloc_ok [OF assms(1) book_reach_ok [OF assms(1,3)] a]
  obtain es rem ob' sq' where "MatchOrder (dp_prices dp) (\<lambda>i. (now (AtTrade i), drawn i)) oa ob1 sq1 = Some (es, rem, ob', sq')"
    using price_levels.MatchOrder_fill [OF assms(1) alloc(1) alloc(2) [OF e]] by metis
  with n a assms(2) show thesis by (intro that) (simp add: match_order_def)
qed

text \<open>The example's order is submitted, step by step, and taken by the worker.\<close>

lemma demo_submitted:
  obtains me cl h where "engine_reach demo_deps demo_engine me cl (\<lambda>_. Idle) h" "h_accepted h = [demo_msg]" "h_taken h = []"
    "me_orderQueues me ''BTC'' = Some [\<lparr>qi_orderMsg = demo_msg\<rparr>]" "\<not> me_cancelled me"
    "me_orderBooks me ''BTC'' = Some (NewOrderBook (dp_prices demo_deps) ''BTC'')"
proof -
  let ?reach = "engine_reach demo_deps demo_engine" and ?now = "\<lambda>_ :: reading. 0 :: int"
  obtain me2 where "SubmitOrder demo_deps ?now False demo_msg demo_engine = Some (Returns (None, demo_msg, me2))"
    by (rule demo_steps)
  then obtain seq sq1 sq' me1 where n: "NextGlobalSeq sq1 = (seq, sq')"
    and p: "publish demo_deps 0 (OrderSubmitted (submitted_event ?now seq demo_msg)) (demo_engine\<lparr>me_sequencer := sq'\<rparr>) = Returns (None, me1)"
    by (rule submit_cases) simp_all
  have me1: "me_orderQueues me1 = Map.empty" "me_orderBooks me1 = Map.empty" "\<not> me_cancelled me1"
    using publish_view [OF p] by (simp_all add: engine_view_def demo_engine_def NewMatchEngine_def)
  have sym: "so_Symbol demo_msg = ''BTC''" by (simp add: demo_msg_def)
  define me3 where "me3 = open_book demo_deps ''BTC'' (open_queue ''BTC'' me1)"
  let ?cl = "(\<lambda>_. NotCalled)(0 := Identified demo_msg)" and ?h = "no_history\<lparr>h_events := [OrderSubmitted (submitted_event ?now seq demo_msg)]\<rparr>"
  have "?reach demo_engine ?cl (\<lambda>_. Idle) no_history"
    using engine_reach.identify [where dp = demo_deps and me = demo_engine and i = 0 and order = demo_msg and now = ?now and order' = demo_msg
          and sq = "me_sequencer demo_engine", OF engine_reach.start]
    by (simp add: invalid_order_def assign_id_def demo_msg_def)
  then have "?reach (demo_engine\<lparr>me_sequencer := sq1\<rparr>) ?cl (\<lambda>_. Idle) no_history"
    by (rule engine_reach.others) (rule sequencer_core)
  from engine_reach.number [where i = 0 and now = ?now, OF this _ , of demo_msg seq sq'] n
  have "?reach (demo_engine\<lparr>me_sequencer := sq'\<rparr>) (?cl(0 := Numbered demo_msg (submitted_event ?now seq demo_msg))) (\<lambda>_. Idle) no_history"
    by simp
  from engine_reach.process [where i = 0 and order = demo_msg, OF this _ p]
  have "?reach me1 (?cl(0 := Published demo_msg)) (\<lambda>_. Idle) ?h" by (simp add: no_history_def)
  from engine_reach.queue [where i = 0 and order = demo_msg, OF this] have "?reach (open_queue ''BTC'' me1) (?cl(0 := Queue_open demo_msg)) (\<lambda>_. Idle) ?h"
    by (simp add: sym)
  from engine_reach.book [where i = 0 and order = demo_msg, OF this] have r: "?reach me3 (?cl(0 := Book_open demo_msg)) (\<lambda>_. Idle) ?h"
    by (simp add: sym me3_def)
  let ?me = "me3\<lparr>me_orderQueues := (me_orderQueues me3)(''BTC'' \<mapsto> [\<lparr>qi_orderMsg = demo_msg\<rparr>])\<rparr>"
  have s: "send False demo_msg me3 = Some (True, ?me)"
    by (simp add: send_def sym me3_def open_queue_def open_book_def me1 mget_def Let_def)
  show thesis
    by (rule that [OF engine_reach.send [where i = 0, OF r _ s]])
      (simp_all add: no_history_def me3_def open_queue_def open_book_def me1)
qed

theorem engine_fifo_witness:
  "\<exists>me cl wk h. engine_reach demo_deps demo_engine me cl wk h \<and> h_enqueued h = [demo_msg] \<and> h_taken h = [demo_msg] \<and>
     queued me ''BTC'' = [] \<and> (\<exists>ob. GetOrderBook ''BTC'' me = Some ob \<and> book_reach (dp_prices demo_deps) ''BTC'' ob)"
proof -
  obtain me cl h where r: "engine_reach demo_deps demo_engine me cl (\<lambda>_. Idle) h" "h_accepted h = [demo_msg]" "h_taken h = []"
    "me_orderQueues me ''BTC'' = Some [\<lparr>qi_orderMsg = demo_msg\<rparr>]" "\<not> me_cancelled me"
    "me_orderBooks me ''BTC'' = Some (NewOrderBook (dp_prices demo_deps) ''BTC'')"
    by (rule demo_submitted)
  let ?me = "me\<lparr>me_orderQueues := (me_orderQueues me)(''BTC'' \<mapsto> [])\<rparr>"
  have pl: "price_levels (dp_prices demo_deps) (list_ok score_before) snd fst score_before"
    using by_score.price_levels_axioms by (simp add: demo_deps_def)
  have "me_orderBooks ?me ''BTC'' = Some (NewOrderBook (dp_prices demo_deps) ''BTC'')" using r(6) by simp
  from pl this book_reach.new obtain es rem me' where
    m: "match_order demo_deps (\<lambda>_. 0) (\<lambda>_. 2) ''BTC'' demo_msg ?me = Some (es, rem, me')"
    by (rule match_order_returns)
  let ?h = "h\<lparr>h_taken := [demo_msg]\<rparr>"
  have t: "engine_reach demo_deps demo_engine me' cl ((\<lambda>_. Idle)(''BTC'' := Publishing demo_msg rem (length es) es)) ?h"
    using engine_reach.take [OF r(1) _ r(4), of "\<lambda>_. 0" "\<lambda>_. 2" es rem me'] m r(3) by simp
  from m obtain ob' where me': "\<not> me_cancelled me'" "me_orderBooks me' ''BTC'' = Some ob'"
    by (rule match_order_done) (simp add: r(5))
  from engine_fifo [OF t [unfolded demo_engine_def], of "''BTC''"] r(2) me' t show ?thesis
    by (intro exI [of _ me'] exI [of _ cl] exI [of _ "(\<lambda>_. Idle)(''BTC'' := Publishing demo_msg rem (length es) es)"] exI [of _ ?h])
      (auto simp: demo_msg_def GetOrderBook_def)
qed
theorem late_trade_skipped_witness:
  "\<exists>me me'. SubmitOrder demo_deps (\<lambda>_. 0) False demo_msg demo_engine = Some (Returns (None, demo_msg, me)) \<and>
     publish_trade demo_deps 0 (TradeExecuted demo_waiting) me = Returns me' \<and> me_world me' = me_world me"
proof -
  obtain me me' where s: "SubmitOrder demo_deps (\<lambda>_. 0) False demo_msg demo_engine = Some (Returns (None, demo_msg, me))"
    "te_Seq demo_waiting < GetCurrentGlobalSeq (me_sequencer me)"
    "publish_trade demo_deps 0 (TradeExecuted demo_waiting) me = Returns me'" by (rule demo_steps)
  have sched: "schedule (dp_sched demo_deps)" by (simp add: demo_deps_def)
  have names: "distinct (map pr_ProcessorName (ep_processors (me_eventPipeline demo_engine)))" "\<not> me_cancelled demo_engine"
    by (simp_all add: demo_engine_def NewMatchEngine_def)
  have sym: "te_SymbolStr demo_waiting = so_Symbol demo_msg" by (simp add: demo_waiting_def demo_msg_def)
  have "me_world me' = me_world me"
    by (rule late_trade_skipped [OF sched names(1) s(1) names(2) sym less_imp_le [OF s(2)] s(3)])
  with s(1,3) show ?thesis by blast
qed

end
