(* ===== verification/Positions.thy ===== *)
theory Positions
  imports Orders "HOL-Library.Code_Target_Nat"
begin

text \<open>
  \<^verbatim>\<open>src/biz/service/event_processor_position.go\<close>, \<^verbatim>\<open>src/biz/service/asset_service.go\<close>,
  \<^verbatim>\<open>src/biz/dal/pg/outbox_repo.go\<close> and \<^verbatim>\<open>src/biz/dal/pg/processed_repo.go\<close>: how trades become
  positions, exactly once.

  The ORM and the database are third-party code: the queries the program makes are the fields of
  \<open>gorm_ops\<close>, over a database state \<open>'d\<close>. The locale \<open>position_table\<close> says what the position queries do,
  \<open>outbox_store\<close> what the outbox insertion and a transaction do. Mutexes only serialise calls and are
  not part of the model.
\<close>

section \<open>The database\<close>

record Position =
  ps_ID :: nat
  ps_UserID :: string
  ps_Symbol :: string
  ps_Volume :: string
  ps_AvgPrice :: string
  ps_VolumeBigint :: QuantityInNano
  ps_AvgPriceBigint :: PriceInNano

record OutboxEntry =
  ox_ID :: int
  ox_EventID :: string
  ox_EventType :: string
  ox_AggregateID :: string
  ox_AggregateType :: string
  ox_Payload :: json
  ox_Published :: bool
  ox_PublishedAt :: "int option"
  ox_CreatedAt :: int
  ox_UpdatedAt :: int
  ox_RetryCount :: int
  ox_LastError :: string

abbreviation ErrRecordNotFound :: go_error where
  "ErrRecordNotFound \<equiv> ''record not found''"

text \<open>
  \<open>gd_CreateIfAbsent\<close> and \<open>gd_CreateProcessed\<close> insert with \<^verbatim>\<open>ON CONFLICT DO NOTHING\<close> and answer the number
  of rows inserted. \<open>gd_Transaction\<close> runs a function that also sets a boolean of its caller. Times are
  nanoseconds.
\<close>

record 'd gorm_ops =
  gd_First :: "string \<Rightarrow> string \<Rightarrow> 'd \<Rightarrow> go_error + Position"
  gd_Create :: "Position \<Rightarrow> 'd \<Rightarrow> go_error option \<times> 'd"
  gd_Save :: "Position \<Rightarrow> 'd \<Rightarrow> go_error option \<times> 'd"
  gd_CreateEntry :: "OutboxEntry \<Rightarrow> 'd \<Rightarrow> go_error option \<times> 'd"
  gd_CreateIfAbsent :: "OutboxEntry \<Rightarrow> 'd \<Rightarrow> (go_error + int) \<times> 'd"
  gd_CreateProcessed :: "string \<Rightarrow> int \<Rightarrow> 'd \<Rightarrow> (go_error + int) \<times> 'd"
  gd_DeleteProcessed :: "string \<Rightarrow> 'd \<Rightarrow> go_error option \<times> 'd"
  gd_FindUnpublished :: "int \<Rightarrow> 'd \<Rightarrow> go_error + OutboxEntry list"
  gd_FindFailed :: "int \<Rightarrow> int \<Rightarrow> 'd \<Rightarrow> go_error + OutboxEntry list"
  gd_UpdatePublished :: "string list \<Rightarrow> int \<Rightarrow> 'd \<Rightarrow> go_error option \<times> 'd"
  gd_UpdateError :: "string \<Rightarrow> string \<Rightarrow> 'd \<Rightarrow> go_error option \<times> 'd"
  gd_DeletePublished :: "int \<Rightarrow> 'd \<Rightarrow> int \<times> go_error option \<times> 'd"
  gd_Transaction :: "('d \<Rightarrow> go_error option \<times> bool \<times> 'd) \<Rightarrow> 'd \<Rightarrow> go_error option \<times> bool \<times> 'd"

section \<open>Buying and selling\<close>

text \<open>\<^verbatim>\<open>big.Int.Div\<close>: the remainder is never negative.\<close>

definition big_Div :: "int \<Rightarrow> int \<Rightarrow> int" where
  "big_Div x y = (if 0 < y then x div y else - (x div (- y)))"

definition BuyPositionTx ::
  "'d gorm_ops \<Rightarrow> string \<Rightarrow> string \<Rightarrow> string \<Rightarrow> string \<Rightarrow> 'd \<Rightarrow> go_error option \<times> 'd" where
  "BuyPositionTx tx userID symbol buyQtyStr buyPriceStr d =
     (let query = gd_First tx userID symbol d in
      case ParseQuantity buyQtyStr of Inl err \<Rightarrow> (Some err, d) | Inr buyQty \<Rightarrow>
      case ParsePrice buyPriceStr of Inl err \<Rightarrow> (Some err, d) | Inr buyPrice \<Rightarrow>
      case query of
        Inl queryErr \<Rightarrow>
          if queryErr = ErrRecordNotFound
          then gd_Create tx
                 \<lparr>ps_ID = 0, ps_UserID = userID, ps_Symbol = symbol, ps_Volume = QuantityInNano_String buyQty,
                  ps_AvgPrice = PriceInNano_String buyPrice, ps_VolumeBigint = buyQty, ps_AvgPriceBigint = buyPrice\<rparr> d
          else (Some queryErr, d)
      | Inr pos \<Rightarrow>
          let oldQty = ps_VolumeBigint pos; oldAvg = ps_AvgPriceBigint pos;
              newQty = i64 (oldQty + buyQty);
              sum = oldQty * oldAvg + buyQty * buyPrice
          in if newQty = 0 then (Some ''new quantity is zero'', d)
             else let newAvg = big_Div sum newQty
                  in if \<not> in_i64 newAvg then (Some ''price overflow when computing weighted average'', d)
                     else gd_Save tx
                       (pos\<lparr>ps_VolumeBigint := newQty, ps_AvgPriceBigint := newAvg,
                            ps_Volume := QuantityInNano_String newQty, ps_AvgPrice := PriceInNano_String newAvg\<rparr>) d)"

text \<open>The message of the source, which is not in ASCII, says that the position is too small.\<close>

abbreviation ErrInsufficient :: go_error where
  "ErrInsufficient \<equiv> map (char_of :: nat \<Rightarrow> char)
     [0xE6, 0x8C, 0x81, 0xE4, 0xBB, 0x93, 0xE4, 0xB8, 0x8D, 0xE8, 0xB6, 0xB3]"

definition SellPositionTx :: "'d gorm_ops \<Rightarrow> string \<Rightarrow> string \<Rightarrow> string \<Rightarrow> 'd \<Rightarrow> go_error option \<times> 'd" where
  "SellPositionTx tx userID symbol sellQtyStr d =
     (case gd_First tx userID symbol d of Inl queryErr \<Rightarrow> (Some queryErr, d) | Inr pos \<Rightarrow>
      case ParseQuantity sellQtyStr of Inl err \<Rightarrow> (Some err, d) | Inr sellQty \<Rightarrow>
        let oldQty = ps_VolumeBigint pos
        in if oldQty < sellQty then (Some ErrInsufficient, d)
           else
             let newQty = i64 (oldQty - sellQty);
                 pos = pos\<lparr>ps_VolumeBigint := newQty\<rparr>;
                 pos = (if newQty = 0 then pos\<lparr>ps_AvgPriceBigint := 0, ps_AvgPrice := ''0''\<rparr>
                        else pos\<lparr>ps_AvgPrice := PriceInNano_String (ps_AvgPriceBigint pos)\<rparr>)
             in gd_Save tx (pos\<lparr>ps_Volume := QuantityInNano_String newQty\<rparr>) d)"

text \<open>The variants on the global database handle.\<close>

definition BuyPosition :: "'d gorm_ops \<Rightarrow> string \<Rightarrow> string \<Rightarrow> string \<Rightarrow> string \<Rightarrow> 'd \<Rightarrow> go_error option \<times> 'd" where
  "BuyPosition GormDB userID symbol buyQty buyPrice d = BuyPositionTx GormDB userID symbol buyQty buyPrice d"

definition SellPosition :: "'d gorm_ops \<Rightarrow> string \<Rightarrow> string \<Rightarrow> string \<Rightarrow> 'd \<Rightarrow> go_error option \<times> 'd" where
  "SellPosition GormDB userID symbol sellQty d = SellPositionTx GormDB userID symbol sellQty d"

section \<open>The repositories\<close>

definition WriteOutboxEntry :: "'d gorm_ops \<Rightarrow> OutboxEntry \<Rightarrow> 'd \<Rightarrow> go_error option \<times> 'd" where
  "WriteOutboxEntry tx entry d = gd_CreateEntry tx entry d"

definition WriteOutboxEntryIfNotExists :: "'d gorm_ops \<Rightarrow> OutboxEntry \<Rightarrow> 'd \<Rightarrow> (go_error + bool) \<times> 'd" where
  "WriteOutboxEntryIfNotExists tx entry d =
     (case gd_CreateIfAbsent tx entry d of
        (Inl err, d') \<Rightarrow> (Inl err, d')
      | (Inr rowsAffected, d') \<Rightarrow> (Inr (rowsAffected \<noteq> 0), d'))"

definition GetUnpublished :: "'d gorm_ops \<Rightarrow> int \<Rightarrow> 'd \<Rightarrow> go_error + OutboxEntry list" where
  "GetUnpublished db limit d = gd_FindUnpublished db limit d"

definition MarkPublished :: "'d gorm_ops \<Rightarrow> int \<Rightarrow> string \<Rightarrow> 'd \<Rightarrow> go_error option \<times> 'd" where
  "MarkPublished db now eventID d = gd_UpdatePublished db [eventID] now d"

definition MarkPublishedBatch :: "'d gorm_ops \<Rightarrow> int \<Rightarrow> string list \<Rightarrow> 'd \<Rightarrow> go_error option \<times> 'd" where
  "MarkPublishedBatch db now eventIDs d = gd_UpdatePublished db eventIDs now d"

definition RecordPublishError :: "'d gorm_ops \<Rightarrow> string \<Rightarrow> string \<Rightarrow> 'd \<Rightarrow> go_error option \<times> 'd" where
  "RecordPublishError db eventID errMsg d = gd_UpdateError db eventID errMsg d"

text \<open>The cutoff is reckoned in days of 24 hours, as in a time zone without daylight saving.\<close>

definition CleanPublished :: "'d gorm_ops \<Rightarrow> int \<Rightarrow> int \<Rightarrow> 'd \<Rightarrow> int \<times> go_error option \<times> 'd" where
  "CleanPublished db now retentionDays d =
     gd_DeletePublished db (now - retentionDays * (24 * 60 * 60 * 10 ^ 9)) d"

definition GetFailedEntries :: "'d gorm_ops \<Rightarrow> int \<Rightarrow> 'd \<Rightarrow> go_error + OutboxEntry list" where
  "GetFailedEntries db maxRetries d = gd_FindFailed db maxRetries 100 d"

definition WriteIfNotExists :: "'d gorm_ops \<Rightarrow> int \<Rightarrow> string \<Rightarrow> 'd \<Rightarrow> (go_error + bool) \<times> 'd" where
  "WriteIfNotExists db now eventID d =
     (case gd_CreateProcessed db eventID now d of
        (Inl err, d') \<Rightarrow> (Inl err, d')
      | (Inr rowsAffected, d') \<Rightarrow> (Inr (rowsAffected \<noteq> 0), d'))"

definition Delete :: "'d gorm_ops \<Rightarrow> string \<Rightarrow> 'd \<Rightarrow> go_error option \<times> 'd" where
  "Delete db eventID d = gd_DeleteProcessed db eventID d"

section \<open>The position processor\<close>

text \<open>
  A \<open>nil\<close> handle is None. The two repositories hold the handle they were made with. The functions that
  update a position get the transaction, or \<open>nil\<close> outside of one.
\<close>

type_synonym 'd buy_fn = "'d gorm_ops option \<Rightarrow> string \<Rightarrow> string \<Rightarrow> string \<Rightarrow> string \<Rightarrow> 'd \<Rightarrow> go_error option \<times> 'd"
type_synonym 'd sell_fn = "'d gorm_ops option \<Rightarrow> string \<Rightarrow> string \<Rightarrow> string \<Rightarrow> 'd \<Rightarrow> go_error option \<times> 'd"

record 'd PositionProcessor =
  pp_processedTrades :: "string \<rightharpoonup> bool"
  pp_processedRepo :: "'d gorm_ops option"
  pp_buyPositionFn :: "'d buy_fn"
  pp_sellPositionFn :: "'d sell_fn"
  pp_db :: "'d gorm_ops option"
  pp_outboxRepo :: "'d gorm_ops option"

definition NewPositionProcessor :: "'d buy_fn \<Rightarrow> 'd sell_fn \<Rightarrow> 'd PositionProcessor" where
  "NewPositionProcessor buyPositionFn sellPositionFn =
     \<lparr>pp_processedTrades = Map.empty, pp_processedRepo = None, pp_buyPositionFn = buyPositionFn,
      pp_sellPositionFn = sellPositionFn, pp_db = None, pp_outboxRepo = None\<rparr>"

definition NewPositionProcessorWithOutbox ::
  "'d gorm_ops option \<Rightarrow> 'd gorm_ops option \<Rightarrow> 'd buy_fn \<Rightarrow> 'd sell_fn \<Rightarrow> 'd PositionProcessor" where
  "NewPositionProcessorWithOutbox db outboxRepo buyPositionFn sellPositionFn =
     \<lparr>pp_processedTrades = Map.empty, pp_processedRepo = db, pp_buyPositionFn = buyPositionFn,
      pp_sellPositionFn = sellPositionFn, pp_db = db, pp_outboxRepo = outboxRepo\<rparr>"

text \<open>
  The two updates of a trade, which the source spells out three times: the taker's first, then the
  maker's.
\<close>

definition update_positions ::
  "'d PositionProcessor \<Rightarrow> 'd gorm_ops option \<Rightarrow> TradeExecutedEvent \<Rightarrow> 'd \<Rightarrow> go_error option \<times> 'd" where
  "update_positions pp tx e d =
     (let quantityStr = format8 (nano_to_float (te_Quantity e));
          priceStr = format8 (nano_to_float (te_Price e))
      in if te_TakerSide e = ''buy'' then
           (case pp_buyPositionFn pp tx (te_TakerUser e) (te_SymbolStr e) quantityStr priceStr d of
              (Some err, d1) \<Rightarrow> (Some err, d1)
            | (None, d1) \<Rightarrow> pp_sellPositionFn pp tx (te_MakerUser e) (te_SymbolStr e) quantityStr d1)
         else
           (case pp_sellPositionFn pp tx (te_TakerUser e) (te_SymbolStr e) quantityStr d of
              (Some err, d1) \<Rightarrow> (Some err, d1)
            | (None, d1) \<Rightarrow> pp_buyPositionFn pp tx (te_MakerUser e) (te_SymbolStr e) quantityStr priceStr d1))"

definition handleTradeExecuted ::
  "int \<Rightarrow> TradeExecutedEvent \<Rightarrow> 'd PositionProcessor \<Rightarrow> 'd \<Rightarrow> go_error option \<times> 'd PositionProcessor \<times> 'd" where
  "handleTradeExecuted now e pp d =
     (case pp_processedRepo pp of
        Some repo \<Rightarrow>
          (case WriteIfNotExists repo now (te_TradeID e) d of
             (Inl perr, d1) \<Rightarrow> (Some perr, pp, d1)
           | (Inr False, d1) \<Rightarrow> (None, pp, d1)
           | (Inr True, d1) \<Rightarrow>
               (case update_positions pp None e d1 of
                  (Some opErr, d2) \<Rightarrow> (Some opErr, pp, snd (Delete repo (te_TradeID e) d2))
                | (None, d2) \<Rightarrow> (None, pp, d2)))
      | None \<Rightarrow>
          if mget False (pp_processedTrades pp) (te_TradeID e) then (None, pp, d)
          else
            (case update_positions pp None e d of
               (Some err, d1) \<Rightarrow> (Some err, pp, d1)
             | (None, d1) \<Rightarrow>
                 (None, pp\<lparr>pp_processedTrades := (pp_processedTrades pp)(te_TradeID e \<mapsto> True)\<rparr>, d1)))"

definition outbox_entry :: "int \<Rightarrow> TradeExecutedEvent \<Rightarrow> OutboxEntry" where
  "outbox_entry now e =
     \<lparr>ox_ID = 0, ox_EventID = te_TradeID e, ox_EventType = ''TradeExecuted'', ox_AggregateID = te_SymbolStr e,
      ox_AggregateType = ''OrderBook'', ox_Payload = event_json (TradeExecuted e), ox_Published = False,
      ox_PublishedAt = None, ox_CreatedAt = now, ox_UpdatedAt = now, ox_RetryCount = 0, ox_LastError = []\<rparr>"

text \<open>The function run in the transaction; the boolean is \<open>alreadyProcessed\<close>.\<close>

definition trade_transaction ::
  "int \<Rightarrow> TradeExecutedEvent \<Rightarrow> 'd PositionProcessor \<Rightarrow> 'd gorm_ops \<Rightarrow> 'd \<Rightarrow> go_error option \<times> bool \<times> 'd" where
  "trade_transaction now e pp tx d =
     (case WriteOutboxEntryIfNotExists tx (outbox_entry now e) d of
        (Inl werr, d1) \<Rightarrow> (Some werr, False, d1)
      | (Inr False, d1) \<Rightarrow> (None, True, d1)
      | (Inr True, d1) \<Rightarrow> (case update_positions pp (Some tx) e d1 of (err, d2) \<Rightarrow> (err, False, d2)))"

definition handleTradeExecutedTransactional ::
  "int \<Rightarrow> TradeExecutedEvent \<Rightarrow> 'd PositionProcessor \<Rightarrow> 'd gorm_ops \<Rightarrow> 'd \<Rightarrow> go_error option \<times> 'd" where
  "handleTradeExecutedTransactional now e pp db d =
     (case gd_Transaction db (trade_transaction now e pp db) d of
        (Some err, alreadyProcessed, d') \<Rightarrow> (Some err, d')
      | (None, alreadyProcessed, d') \<Rightarrow> (None, d'))"

definition PositionProcessor_ProcessEvent ::
  "int \<Rightarrow> MatchingEngineEvent \<Rightarrow> 'd PositionProcessor \<Rightarrow> 'd \<Rightarrow> go_error option \<times> 'd PositionProcessor \<times> 'd" where
  "PositionProcessor_ProcessEvent now event pp d =
     (case event of
        TradeExecuted e \<Rightarrow>
          (case (pp_db pp, pp_outboxRepo pp) of
             (Some db, Some _) \<Rightarrow> (case handleTradeExecutedTransactional now e pp db d of (err, d') \<Rightarrow> (err, pp, d'))
           | _ \<Rightarrow> handleTradeExecuted now e pp d)
      | OrderCancelled e \<Rightarrow> (None, pp, d)
      | OrderSubmitted e \<Rightarrow> (None, pp, d))"

definition Reset :: "'d PositionProcessor \<Rightarrow> 'd PositionProcessor" where
  "Reset pp = pp\<lparr>pp_processedTrades := Map.empty\<rparr>"

text \<open>The processor as the program wires it.\<close>

definition wired_processor :: "'d gorm_ops \<Rightarrow> 'd PositionProcessor" where
  "wired_processor db =
     NewPositionProcessorWithOutbox (Some db) (Some db) (\<lambda>tx. BuyPositionTx (the tx)) (\<lambda>tx. SellPositionTx (the tx))"

section \<open>The positions a trade leads to\<close>

text \<open>Volume and average price by user and symbol. None stands for a refusal.\<close>

type_synonym holdings = "string \<times> string \<rightharpoonup> int \<times> int"

definition buy_holding :: "string \<Rightarrow> string \<Rightarrow> int \<Rightarrow> int \<Rightarrow> holdings \<Rightarrow> holdings option" where
  "buy_holding u s q p H =
     (case H (u, s) of
        None \<Rightarrow> Some (H((u, s) \<mapsto> (q, p)))
      | Some (v, a) \<Rightarrow>
          let n = i64 (v + q); avg = big_Div (v * a + q * p) n
          in if n = 0 \<or> \<not> in_i64 avg then None else Some (H((u, s) \<mapsto> (n, avg))))"

definition sell_holding :: "string \<Rightarrow> string \<Rightarrow> int \<Rightarrow> holdings \<Rightarrow> holdings option" where
  "sell_holding u s q H =
     (case H (u, s) of
        None \<Rightarrow> None
      | Some (v, a) \<Rightarrow>
          let n = i64 (v - q)
          in if v < q then None else Some (H((u, s) \<mapsto> (n, if n = 0 then 0 else a))))"

definition apply_trade :: "TradeExecutedEvent \<Rightarrow> holdings \<Rightarrow> holdings option" where
  "apply_trade e H =
     (let s = te_SymbolStr e; qs = QuantityInNano_String (te_Quantity e); ps = PriceInNano_String (te_Price e)
      in case (ParseQuantity qs, ParsePrice ps) of
           (Inr q, Inr p) \<Rightarrow>
             if te_TakerSide e = ''buy''
             then Option.bind (buy_holding (te_TakerUser e) s q p H) (sell_holding (te_MakerUser e) s q)
             else Option.bind (sell_holding (te_TakerUser e) s q H) (buy_holding (te_MakerUser e) s q p)
         | _ \<Rightarrow> None)"

fun apply_trades :: "TradeExecutedEvent list \<Rightarrow> holdings \<Rightarrow> holdings option" where
  "apply_trades [] H = Some H"
| "apply_trades (e # es) H = Option.bind (apply_trade e H) (apply_trades es)"

lemma apply_trades_snoc: "apply_trades (es @ [e]) H = Option.bind (apply_trades es H) (apply_trade e)"
  by (induction es arbitrary: H) (simp_all add: bind_assoc Option.bind_rzero split: bind_split)

text \<open>The columns of a row that is well-formed.\<close>

definition row_ok :: "string \<times> string \<Rightarrow> Position \<Rightarrow> bool" where
  "row_ok k pos \<longleftrightarrow>
     (ps_UserID pos, ps_Symbol pos) = k \<and> in_i64 (ps_VolumeBigint pos) \<and> in_i64 (ps_AvgPriceBigint pos) \<and>
     ps_Volume pos = QuantityInNano_String (ps_VolumeBigint pos) \<and>
     (ps_AvgPrice pos = PriceInNano_String (ps_AvgPriceBigint pos) \<or>
      ps_AvgPrice pos = ''0'' \<and> ps_AvgPriceBigint pos = 0 \<and> ps_VolumeBigint pos = 0)"

definition rows_ok :: "(string \<times> string \<rightharpoonup> Position) \<Rightarrow> bool" where
  "rows_ok r \<longleftrightarrow> (\<forall>k pos. r k = Some pos \<longrightarrow> row_ok k pos)"

definition holdings_of :: "(string \<times> string \<rightharpoonup> Position) \<Rightarrow> holdings" where
  "holdings_of r k = map_option (\<lambda>pos. (ps_VolumeBigint pos, ps_AvgPriceBigint pos)) (r k)"

lemma holdings_of_upd:
  "holdings_of (r(k \<mapsto> pos)) = (holdings_of r)(k \<mapsto> (ps_VolumeBigint pos, ps_AvgPriceBigint pos))"
  by (auto simp: holdings_of_def fun_eq_iff)

lemma rows_ok_upd: "rows_ok r \<Longrightarrow> row_ok k pos \<Longrightarrow> rows_ok (r(k \<mapsto> pos))"
  by (simp add: rows_ok_def)

section \<open>The contract of the tables\<close>

locale position_table =
  fixes db :: "'d gorm_ops" and rows :: "'d \<Rightarrow> string \<times> string \<rightharpoonup> Position"
  assumes first_row: "gd_First db u s d = Inr pos \<Longrightarrow> rows d (u, s) = Some pos \<and> ps_UserID pos = u \<and> ps_Symbol pos = s"
    and first_none: "gd_First db u s d = Inl ErrRecordNotFound \<Longrightarrow> rows d (u, s) = None"
    and create_done: "gd_Create db pos d = (None, d') \<Longrightarrow> rows d (ps_UserID pos, ps_Symbol pos) = None \<Longrightarrow>
      (\<exists>i. rows d' = (rows d)((ps_UserID pos, ps_Symbol pos) \<mapsto> pos\<lparr>ps_ID := i\<rparr>))"
    and save_done: "gd_Save db pos d = (None, d') \<Longrightarrow> rows d (ps_UserID pos, ps_Symbol pos) \<noteq> None \<Longrightarrow>
      rows d' = (rows d)((ps_UserID pos, ps_Symbol pos) \<mapsto> pos)"
begin

lemma buy_done:
  assumes "BuyPositionTx db u s qs ps d = (None, d')"
  obtains q p where "ParseQuantity qs = Inr q" "ParsePrice ps = Inr p"
    "buy_holding u s q p (holdings_of (rows d)) = Some (holdings_of (rows d'))"
    "rows_ok (rows d) \<Longrightarrow> rows_ok (rows d')"
proof -
  obtain q p where qp: "ParseQuantity qs = Inr q" "ParsePrice ps = Inr p"
    using assms by (auto simp: BuyPositionTx_def Let_def split: sum.splits)
  note rng = in_i64_parsed(1) [OF qp(1)] in_i64_parsed(2) [OF qp(2)]
  show thesis
  proof (cases "gd_First db u s d")
    case (Inl e)
    let ?pos = "\<lparr>ps_ID = 0, ps_UserID = u, ps_Symbol = s, ps_Volume = QuantityInNano_String q,
      ps_AvgPrice = PriceInNano_String p, ps_VolumeBigint = q, ps_AvgPriceBigint = p\<rparr>"
    from Inl assms qp have cr: "e = ErrRecordNotFound" "gd_Create db ?pos d = (None, d')"
      by (auto simp: BuyPositionTx_def Let_def split: if_splits)
    with Inl first_none have none: "rows d (u, s) = None" by simp
    with create_done [OF cr(2)] obtain i where d': "rows d' = (rows d)((u, s) \<mapsto> ?pos\<lparr>ps_ID := i\<rparr>)" by auto
    show thesis
      by (rule that [OF qp]) (use none rng in \<open>auto simp: d' buy_holding_def holdings_of_upd row_ok_def
        holdings_of_def [of "rows d" "(u, s)"] intro!: rows_ok_upd\<close>)
  next
    case (Inr pos)
    define n where "n = i64 (ps_VolumeBigint pos + q)"
    define avg where "avg = big_Div (ps_VolumeBigint pos * ps_AvgPriceBigint pos + q * p) n"
    let ?pos = "pos\<lparr>ps_VolumeBigint := n, ps_AvgPriceBigint := avg,
      ps_Volume := QuantityInNano_String n, ps_AvgPrice := PriceInNano_String avg\<rparr>"
    from Inr assms qp have sv: "n \<noteq> 0" "in_i64 avg" "gd_Save db ?pos d = (None, d')"
      by (auto simp: BuyPositionTx_def Let_def n_def avg_def split: if_splits)
    from first_row [OF Inr] have row: "rows d (u, s) = Some pos" "ps_UserID pos = u" "ps_Symbol pos = s" by simp_all
    with save_done [OF sv(3)] have d': "rows d' = (rows d)((u, s) \<mapsto> ?pos)" by simp
    have "in_i64 n" by (simp add: n_def)
    then show thesis
      by (intro that [OF qp]) (use row sv in \<open>auto simp: d' buy_holding_def Let_def holdings_of_upd row_ok_def
        holdings_of_def [of "rows d" "(u, s)"] n_def [symmetric] avg_def [symmetric] intro!: rows_ok_upd\<close>)
  qed
qed

lemma sell_done:
  assumes "SellPositionTx db u s qs d = (None, d')"
  obtains q where "ParseQuantity qs = Inr q" "sell_holding u s q (holdings_of (rows d)) = Some (holdings_of (rows d'))"
    "rows_ok (rows d) \<Longrightarrow> rows_ok (rows d')"
proof -
  obtain q pos where q: "ParseQuantity qs = Inr q" and pos: "gd_First db u s d = Inr pos"
    using assms by (auto simp: SellPositionTx_def Let_def split: sum.splits)
  define n where "n = i64 (ps_VolumeBigint pos - q)"
  let ?p1 = "pos\<lparr>ps_VolumeBigint := n\<rparr>"
  let ?pos = "(if n = 0 then ?p1\<lparr>ps_AvgPriceBigint := 0, ps_AvgPrice := ''0''\<rparr>
    else ?p1\<lparr>ps_AvgPrice := PriceInNano_String (ps_AvgPriceBigint ?p1)\<rparr>)\<lparr>ps_Volume := QuantityInNano_String n\<rparr>"
  from pos q assms have sv: "q \<le> ps_VolumeBigint pos" "gd_Save db ?pos d = (None, d')"
    by (auto simp: SellPositionTx_def Let_def n_def split: if_splits)
  from first_row [OF pos] have row: "rows d (u, s) = Some pos" "ps_UserID pos = u" "ps_Symbol pos = s" by simp_all
  with save_done [OF sv(2)] have d': "rows d' = (rows d)((u, s) \<mapsto> ?pos)" by (simp split: if_splits)
  have "in_i64 n" by (simp add: n_def)
  moreover have "in_i64 (ps_AvgPriceBigint pos)" if "rows_ok (rows d)" using that row by (auto simp: rows_ok_def row_ok_def)
  ultimately show thesis
    by (intro that [OF q]) (use row sv in \<open>auto simp: d' sell_holding_def Let_def holdings_of_upd row_ok_def
      holdings_of_def [of "rows d" "(u, s)"] n_def [symmetric] intro!: rows_ok_upd\<close>)
qed

lemma update_done:
  assumes "update_positions (wired_processor db) (Some db) e d = (None, d')"
  shows "apply_trade e (holdings_of (rows d)) = Some (holdings_of (rows d'))" (is ?ap)
    and "rows_ok (rows d) \<Longrightarrow> rows_ok (rows d')"
proof -
  have fns: "pp_buyPositionFn (wired_processor db) (Some db) = BuyPositionTx db"
    "pp_sellPositionFn (wired_processor db) (Some db) = SellPositionTx db"
    by (simp_all add: wired_processor_def NewPositionProcessorWithOutbox_def)
  let ?qs = "QuantityInNano_String (te_Quantity e)" and ?ps = "PriceInNano_String (te_Price e)" and ?s = "te_SymbolStr e"
  note str = QuantityInNano_String_def [symmetric] PriceInNano_String_def [symmetric]
  have "?ap \<and> (rows_ok (rows d) \<longrightarrow> rows_ok (rows d'))"
  proof (cases "te_TakerSide e = ''buy''")
    case True
    then obtain d1 where b: "BuyPositionTx db (te_TakerUser e) ?s ?qs ?ps d = (None, d1)"
      and l: "SellPositionTx db (te_MakerUser e) ?s ?qs d1 = (None, d')"
      using assms by (auto simp: update_positions_def fns Let_def QuantityInNano_String_def PriceInNano_String_def
          split: prod.splits option.splits)
    from True show ?thesis
      by (rule_tac buy_done [OF b], rule_tac sell_done [OF l]) (simp add: apply_trade_def Let_def)
  next
    case False
    then obtain d1 where l: "SellPositionTx db (te_TakerUser e) ?s ?qs d = (None, d1)"
      and b: "BuyPositionTx db (te_MakerUser e) ?s ?qs ?ps d1 = (None, d')"
      using assms by (auto simp: update_positions_def fns Let_def QuantityInNano_String_def PriceInNano_String_def
          split: prod.splits option.splits)
    from False show ?thesis
      by (rule_tac buy_done [OF b], rule_tac sell_done [OF l]) (simp add: apply_trade_def Let_def)
  qed
  then show ?ap "rows_ok (rows d) \<Longrightarrow> rows_ok (rows d')" by simp_all
qed

end

lemma wired_handles [simp]: "pp_db (wired_processor db) = Some db" "pp_outboxRepo (wired_processor db) = Some db"
  by (simp_all add: wired_processor_def NewPositionProcessorWithOutbox_def)

text \<open>
  The outbox has a unique index on the event's id, and a transaction takes effect as a whole. One that
  reports success has committed; one that reports an error may still have committed, when it is the
  answer to the commit that got lost.
\<close>

locale outbox_store = position_table db rows
  for db :: "'d gorm_ops" and rows :: "'d \<Rightarrow> string \<times> string \<rightharpoonup> Position" +
  fixes ids :: "'d \<Rightarrow> string set"
  assumes insert_absent: "gd_CreateIfAbsent db x d = (Inr n, d') \<Longrightarrow>
      rows d' = rows d \<and> ids d' = insert (ox_EventID x) (ids d) \<and> (n = 0 \<longleftrightarrow> ox_EventID x \<in> ids d)"
    and create_ids: "gd_Create db pos d = (None, d') \<Longrightarrow> ids d' = ids d"
    and save_ids: "gd_Save db pos d = (None, d') \<Longrightarrow> ids d' = ids d"
    and transaction_done: "gd_Transaction db f d = (None, a, d') \<Longrightarrow> f d = (None, a, d')"
    and transaction_failed: "gd_Transaction db f d = (Some err, a, d') \<Longrightarrow> d' = d \<or> (\<exists>a'. f d = (None, a', d'))"
begin

lemma update_ids:
  assumes "update_positions (wired_processor db) (Some db) e d = (None, d')"
  shows "ids d' = ids d"
proof -
  have buy: "BuyPositionTx db u s qs ps d = (None, d') \<Longrightarrow> ids d' = ids d" for u s qs ps d d'
    using create_ids save_ids by (auto simp: BuyPositionTx_def Let_def split: sum.splits if_splits)
  have sell: "SellPositionTx db u s qs d = (None, d') \<Longrightarrow> ids d' = ids d" for u s qs d d'
    using save_ids by (auto simp: SellPositionTx_def Let_def split: sum.splits if_splits)
  show ?thesis
    using assms buy sell
    by (fastforce simp: update_positions_def wired_processor_def NewPositionProcessorWithOutbox_def Let_def
        split: prod.splits option.splits if_splits)
qed

text \<open>What a transaction that commits has done.\<close>

lemma trade_transaction_done:
  assumes "trade_transaction now e (wired_processor db) db d = (None, a, d')"
  shows "ids d' = insert (te_TradeID e) (ids d)"
    and "te_TradeID e \<in> ids d \<Longrightarrow> rows d' = rows d"
    and "te_TradeID e \<notin> ids d \<Longrightarrow> apply_trade e (holdings_of (rows d)) = Some (holdings_of (rows d'))"
    and "rows_ok (rows d) \<Longrightarrow> rows_ok (rows d')"
proof -
  obtain n d1 where c: "gd_CreateIfAbsent db (outbox_entry now e) d = (Inr n, d1)"
    using assms by (auto simp: trade_transaction_def WriteOutboxEntryIfNotExists_def split: prod.splits sum.splits)
  from insert_absent [OF c] have d1: "rows d1 = rows d" "ids d1 = insert (te_TradeID e) (ids d)"
    and n: "n = 0 \<longleftrightarrow> te_TradeID e \<in> ids d" by (simp_all add: outbox_entry_def)
  have skip: "d' = d1" if "te_TradeID e \<in> ids d"
    using that assms c n by (simp add: trade_transaction_def WriteOutboxEntryIfNotExists_def)
  have upd: "update_positions (wired_processor db) (Some db) e d1 = (None, d')" if "te_TradeID e \<notin> ids d"
    using that assms c n by (auto simp: trade_transaction_def WriteOutboxEntryIfNotExists_def split: prod.splits)
  show "ids d' = insert (te_TradeID e) (ids d)" using skip update_ids [OF upd] d1(2) by blast
  show "rows d' = rows d" if "te_TradeID e \<in> ids d" using skip [OF that] d1(1) by simp
  show "apply_trade e (holdings_of (rows d)) = Some (holdings_of (rows d'))" if "te_TradeID e \<notin> ids d"
    using update_done(1) [OF upd [OF that]] d1(1) by simp
  show "rows_ok (rows d')" if "rows_ok (rows d)"
    using that skip update_done(2) [OF upd] d1(1) by (cases "te_TradeID e \<in> ids d") simp_all
qed

lemma process_event_cases:
  assumes "PositionProcessor_ProcessEvent now ev (wired_processor db) d = (err, pp, d')"
  obtains (unchanged) "d' = d" "pp = wired_processor db" "\<And>e. ev = TradeExecuted e \<Longrightarrow> err \<noteq> None"
  | (commit) e a where "ev = TradeExecuted e" "pp = wired_processor db"
      "trade_transaction now e (wired_processor db) db d = (None, a, d')"
proof (cases ev)
  case (TradeExecuted e)
  obtain err' a d'' where tx: "gd_Transaction db (trade_transaction now e (wired_processor db) db) d = (err', a, d'')"
    by (metis prod_cases3)
  then have r: "err = err'" "pp = wired_processor db" "d'' = d'"
    using assms TradeExecuted
    by (auto simp: PositionProcessor_ProcessEvent_def handleTradeExecutedTransactional_def split: option.splits)
  note tx = tx [unfolded r(3)]
  show thesis
  proof (cases err')
    case None
    from transaction_done [OF tx [unfolded None]]
    have "trade_transaction now e (wired_processor db) db d = (None, a, d')" .
    then show thesis by (rule commit [OF TradeExecuted r(2)])
  next
    case (Some er)
    consider "d' = d" | a' where "trade_transaction now e (wired_processor db) db d = (None, a', d')"
      using transaction_failed [OF tx [unfolded Some]] by blast
    then show thesis
    proof cases
      case 1
      then show thesis by (rule unchanged) (simp_all add: r Some)
    qed (rule commit [OF TradeExecuted r(2)])
  qed
qed (use assms in \<open>auto simp: PositionProcessor_ProcessEvent_def intro: unchanged\<close>)

end

text \<open>A run of the processor: the events it is given in turn, with the error it returns for each.\<close>

fun process_all ::
  "'d PositionProcessor \<Rightarrow> (int \<times> MatchingEngineEvent) list \<Rightarrow> 'd \<Rightarrow> (MatchingEngineEvent \<times> go_error option) list \<times> 'd" where
  "process_all pp [] d = ([], d)"
| "process_all pp ((now, ev) # evs) d =
     (case PositionProcessor_ProcessEvent now ev pp d of (err, pp', d1) \<Rightarrow>
      case process_all pp' evs d1 of (rs, d2) \<Rightarrow> ((ev, err) # rs, d2))"

context outbox_store
begin

lemma process_all_once:
  assumes "process_all (wired_processor db) evs d = (rs, d')"
  shows "\<exists>ts. distinct (map te_TradeID ts) \<and> TradeExecuted ` set ts \<subseteq> snd ` set evs \<and>
    ids d \<inter> te_TradeID ` set ts = {} \<and> ids d' = ids d \<union> te_TradeID ` set ts \<and>
    apply_trades ts (holdings_of (rows d)) = Some (holdings_of (rows d'))" (is "\<exists>ts. ?P evs d d' ts")
    and "(TradeExecuted e, None) \<in> set rs \<Longrightarrow> te_TradeID e \<in> ids d'"
    and "rows_ok (rows d) \<Longrightarrow> rows_ok (rows d')"
proof -
  have "(\<exists>ts. ?P evs d d' ts) \<and> ((TradeExecuted e, None) \<in> set rs \<longrightarrow> te_TradeID e \<in> ids d') \<and>
    (rows_ok (rows d) \<longrightarrow> rows_ok (rows d'))"
    using assms
  proof (induction evs arbitrary: d rs)
    case Nil
    then show ?case by (auto intro!: exI [of _ "[]"])
  next
    case (Cons x evs)
    obtain now ev where x: "x = (now, ev)" by (cases x)
    obtain err pp d1 where p: "PositionProcessor_ProcessEvent now ev (wired_processor db) d = (err, pp, d1)"
      by (metis prod_cases3)
    obtain rs' where q: "process_all pp evs d1 = (rs', d')" and rs: "rs = (ev, err) # rs'"
      using Cons.prems p by (auto simp: x split: prod.splits)
    from p show ?case
    proof (cases rule: process_event_cases)
      case unchanged
      from Cons.IH [OF q [unfolded unchanged(1,2)]] obtain ts where ts: "?P evs d d' ts"
        and r: "(TradeExecuted e, None) \<in> set rs' \<longrightarrow> te_TradeID e \<in> ids d'" "rows_ok (rows d) \<longrightarrow> rows_ok (rows d')"
        by (elim conjE exE) (rule that; simp)
      have "?P (x # evs) d d' ts" using ts by auto
      moreover have "(TradeExecuted e, None) \<in> set rs'" if "(TradeExecuted e, None) \<in> set rs"
        using that rs unchanged(3) by auto
      ultimately show ?thesis using r by blast
    next
      case (commit t a)
      note step = trade_transaction_done [OF commit(3)]
      from Cons.IH [OF q [unfolded commit(2)]] obtain ts where ts: "?P evs d1 d' ts"
        and r: "(TradeExecuted e, None) \<in> set rs' \<longrightarrow> te_TradeID e \<in> ids d'" "rows_ok (rows d1) \<longrightarrow> rows_ok (rows d')"
        by (elim conjE exE) (rule that; simp)
      have "\<exists>ts. ?P (x # evs) d d' ts"
      proof (cases "te_TradeID t \<in> ids d")
        case True
        with ts step(1) step(2) [OF True] show ?thesis by (intro exI [of _ ts]) (auto simp: insert_absorb)
      next
        case False
        with ts step(1) step(3) [OF False] commit(1) x show ?thesis by (intro exI [of _ "t # ts"]) auto
      qed
      moreover have "te_TradeID t \<in> ids d'" using ts step(1) by auto
      ultimately show ?thesis using r rs commit(1) step(4) by auto
    qed
  qed
  then show "\<exists>ts. ?P evs d d' ts" "(TradeExecuted e, None) \<in> set rs \<Longrightarrow> te_TradeID e \<in> ids d'"
    "rows_ok (rows d) \<Longrightarrow> rows_ok (rows d')" by simp_all
qed

end

section \<open>A database in memory\<close>

record mem_db =
  md_rows :: "((string \<times> string) \<times> Position) list"
  md_outbox :: "OutboxEntry list"
  md_processed :: "string list"

definition mem_key :: "Position \<Rightarrow> string \<times> string" where
  "mem_key pos = (ps_UserID pos, ps_Symbol pos)"

definition mem_ids :: "mem_db \<Rightarrow> string set" where
  "mem_ids d = set (map ox_EventID (md_outbox d))"

definition mem_limit :: "int \<Rightarrow> 'a list \<Rightarrow> 'a list" where
  "mem_limit n xs = (if n < 0 then xs else take (nat n) xs)"

definition memory_gorm :: "mem_db gorm_ops" where
  "memory_gorm =
     \<lparr>gd_First = (\<lambda>u s d. case map_of (md_rows d) (u, s) of
        None \<Rightarrow> Inl ErrRecordNotFound | Some pos \<Rightarrow> if mem_key pos = (u, s) then Inr pos else Inl ''corrupt row''),
      gd_Create = (\<lambda>pos d. (None, d\<lparr>md_rows := (mem_key pos, pos\<lparr>ps_ID := Suc (length (md_rows d))\<rparr>) # md_rows d\<rparr>)),
      gd_Save = (\<lambda>pos d. (None, d\<lparr>md_rows := (mem_key pos, pos) # md_rows d\<rparr>)),
      gd_CreateEntry = (\<lambda>x d. if ox_EventID x \<in> mem_ids d then (Some ''duplicate key'', d)
        else (None, d\<lparr>md_outbox := md_outbox d @ [x]\<rparr>)),
      gd_CreateIfAbsent = (\<lambda>x d. if ox_EventID x \<in> mem_ids d then (Inr 0, d)
        else (Inr 1, d\<lparr>md_outbox := md_outbox d @ [x]\<rparr>)),
      gd_CreateProcessed = (\<lambda>i now d. if i \<in> set (md_processed d) then (Inr 0, d)
        else (Inr 1, d\<lparr>md_processed := i # md_processed d\<rparr>)),
      gd_DeleteProcessed = (\<lambda>i d. (None, d\<lparr>md_processed := removeAll i (md_processed d)\<rparr>)),
      gd_FindUnpublished = (\<lambda>n d. Inr (mem_limit n (sort_key ox_CreatedAt (filter (\<lambda>x. \<not> ox_Published x) (md_outbox d))))),
      gd_FindFailed = (\<lambda>m n d. Inr (mem_limit n (sort_key ox_RetryCount (sort_key ox_CreatedAt
        (filter (\<lambda>x. \<not> ox_Published x \<and> ox_RetryCount x < m) (md_outbox d)))))),
      gd_UpdatePublished = (\<lambda>is now d. (None, d\<lparr>md_outbox := map (\<lambda>x. if ox_EventID x \<in> set is
        then x\<lparr>ox_Published := True, ox_PublishedAt := Some now\<rparr> else x) (md_outbox d)\<rparr>)),
      gd_UpdateError = (\<lambda>i msg d. (None, d\<lparr>md_outbox := map (\<lambda>x. if ox_EventID x = i
        then x\<lparr>ox_RetryCount := ox_RetryCount x + 1, ox_LastError := msg\<rparr> else x) (md_outbox d)\<rparr>)),
      gd_DeletePublished = (\<lambda>cutoff d. let old = (\<lambda>x. ox_Published x \<and> (case ox_PublishedAt x of None \<Rightarrow> False | Some t \<Rightarrow> t < cutoff))
        in (int (length (filter old (md_outbox d))), None, d\<lparr>md_outbox := filter (\<lambda>x. \<not> old x) (md_outbox d)\<rparr>)),
      gd_Transaction = (\<lambda>f d. case f d of (None, a, d') \<Rightarrow> (None, a, d') | (Some err, a, d') \<Rightarrow> (Some err, a, d))\<rparr>"

interpretation mem_outbox: outbox_store memory_gorm "map_of \<circ> md_rows" mem_ids
proof (unfold_locales, goal_cases)
  case (3 pos d d')
  then show ?case
    by (intro exI [of _ "Suc (length (md_rows d))"]) (auto simp: memory_gorm_def mem_key_def fun_eq_iff)
qed (auto simp: memory_gorm_def mem_key_def mem_ids_def fun_eq_iff split: option.splits if_splits prod.splits)

section \<open>Properties\<close>

text \<open>
  C17. Exactly once. Whatever trades the processor of the program is given, in whatever order and
  however often, and whatever the database answers, the positions are those that result from applying
  once each, in some order, the trades whose ids are new in the outbox, and every trade that was
  processed without an error is among the ids.
\<close>

theorem positions_exactly_once:
  assumes "outbox_store db rows ids" "process_all (wired_processor db) evs d = (rs, d')"
  shows "(\<exists>ts. distinct (map te_TradeID ts) \<and> TradeExecuted ` set ts \<subseteq> snd ` set evs \<and>
      ids d \<inter> te_TradeID ` set ts = {} \<and> ids d' = ids d \<union> te_TradeID ` set ts \<and>
      apply_trades ts (holdings_of (rows d)) = Some (holdings_of (rows d'))) \<and>
    (\<forall>e. (TradeExecuted e, None) \<in> set rs \<longrightarrow> te_TradeID e \<in> ids d')"
  using outbox_store.process_all_once(1,2) [OF assms] by blast

definition demo_trade :: TradeExecutedEvent where
  "demo_trade =
     \<lparr>te_Seq = 7, te_Timestamp = 0, te_TradeID = ''T1'', te_SymbolStr = ''BTC'', te_TakerOrderID = ''o1'',
      te_MakerOrderID = ''o2'', te_TakerUser = ''ann'', te_MakerUser = ''bob'', te_Price = 200000000,
      te_Quantity = 100000000, te_TakerSide = ''buy''\<rparr>"

definition demo_db :: mem_db where
  "demo_db =
     \<lparr>md_rows = [((''bob'', ''BTC''), \<lparr>ps_ID = 1, ps_UserID = ''bob'', ps_Symbol = ''BTC'', ps_Volume = ''3.00000000'',
        ps_AvgPrice = ''1.00000000'', ps_VolumeBigint = 300000000, ps_AvgPriceBigint = 100000000\<rparr>)],
      md_outbox = [], md_processed = []\<rparr>"

text \<open>The trade is delivered twice and booked once.\<close>

definition demo_deliver :: "mem_db \<Rightarrow> go_error option \<times> mem_db PositionProcessor \<times> mem_db" where
  "demo_deliver d = PositionProcessor_ProcessEvent 1 (TradeExecuted demo_trade) (wired_processor memory_gorm) d"

definition demo_booked :: mem_db where
  "demo_booked =
     \<lparr>md_rows =
        [((''bob'', ''BTC''), \<lparr>ps_ID = 1, ps_UserID = ''bob'', ps_Symbol = ''BTC'', ps_Volume = ''2.00000000'',
          ps_AvgPrice = ''1.00000000'', ps_VolumeBigint = 200000000, ps_AvgPriceBigint = 100000000\<rparr>),
         ((''ann'', ''BTC''), \<lparr>ps_ID = 2, ps_UserID = ''ann'', ps_Symbol = ''BTC'', ps_Volume = ''1.00000000'',
          ps_AvgPrice = ''2.00000000'', ps_VolumeBigint = 100000000, ps_AvgPriceBigint = 200000000\<rparr>)] @ md_rows demo_db,
      md_outbox = [outbox_entry 1 demo_trade], md_processed = []\<rparr>"

lemma demo_deliver_state:
  "snd (demo_deliver d) = (wired_processor memory_gorm, snd (snd (demo_deliver d)))"
proof -
  obtain err pp d' where r: "demo_deliver d = (err, pp, d')" by (metis prod_cases3)
  then have "pp = wired_processor memory_gorm"
    unfolding demo_deliver_def by (cases rule: mem_outbox.process_event_cases) simp_all
  with r show ?thesis by simp
qed

lemma demo_first: "fst (demo_deliver demo_db) = None" "snd (snd (demo_deliver demo_db)) = demo_booked"
  by code_simp+

lemma demo_second: "fst (demo_deliver demo_booked) = None" "snd (snd (demo_deliver demo_booked)) = demo_booked"
  by code_simp+

lemma demo_deliveries:
  "demo_deliver demo_db = (None, wired_processor memory_gorm, demo_booked)"
  "demo_deliver demo_booked = (None, wired_processor memory_gorm, demo_booked)"
  using demo_deliver_state [of demo_db] demo_deliver_state [of demo_booked] demo_first demo_second
  by (simp_all add: prod_eq_iff)

lemma booking_run:
  "process_all (wired_processor memory_gorm) [(1, TradeExecuted demo_trade), (1, TradeExecuted demo_trade)] demo_db =
   ([(TradeExecuted demo_trade, None), (TradeExecuted demo_trade, None)], demo_booked)"
  using demo_deliveries by (simp add: demo_deliver_def)

theorem positions_exactly_once_witness:
  "\<exists>ts. distinct (map te_TradeID ts) \<and> set ts = {demo_trade} \<and>
     apply_trades ts (holdings_of (map_of (md_rows demo_db))) = Some (holdings_of (map_of (md_rows demo_booked)))"
proof -
  from positions_exactly_once [OF mem_outbox.outbox_store_axioms booking_run]
  obtain ts where ts: "distinct (map te_TradeID ts)" "TradeExecuted ` set ts \<subseteq> {TradeExecuted demo_trade}"
    "mem_ids demo_booked = mem_ids demo_db \<union> te_TradeID ` set ts"
    "apply_trades ts (holdings_of (map_of (md_rows demo_db))) = Some (holdings_of (map_of (md_rows demo_booked)))"
    by (auto simp: comp_def)
  have "mem_ids demo_db = {}" "mem_ids demo_booked \<noteq> {}"
    by (simp_all add: mem_ids_def demo_db_def demo_booked_def)
  with ts(3) have "set ts \<noteq> {}" by auto
  moreover have "set ts \<subseteq> {demo_trade}" using ts(2) by auto
  ultimately have "set ts = {demo_trade}" using subset_singletonD by metis
  with ts show ?thesis by blast
qed

text \<open>
  C18. Well-formed rows. If every row of the position table belongs to its user and symbol, holds its
  volume and average price as values of \<open>int64\<close>, and has in its text columns the printed form of the
  integer ones, or the plain text 0 as the average price of an empty position, then so does every row
  after any run of the processor.
\<close>

theorem position_rows_typed:
  assumes "outbox_store db rows ids" "process_all (wired_processor db) evs d = (rs, d')" "rows_ok (rows d)"
  shows "rows_ok (rows d')"
  using outbox_store.process_all_once(3) [OF assms] .

theorem position_rows_typed_witness: "rows_ok (map_of (md_rows demo_booked))"
proof -
  have "QuantityInNano_String 300000000 = ''3.00000000''" "PriceInNano_String 100000000 = ''1.00000000''" by code_simp+
  then have "rows_ok ((map_of \<circ> md_rows) demo_db)"
    by (auto simp: rows_ok_def row_ok_def demo_db_def in_i64_def split: if_splits)
  from position_rows_typed [OF mem_outbox.outbox_store_axioms booking_run this] show ?thesis by simp
qed

end
