(* ===== verification/Outbox.thy ===== *)
theory Outbox
  imports Positions "HOL-Library.AList"
begin

text \<open>
  \<^verbatim>\<open>src/biz/service/outbox_dispatcher.go\<close> and the writer cache of \<^verbatim>\<open>src/biz/dal/kafka/init.go\<close>: the
  dispatcher reads unpublished outbox entries, sends each to Kafka and marks those that were sent.

  The Kafka client is the parameter \<open>kafka_ops\<close>, over a state \<open>'k\<close>; the database is the \<open>gorm_ops\<close> of the
  positions. The configuration is an argument, its topics in the order a range over them takes. A panic
  ends the program.
\<close>

section \<open>Decoded payloads\<close>

text \<open>
  What \<^verbatim>\<open>json.Unmarshal\<close> puts into an \<^verbatim>\<open>interface{}\<close>: numbers are \<open>float64\<close> values, and one out of their
  range is an error; of equal keys the last wins.
\<close>

datatype go_value = GNil | GBool bool | GNumber f64 | GString string | GArray "go_value list" | GObject "(string \<times> go_value) list"

fun decode_any :: "json \<Rightarrow> go_value option" where
  "decode_any JNull = Some GNil"
| "decode_any (JBool b) = Some (GBool b)"
| "decode_any (JNum n) = (case ParseFloat n of Inl _ \<Rightarrow> None | Inr f \<Rightarrow> Some (GNumber f))"
| "decode_any (JStr s) = Some (GString s)"
| "decode_any (JArr js) = map_option GArray (those (map decode_any js))"
| "decode_any (JObj kjs) =
     map_option (\<lambda>vs. GObject (AList.clearjunk (rev (zip (map fst kjs) vs)))) (those (map (\<lambda>kj. decode_any (snd kj)) kjs))"

section \<open>Writers\<close>

text \<open>
  A \<open>Writer\<close> is a \<^verbatim>\<open>*kafka.Writer\<close> with its topic and its \<^verbatim>\<open>Async\<close> flag, \<open>CustomSender\<close> any other implementation
  of \<open>MessageSender\<close>. An asynchronous writer puts a message in a queue and answers before anything is sent.
\<close>

datatype sender = Writer string bool | CustomSender

text \<open>\<open>km_Value\<close> is the value that \<^verbatim>\<open>json.Marshal\<close> turned into the bytes of the message.\<close>

record KafkaMessage =
  km_Topic :: string
  km_Key :: string
  km_Value :: go_value
  km_Headers :: "(string \<times> string) list"

record 'k kafka_ops =
  kf_WriteMessages :: "sender \<Rightarrow> KafkaMessage \<Rightarrow> 'k \<Rightarrow> go_error option \<times> 'k"

record KafkaConf =
  kc_Brokers :: "string list"
  kc_Topics :: "(string \<times> string) list"

type_synonym writers = "string \<rightharpoonup> sender"

definition GetWriter :: "KafkaConf option \<Rightarrow> string \<Rightarrow> writers \<Rightarrow> (sender \<times> writers) outcome" where
  "GetWriter conf topic writers =
     (case writers topic of
        Some ms \<Rightarrow> Returns (ms, writers)
      | None \<Rightarrow>
          (case conf of
             None \<Rightarrow> Panics
           | Some c \<Rightarrow>
               if kc_Brokers c = [] then Panics
               else Returns (Writer topic True, writers(topic \<mapsto> Writer topic True))))"

section \<open>The dispatcher\<close>

record 'd OutboxDispatcher =
  od_outboxRepo :: "'d gorm_ops"
  od_kafkaProducer :: "sender option"
  od_batchSize :: int
  od_maxRetries :: int
  od_isRunning :: bool

definition NewOutboxDispatcher :: "'d gorm_ops \<Rightarrow> int \<Rightarrow> int \<Rightarrow> 'd OutboxDispatcher" where
  "NewOutboxDispatcher outboxRepo batchSize maxRetries =
     \<lparr>od_outboxRepo = outboxRepo, od_kafkaProducer = None, od_batchSize = batchSize, od_maxRetries = maxRetries,
      od_isRunning = False\<rparr>"

definition SetKafkaProducer :: "sender option \<Rightarrow> 'd OutboxDispatcher \<Rightarrow> 'd OutboxDispatcher" where
  "SetKafkaProducer writer od = od\<lparr>od_kafkaProducer := writer\<rparr>"

definition defaultTopic :: "KafkaConf option \<Rightarrow> string" where
  "defaultTopic conf =
     (case conf of
        None \<Rightarrow> ''trade''
      | Some cfg \<Rightarrow>
          if kc_Topics cfg = [] then ''trade''
          else case map_of (kc_Topics cfg) ''trade'' of
                 Some topic \<Rightarrow> topic
               | None \<Rightarrow> snd (hd (kc_Topics cfg)))"

text \<open>
  \<^verbatim>\<open>strings.ToLower\<close> and \<^verbatim>\<open>strings.EqualFold\<close> for a comparison with an ASCII string, as event types and
  aggregate types are.
\<close>

definition ToLower :: "string \<Rightarrow> string" where
  "ToLower s = map lower s"

definition EqualFold :: "string \<Rightarrow> string \<Rightarrow> bool" where
  "EqualFold s t \<longleftrightarrow> fold_name s = fold_name t"

definition resolveTopic :: "KafkaConf option \<Rightarrow> OutboxEntry option \<Rightarrow> string" where
  "resolveTopic conf ent =
     (case ent of
        None \<Rightarrow> defaultTopic conf
      | Some entry \<Rightarrow>
          (case conf of
             None \<Rightarrow> defaultTopic conf
           | Some cfg \<Rightarrow>
               let eventType = ToLower (ox_EventType entry);
                   by_type =
                     (if eventType = ''tradeexecuted'' \<or> eventType = ''trade_executed'' then map_of (kc_Topics cfg) ''trade''
                      else if eventType = ''positionupdated'' \<or> eventType = ''position_updated'' then map_of (kc_Topics cfg) ''order''
                      else None)
               in case by_type of
                    Some topic \<Rightarrow> topic
                  | None \<Rightarrow>
                      (case (if ox_AggregateType entry = [] then None
                             else find (\<lambda>(key, topic). EqualFold key (ToLower (ox_AggregateType entry)) \<or>
                                    EqualFold (ToLower key) (ToLower (ox_AggregateType entry))) (kc_Topics cfg)) of
                         Some (key, topic) \<Rightarrow> topic
                       | None \<Rightarrow> defaultTopic conf)))"

definition publishToKafka ::
  "'k kafka_ops \<Rightarrow> KafkaConf option \<Rightarrow> 'd OutboxDispatcher \<Rightarrow> OutboxEntry \<Rightarrow> go_value \<Rightarrow> writers \<times> 'k \<Rightarrow>
     (go_error option \<times> writers \<times> 'k) outcome" where
  "publishToKafka kafka conf od entry payload = (\<lambda>(writers, k).
     let topic = resolveTopic conf (Some entry);
         producer = (case od_kafkaProducer od of
             Some CustomSender \<Rightarrow> Returns (CustomSender, writers)
           | _ \<Rightarrow> GetWriter conf topic writers)
     in case producer of
          Panics \<Rightarrow> Panics
        | Returns (producer, writers) \<Rightarrow>
            let msg = \<lparr>km_Topic = (case producer of Writer t _ \<Rightarrow> if t = [] then topic else [] | CustomSender \<Rightarrow> topic),
                       km_Key = ox_EventID entry, km_Value = payload,
                       km_Headers = [(''event_id'', ox_EventID entry), (''aggregate_id'', ox_AggregateID entry),
                         (''aggregate_type'', ox_AggregateType entry)]\<rparr>
            in case kf_WriteMessages kafka producer msg k of
                 (Some err, k') \<Rightarrow> Returns (Some (''write message to kafka topic '' @ topic @ '': '' @ err), writers, k')
               | (None, k') \<Rightarrow> Returns (None, writers, k'))"

definition publishEntry ::
  "'k kafka_ops \<Rightarrow> KafkaConf option \<Rightarrow> 'd OutboxDispatcher \<Rightarrow> OutboxEntry \<Rightarrow> writers \<times> 'k \<Rightarrow>
     (go_error option \<times> writers \<times> 'k) outcome" where
  "publishEntry kafka conf od entry wk =
     (case decode_any (ox_Payload entry) of
        None \<Rightarrow> Returns (Some ''json'', wk)
      | Some event \<Rightarrow>
          if ox_EventType entry = ''TradeExecuted'' then publishToKafka kafka conf od entry event wk
          else if ox_EventType entry = ''PositionUpdated'' then publishToKafka kafka conf od entry event wk
          else Returns (None, wk))"

text \<open>The loop over a batch; \<open>ids\<close> is \<open>successfulEventIDs\<close>.\<close>

fun publish_entries ::
  "'k kafka_ops \<Rightarrow> KafkaConf option \<Rightarrow> 'd OutboxDispatcher \<Rightarrow> OutboxEntry list \<Rightarrow> string list \<Rightarrow> (writers \<times> 'k) \<times> 'd \<Rightarrow>
     (string list \<times> (writers \<times> 'k) \<times> 'd) outcome" where
  "publish_entries kafka conf od [] ids s = Returns (ids, s)"
| "publish_entries kafka conf od (entry # entries) ids (wk, d) =
     (case publishEntry kafka conf od entry wk of
        Panics \<Rightarrow> Panics
      | Returns (Some err, wk') \<Rightarrow>
          publish_entries kafka conf od entries ids
            (wk', snd (RecordPublishError (od_outboxRepo od) (ox_EventID entry) err d))
      | Returns (None, wk') \<Rightarrow> publish_entries kafka conf od entries (ids @ [ox_EventID entry]) (wk', d))"

definition dispatchBatch ::
  "'k kafka_ops \<Rightarrow> KafkaConf option \<Rightarrow> int \<Rightarrow> 'd OutboxDispatcher \<Rightarrow> (writers \<times> 'k) \<times> 'd \<Rightarrow> ((writers \<times> 'k) \<times> 'd) outcome" where
  "dispatchBatch kafka conf now od = (\<lambda>(wk, d).
     case GetUnpublished (od_outboxRepo od) (od_batchSize od) d of
       Inl err \<Rightarrow> Returns (wk, d)
     | Inr entries \<Rightarrow>
         if entries = [] then Returns (wk, d)
         else case publish_entries kafka conf od entries [] (wk, d) of
                Panics \<Rightarrow> Panics
              | Returns (ids, wk', d') \<Rightarrow>
                  if ids = [] then Returns (wk', d')
                  else Returns (wk', snd (MarkPublishedBatch (od_outboxRepo od) now ids d')))"

definition CleanupPublished :: "int \<Rightarrow> int \<Rightarrow> 'd OutboxDispatcher \<Rightarrow> 'd \<Rightarrow> go_error option \<times> 'd" where
  "CleanupPublished now retentionDays od d =
     (case CleanPublished (od_outboxRepo od) now retentionDays d of (rowsAffected, err, d') \<Rightarrow> (err, d'))"

definition Start :: "'d OutboxDispatcher \<Rightarrow> 'd OutboxDispatcher" where
  "Start od = (if od_isRunning od then od else od\<lparr>od_isRunning := True\<rparr>)"

text \<open>\<open>Stop\<close> hands a value to the goroutine, which marks the dispatcher as stopped.\<close>

definition Stop :: "'d OutboxDispatcher \<Rightarrow> 'd OutboxDispatcher" where
  "Stop od = (if od_isRunning od then od\<lparr>od_isRunning := False\<rparr> else od)"

section \<open>The contract\<close>

text \<open>What an entry keeps for good, and marking entries as published.\<close>

definition same_entry :: "OutboxEntry \<Rightarrow> OutboxEntry \<Rightarrow> bool" where
  "same_entry x y \<longleftrightarrow> ox_EventID x = ox_EventID y \<and> ox_EventType x = ox_EventType y \<and> ox_Payload x = ox_Payload y \<and>
     ox_CreatedAt x = ox_CreatedAt y"

definition marked :: "string set \<Rightarrow> OutboxEntry \<Rightarrow> OutboxEntry \<Rightarrow> bool" where
  "marked is x y \<longleftrightarrow> same_entry x y \<and> (ox_Published y \<longleftrightarrow> ox_Published x \<or> ox_EventID x \<in> is)"

lemma marked_refl: "list_all2 (marked {}) xs xs"
  by (simp add: list.rel_refl marked_def same_entry_def)

lemma marked_trans: "list_all2 (marked {}) xs ys \<Longrightarrow> list_all2 (marked is) ys zs \<Longrightarrow> list_all2 (marked is) xs zs"
  by (erule list_all2_trans [rotated], assumption) (auto simp: marked_def same_entry_def)

lemma marked_ids: "list_all2 (marked is) xs ys \<Longrightarrow> map ox_EventID ys = map ox_EventID xs"
  by (induction rule: list_all2_induct) (auto simp: marked_def same_entry_def)

lemma marked_source: "list_all2 (marked is) xs ys \<Longrightarrow> y \<in> set ys \<Longrightarrow> \<exists>x \<in> set xs. marked is x y"
  by (induction rule: list_all2_induct) auto

text \<open>
  \<open>out d\<close> is the outbox table. A query returns the oldest unpublished rows. An update that reports an
  error may have had its effect.
\<close>

locale outbox_rows =
  fixes db :: "'d gorm_ops" and out :: "'d \<Rightarrow> OutboxEntry list"
  assumes find_unpublished: "gd_FindUnpublished db n d = Inr xs \<Longrightarrow>
      (\<forall>x \<in> set xs. x \<in> set (out d) \<and> \<not> ox_Published x) \<and> (0 \<le> n \<longrightarrow> int (length xs) \<le> n) \<and>
      (\<forall>x \<in> set xs. \<forall>y \<in> set (out d). \<not> ox_Published y \<longrightarrow> y \<notin> set xs \<longrightarrow> ox_CreatedAt x \<le> ox_CreatedAt y)"
    and update_published: "gd_UpdatePublished db is now d = (err, d') \<Longrightarrow>
      list_all2 (marked (set is)) (out d) (out d') \<or> err \<noteq> None \<and> out d' = out d"
    and update_error: "gd_UpdateError db i msg d = (err, d') \<Longrightarrow> list_all2 (marked {}) (out d) (out d')"
    and insert_entry: "gd_CreateIfAbsent db x d = (r, d') \<Longrightarrow>
      out d' = out d \<or>
      ox_EventID x \<notin> ox_EventID ` set (out d) \<and> (\<exists>y. same_entry x y \<and> ox_Published y = ox_Published x \<and> out d' = out d @ [y])"
    and delete_entries: "gd_DeletePublished db cutoff d = (n, err, d') \<Longrightarrow> \<exists>keep. out d' = filter keep (out d)"

text \<open>
  \<open>accepted k\<close> are the messages for which \<open>WriteMessages\<close> reported no error. With an asynchronous writer they are
  queued, no more.
\<close>

locale kafka_log =
  fixes kafka :: "'k kafka_ops" and accepted :: "'k \<Rightarrow> KafkaMessage list"
  assumes accept: "kf_WriteMessages kafka p msg k = (err, k') \<Longrightarrow>
      accepted k' = (if err = None then accepted k @ [msg] else accepted k)"



text \<open>Ticks of the dispatcher, insertions by the position processor, and the clean-up.\<close>

inductive outbox_step :: "'k kafka_ops \<Rightarrow> KafkaConf option \<Rightarrow> 'd OutboxDispatcher \<Rightarrow>
    (writers \<times> 'k) \<times> 'd \<Rightarrow> (writers \<times> 'k) \<times> 'd \<Rightarrow> bool"
  for kafka conf od where
  tick: "dispatchBatch kafka conf now od s = Returns s' \<Longrightarrow> outbox_step kafka conf od s s'"
| entry: "WriteOutboxEntryIfNotExists (od_outboxRepo od) x d = (r, d') \<Longrightarrow> \<not> ox_Published x \<Longrightarrow>
    outbox_step kafka conf od (wk, d) (wk, d')"
| cleanup: "CleanupPublished now days od d = (err, d') \<Longrightarrow> outbox_step kafka conf od (wk, d) (wk, d')"

definition known_type :: "OutboxEntry \<Rightarrow> bool" where
  "known_type x \<longleftrightarrow> ox_EventType x = ''TradeExecuted'' \<or> ox_EventType x = ''PositionUpdated''"

text \<open>Ids are unique, and published entries of a known type are among the accepted messages.\<close>

definition sent_ok :: "OutboxEntry list \<Rightarrow> KafkaMessage list \<Rightarrow> bool" where
  "sent_ok xs msgs \<longleftrightarrow> distinct (map ox_EventID xs) \<and>
     (\<forall>x \<in> set xs. ox_Published x \<longrightarrow> known_type x \<longrightarrow> ox_EventID x \<in> km_Key ` set msgs)"

lemma sent_ok_mono: "sent_ok xs msgs \<Longrightarrow> set msgs \<subseteq> set msgs' \<Longrightarrow> sent_ok xs msgs'"
  unfolding sent_ok_def by blast

lemma sent_ok_marked:
  assumes ok: "sent_ok xs msgs" and mk: "list_all2 (marked is) xs ys"
    and sent: "\<forall>i \<in> is. \<exists>e \<in> set xs. ox_EventID e = i \<and> (known_type e \<longrightarrow> i \<in> km_Key ` set msgs)"
  shows "sent_ok ys msgs"
proof -
  have d: "distinct (map ox_EventID xs)" using ok by (simp add: sent_ok_def)
  have "ox_EventID y \<in> km_Key ` set msgs" if y: "y \<in> set ys" "ox_Published y" "known_type y" for y
  proof -
    obtain x where x: "x \<in> set xs" "marked is x y" using marked_source [OF mk y(1)] by blast
    then have eq: "ox_EventID x = ox_EventID y" "known_type x" using y(3) by (simp_all add: marked_def same_entry_def known_type_def)
    show ?thesis
    proof (cases "ox_Published x")
      case True
      with ok x(1) eq show ?thesis unfolding sent_ok_def by metis
    next
      case False
      with x y(2) eq(1) have "ox_EventID x \<in> is" by (simp add: marked_def)
      then obtain e where "e \<in> set xs" "ox_EventID e = ox_EventID x" "known_type e \<longrightarrow> ox_EventID x \<in> km_Key ` set msgs"
        using sent by blast
      moreover from this have "e = x" using d x(1) by (auto simp: distinct_map dest: inj_onD)
      ultimately show ?thesis using eq by simp
    qed
  qed
  with d marked_ids [OF mk] show ?thesis by (simp add: sent_ok_def)
qed

locale outbox = outbox_rows db out + kafka_log kafka accepted
  for db :: "'d gorm_ops" and out :: "'d \<Rightarrow> OutboxEntry list" and kafka :: "'k kafka_ops" and accepted
begin

lemma publish_accepted:
  assumes "publishEntry kafka conf od x (w, k) = Returns (err, w', k')"
  shows "set (accepted k) \<subseteq> set (accepted k')" "err = None \<Longrightarrow> known_type x \<Longrightarrow> ox_EventID x \<in> km_Key ` set (accepted k')"
proof -
  have "set (accepted k) \<subseteq> set (accepted k') \<and> (err = None \<longrightarrow> known_type x \<longrightarrow> ox_EventID x \<in> km_Key ` set (accepted k'))"
    using assms accept
    by (auto simp: publishEntry_def publishToKafka_def known_type_def Let_def image_iff
        split: option.splits if_splits outcome.splits prod.splits)
  then show "set (accepted k) \<subseteq> set (accepted k')" "err = None \<Longrightarrow> known_type x \<Longrightarrow> ox_EventID x \<in> km_Key ` set (accepted k')"
    by blast+
qed

lemma publish_entries_spec:
  assumes "publish_entries kafka conf od xs ids ((w, k), d) = Returns (ids', (w', k'), d')" "od_outboxRepo od = db"
  shows "list_all2 (marked {}) (out d) (out d') \<and> set (accepted k) \<subseteq> set (accepted k') \<and>
    (\<forall>i \<in> set ids'. i \<in> set ids \<or> (\<exists>x \<in> set xs. ox_EventID x = i \<and> (known_type x \<longrightarrow> i \<in> km_Key ` set (accepted k'))))"
  using assms(1)
proof (induction xs arbitrary: ids w k d)
  case Nil
  then show ?case by (simp add: marked_refl)
next
  case (Cons x xs)
  obtain err w1 k1 where p: "publishEntry kafka conf od x (w, k) = Returns (err, w1, k1)"
    using Cons.prems by (auto split: outcome.splits)
  note acc = publish_accepted [OF p]
  show ?case
  proof (cases err)
    case None
    then have "publish_entries kafka conf od xs (ids @ [ox_EventID x]) ((w1, k1), d) = Returns (ids', (w', k'), d')"
      using Cons.prems p by simp
    from Cons.IH [OF this] acc None show ?thesis by fastforce
  next
    case (Some e)
    let ?d = "snd (RecordPublishError db (ox_EventID x) e d)"
    have "publish_entries kafka conf od xs ids ((w1, k1), ?d) = Returns (ids', (w', k'), d')"
      using Cons.prems p Some assms(2) by simp
    moreover have "list_all2 (marked {}) (out d) (out ?d)"
      using update_error [of "ox_EventID x" e d] by (cases "gd_UpdateError db (ox_EventID x) e d") (simp add: RecordPublishError_def)
    ultimately show ?thesis using Cons.IH [of ids w1 k1 ?d] acc(1) marked_trans by fastforce
  qed
qed

lemma dispatch_sent_ok:
  assumes disp: "dispatchBatch kafka conf now od ((w, k), d) = Returns ((w', k'), d')" and od: "od_outboxRepo od = db"
    and ok: "sent_ok (out d) (accepted k)"
  shows "sent_ok (out d') (accepted k') \<and> set (accepted k) \<subseteq> set (accepted k')"
proof (cases "gd_FindUnpublished db (od_batchSize od) d")
  case (Inl err)
  with disp od ok show ?thesis by (simp add: dispatchBatch_def GetUnpublished_def)
next
  case (Inr xs)
  show ?thesis
  proof (cases "xs = []")
    case True
    with disp od ok Inr show ?thesis by (simp add: dispatchBatch_def GetUnpublished_def)
  next
    case False
    then obtain ids d1 where p: "publish_entries kafka conf od xs [] ((w, k), d) = Returns (ids, (w', k'), d1)"
      and d': "d' = (if ids = [] then d1 else snd (gd_UpdatePublished db ids now d1))"
      using disp od Inr by (auto simp: dispatchBatch_def GetUnpublished_def MarkPublishedBatch_def split: outcome.splits if_splits)
    note spec = publish_entries_spec [OF p od]
    have ok1: "sent_ok (out d) (accepted k')" using sent_ok_mono [OF ok] spec by simp
    have "list_all2 (marked (set ids)) (out d) (out d') \<or> list_all2 (marked {}) (out d) (out d')"
      using spec update_published [of ids now d1] marked_trans d'
      by (cases "gd_UpdatePublished db ids now d1") (auto simp: d')
    then show ?thesis
    proof
      assume "list_all2 (marked (set ids)) (out d) (out d')"
      then have "sent_ok (out d') (accepted k')"
        by (rule sent_ok_marked [OF ok1]) (use spec find_unpublished [OF Inr] in fastforce)
      with spec show ?thesis by simp
    next
      assume "list_all2 (marked {}) (out d) (out d')"
      from sent_ok_marked [OF ok1 this] spec show ?thesis by simp
    qed
  qed
qed

lemma step_sent_ok:
  assumes "outbox_step kafka conf od s s'" and od: "od_outboxRepo od = db"
    and ok: "sent_ok (out (snd s)) (accepted (snd (fst s)))"
  shows "sent_ok (out (snd s')) (accepted (snd (fst s')))"
  using assms(1)
proof cases
  case (tick now)
  with dispatch_sent_ok [of conf now od "fst (fst s)" "snd (fst s)" "snd s"] od ok show ?thesis
    by (metis prod.collapse)
next
  case (entry x d r d' wk)
  obtain r' where "gd_CreateIfAbsent db x d = (r', d')"
    using entry(3) od by (auto simp: WriteOutboxEntryIfNotExists_def split: prod.splits sum.splits)
  from insert_entry [OF this] ok entry show ?thesis
    by (auto simp: sent_ok_def same_entry_def)
next
  case (cleanup now days d err d' wk)
  obtain n where "gd_DeletePublished db (now - days * (24 * 60 * 60 * 10 ^ 9)) d = (n, err, d')"
    using cleanup(3) od by (auto simp: CleanupPublished_def CleanPublished_def split: prod.splits)
  from delete_entries [OF this] ok cleanup show ?thesis by (auto simp: sent_ok_def distinct_map_filter)
qed

lemma steps_sent_ok:
  "(outbox_step kafka conf od)\<^sup>*\<^sup>* s s' \<Longrightarrow> od_outboxRepo od = db \<Longrightarrow> sent_ok (out (snd s)) (accepted (snd (fst s))) \<Longrightarrow>
   sent_ok (out (snd s')) (accepted (snd (fst s')))"
  by (induction rule: rtranclp_induct) (auto intro: step_sent_ok)

end

section \<open>Asynchronous writers\<close>



section \<open>Clean-up and the ids of booked trades\<close>

text \<open>
  The ids that the position processor looks for are those of the outbox table. Marking sets the time of
  publication, and the clean-up deletes what was published before the cutoff; neither touches positions.
\<close>

definition expired :: "int \<Rightarrow> OutboxEntry \<Rightarrow> bool" where
  "expired cutoff x \<longleftrightarrow> ox_Published x \<and> (case ox_PublishedAt x of None \<Rightarrow> False | Some t \<Rightarrow> t < cutoff)"

locale cleaned_outbox = outbox_store db rows ids + outbox_rows db out
  for db :: "'d gorm_ops" and rows :: "'d \<Rightarrow> string \<times> string \<rightharpoonup> Position" and ids :: "'d \<Rightarrow> string set"
    and out :: "'d \<Rightarrow> OutboxEntry list" +
  assumes ids_out: "ids d = ox_EventID ` set (out d)"
    and published_at: "gd_UpdatePublished db is now d = (None, d') \<Longrightarrow>
      rows d' = rows d \<and> (\<forall>y \<in> set (out d'). ox_EventID y \<in> set is \<longrightarrow> ox_PublishedAt y = Some now)"
    and deleted: "gd_DeletePublished db cutoff d = (n, None, d') \<Longrightarrow>
      rows d' = rows d \<and> out d' = filter (\<lambda>x. \<not> expired cutoff x) (out d)"
begin

lemma cleaned_id:
  assumes "MarkPublishedBatch db t is d = (None, d1)" "i \<in> set is"
    and "CleanPublished db now days d1 = (n, None, d2)" "t + days * (24 * 60 * 60 * 10 ^ 9) < now"
  shows "i \<notin> ids d2" "rows d2 = rows d"
proof -
  note u = assms(1) [unfolded MarkPublishedBatch_def] and c = deleted [OF assms(3) [unfolded CleanPublished_def]]
  have "expired (now - days * (24 * 60 * 60 * 10 ^ 9)) y" if y: "y \<in> set (out d1)" "ox_EventID y = i" for y
  proof -
    have "list_all2 (marked (set is)) (out d) (out d1)" using update_published [OF u] by simp
    from marked_source [OF this y(1)] y(2) assms(2) have "ox_Published y" by (auto simp: marked_def same_entry_def)
    moreover have "ox_PublishedAt y = Some t" using published_at [OF u] y assms(2) by auto
    ultimately show ?thesis using assms(4) by (simp add: expired_def)
  qed
  then show "i \<notin> ids d2" using c by (auto simp: ids_out)
  show "rows d2 = rows d" using c published_at [OF u] by simp
qed

end

section \<open>A head of the queue that cannot be sent\<close>

fun ticks :: "'k kafka_ops \<Rightarrow> KafkaConf option \<Rightarrow> 'd OutboxDispatcher \<Rightarrow> int list \<Rightarrow> (writers \<times> 'k) \<times> 'd \<Rightarrow> ((writers \<times> 'k) \<times> 'd) outcome" where
  "ticks kafka conf od [] s = Returns s"
| "ticks kafka conf od (now # nows) s =
     (case dispatchBatch kafka conf now od s of Panics \<Rightarrow> Panics | Returns s' \<Rightarrow> ticks kafka conf od nows s')"

text \<open>The entries with ids in \<open>S\<close> fill a batch, are older than the others, and are of a known type.\<close>

definition blocked :: "string set \<Rightarrow> int \<Rightarrow> OutboxEntry list \<Rightarrow> bool" where
  "blocked S n xs \<longleftrightarrow> distinct (map ox_EventID xs) \<and>
     n \<le> int (length (filter (\<lambda>x. \<not> ox_Published x \<and> ox_EventID x \<in> S) xs)) \<and>
     (\<forall>x \<in> set xs. ox_EventID x \<in> S \<longrightarrow> known_type x) \<and>
     (\<forall>x \<in> set xs. \<forall>y \<in> set xs. \<not> ox_Published x \<longrightarrow> \<not> ox_Published y \<longrightarrow> ox_EventID x \<in> S \<longrightarrow> ox_EventID y \<notin> S \<longrightarrow>
        ox_CreatedAt x < ox_CreatedAt y)"

lemma blocked_marked:
  assumes b: "blocked S n xs" and mk: "list_all2 (marked {}) xs ys"
  shows "blocked S n ys"
proof -
  have src: "\<exists>x \<in> set xs. ox_EventID x = ox_EventID y \<and> ox_Published x = ox_Published y \<and>
      ox_CreatedAt x = ox_CreatedAt y \<and> known_type x = known_type y" if "y \<in> set ys" for y
    using marked_source [OF mk that] by (auto simp: marked_def same_entry_def known_type_def)
  have "length (filter (\<lambda>x. \<not> ox_Published x \<and> ox_EventID x \<in> S) ys) = length (filter (\<lambda>x. \<not> ox_Published x \<and> ox_EventID x \<in> S) xs)"
    using mk by (induction rule: list_all2_induct) (auto simp: marked_def same_entry_def)
  moreover have "known_type y" if "y \<in> set ys" "ox_EventID y \<in> S" for y
    using src [OF that(1)] that(2) b unfolding blocked_def by force
  moreover have "ox_CreatedAt y < ox_CreatedAt z"
    if yz: "y \<in> set ys" "z \<in> set ys" "\<not> ox_Published y" "\<not> ox_Published z" "ox_EventID y \<in> S" "ox_EventID z \<notin> S" for y z
  proof -
    obtain x u where "x \<in> set xs" "ox_EventID x = ox_EventID y" "ox_Published x = ox_Published y" "ox_CreatedAt x = ox_CreatedAt y"
      "u \<in> set xs" "ox_EventID u = ox_EventID z" "ox_Published u = ox_Published z" "ox_CreatedAt u = ox_CreatedAt z"
      using src [OF yz(1)] src [OF yz(2)] by blast
    with yz b show ?thesis unfolding blocked_def by force
  qed
  ultimately show ?thesis
    using b unfolding blocked_def marked_ids [OF mk] by simp
qed

text \<open>A batch of the oldest entries then lies in \<open>S\<close>.\<close>

lemma blocked_batch:
  assumes b: "blocked S n xs" and n: "0 \<le> n" "int (length es) \<le> n"
    and es: "\<forall>e \<in> set es. e \<in> set xs \<and> \<not> ox_Published e"
    and oldest: "\<forall>e \<in> set es. \<forall>y \<in> set xs. \<not> ox_Published y \<longrightarrow> y \<notin> set es \<longrightarrow> ox_CreatedAt e \<le> ox_CreatedAt y"
    and e: "e \<in> set es"
  shows "ox_EventID e \<in> S"
proof (rule ccontr)
  assume out: "ox_EventID e \<notin> S"
  let ?F = "filter (\<lambda>x. \<not> ox_Published x \<and> ox_EventID x \<in> S) xs"
  have "x \<in> set es" if "x \<in> set ?F" for x
  proof (rule ccontr)
    assume "x \<notin> set es"
    moreover have x: "x \<in> set xs" "\<not> ox_Published x" "ox_EventID x \<in> S" using that by simp_all
    ultimately have "ox_CreatedAt e \<le> ox_CreatedAt x" using oldest e by blast
    moreover have "ox_CreatedAt x < ox_CreatedAt e" using b x es e out unfolding blocked_def by blast
    ultimately show False by simp
  qed
  then have "insert e (set ?F) \<subseteq> set es" using e by blast
  moreover have "distinct ?F" using b by (simp add: blocked_def distinct_map)
  then have "card (set ?F) = length ?F" by (rule distinct_card)
  moreover have "e \<notin> set ?F" using out by simp
  ultimately have "card (insert e (set ?F)) = Suc (length ?F)" "insert e (set ?F) \<subseteq> set es" by simp_all
  from card_mono [OF _ this(2)] this(1) card_length [of es] have "Suc (length ?F) \<le> length es" by simp
  with b n show False by (simp add: blocked_def)
qed

context outbox
begin

lemma refused_batch:
  assumes refuse: "\<forall>p msg k. km_Key msg \<in> S \<longrightarrow> fst (kf_WriteMessages kafka p msg k) \<noteq> None"
    and "\<forall>x \<in> set xs. known_type x \<and> ox_EventID x \<in> S"
    and "publish_entries kafka conf od xs ids wkd = Returns (ids', wkd')"
  shows "ids' = ids"
  using assms(2,3)
proof (induction xs arbitrary: wkd)
  case (Cons x xs)
  obtain wk d where wkd: "wkd = (wk, d)" by (cases wkd)
  obtain err wk1 where p: "publishEntry kafka conf od x wk = Returns (err, wk1)"
    using Cons.prems(2) wkd by (auto split: outcome.splits)
  have taken: "km_Key msg \<notin> S" if "kf_WriteMessages kafka q msg k = (None, k')" for q msg k k'
    using refuse that by (metis fst_conv)
  have "err \<noteq> None"
    using p Cons.prems(1)
    by (auto simp: publishEntry_def publishToKafka_def known_type_def Let_def dest!: taken
        split: option.splits outcome.splits prod.splits)
  then obtain e where "publish_entries kafka conf od xs ids (wk1, snd (RecordPublishError (od_outboxRepo od) (ox_EventID x) e d)) = Returns (ids', wkd')"
    using Cons.prems(2) wkd p by auto
  then show ?case using Cons.IH Cons.prems(1) by simp
qed simp

lemma blocked_tick:
  assumes refuse: "\<forall>p msg k. km_Key msg \<in> S \<longrightarrow> fst (kf_WriteMessages kafka p msg k) \<noteq> None"
    and od: "od_outboxRepo od = db" and n: "0 \<le> od_batchSize od"
    and b: "blocked S (od_batchSize od) (out d)"
    and disp: "dispatchBatch kafka conf now od ((w, k), d) = Returns ((w', k'), d')"
  shows "list_all2 (marked {}) (out d) (out d')"
proof (cases "gd_FindUnpublished db (od_batchSize od) d")
  case (Inl err)
  with disp od show ?thesis by (simp add: dispatchBatch_def GetUnpublished_def marked_refl)
next
  case (Inr xs)
  show ?thesis
  proof (cases "xs = []")
    case True
    with disp od Inr show ?thesis by (simp add: dispatchBatch_def GetUnpublished_def marked_refl)
  next
    case False
    then obtain ids d1 where p: "publish_entries kafka conf od xs [] ((w, k), d) = Returns (ids, (w', k'), d1)"
      and d': "d' = (if ids = [] then d1 else snd (gd_UpdatePublished db ids now d1))"
      using disp od Inr by (auto simp: dispatchBatch_def GetUnpublished_def MarkPublishedBatch_def split: outcome.splits if_splits)
    have "\<forall>x \<in> set xs. known_type x \<and> ox_EventID x \<in> S"
      using blocked_batch [OF b n, of xs] find_unpublished [OF Inr] b n unfolding blocked_def by blast
    then have "ids = []" using refused_batch [OF refuse _ p] by blast
    with d' publish_entries_spec [OF p od] show ?thesis by simp
  qed
qed

lemma blocked_ticks:
  assumes refuse: "\<forall>p msg k. km_Key msg \<in> S \<longrightarrow> fst (kf_WriteMessages kafka p msg k) \<noteq> None"
    and od: "od_outboxRepo od = db" and n: "0 \<le> od_batchSize od"
  shows "blocked S (od_batchSize od) (out d) \<Longrightarrow> ticks kafka conf od nows ((w, k), d) = Returns ((w', k'), d') \<Longrightarrow>
    list_all2 (marked {}) (out d) (out d')"
proof (induction nows arbitrary: w k d)
  case Nil
  then show ?case by (simp add: marked_refl)
next
  case (Cons now nows)
  obtain w1 k1 d1 where t: "dispatchBatch kafka conf now od ((w, k), d) = Returns ((w1, k1), d1)"
    using Cons.prems(2) by (auto split: outcome.splits)
  note mk = blocked_tick [OF refuse od n Cons.prems(1) t]
  have "ticks kafka conf od nows ((w1, k1), d1) = Returns ((w', k'), d')" using Cons.prems(2) t by simp
  from marked_trans [OF mk Cons.IH [OF blocked_marked [OF Cons.prems(1) mk] this]] show ?case .
qed

end

section \<open>A broker in memory\<close>

text \<open>It refuses the messages with certain keys, as a broker does that are too large.\<close>

definition memory_kafka :: "string list \<Rightarrow> (KafkaMessage list) kafka_ops" where
  "memory_kafka refused =
     \<lparr>kf_WriteMessages = (\<lambda>p msg k. if km_Key msg \<in> set refused then (Some ''message too large'', k) else (None, k @ [msg]))\<rparr>"

lemma sorted_take_oldest:
  assumes "x \<in> set (take n (sort_key f xs))" "y \<in> set xs" "y \<notin> set (take n (sort_key f xs))"
  shows "f x \<le> f y"
proof -
  have "y \<in> set (drop n (sort_key f xs))"
    using assms(2,3) append_take_drop_id [of n "sort_key f xs"] by (metis Un_iff set_append set_sort)
  moreover have "sorted (map f (take n (sort_key f xs)) @ map f (drop n (sort_key f xs)))"
    by (simp flip: map_append)
  ultimately show ?thesis using assms(1) by (auto simp: sorted_append simp del: append_take_drop_id)
qed

interpretation mem_dispatch: outbox memory_gorm md_outbox "memory_kafka refused" "\<lambda>k. k" for refused
proof unfold_locales
  fix n d xs assume "gd_FindUnpublished memory_gorm n d = Inr xs"
  then have xs: "xs = mem_limit n (sort_key ox_CreatedAt (filter (\<lambda>x. \<not> ox_Published x) (md_outbox d)))"
    by (simp add: memory_gorm_def)
  have "ox_CreatedAt x \<le> ox_CreatedAt y"
    if "x \<in> set xs" "y \<in> set (md_outbox d)" "\<not> ox_Published y" "y \<notin> set xs" for x y
    using that sorted_take_oldest [of x "nat n" ox_CreatedAt "filter (\<lambda>x. \<not> ox_Published x) (md_outbox d)" y]
    by (auto simp: xs mem_limit_def split: if_splits)
  moreover have "x \<in> set (md_outbox d) \<and> \<not> ox_Published x" if "x \<in> set xs" for x
    using that by (auto simp: xs mem_limit_def dest: in_set_takeD split: if_splits)
  moreover have "0 \<le> n \<longrightarrow> int (length xs) \<le> n" by (auto simp: xs mem_limit_def)
  ultimately show "(\<forall>x \<in> set xs. x \<in> set (md_outbox d) \<and> \<not> ox_Published x) \<and> (0 \<le> n \<longrightarrow> int (length xs) \<le> n) \<and>
      (\<forall>x \<in> set xs. \<forall>y \<in> set (md_outbox d). \<not> ox_Published y \<longrightarrow> y \<notin> set xs \<longrightarrow> ox_CreatedAt x \<le> ox_CreatedAt y)"
    by blast
qed (auto simp: memory_gorm_def memory_kafka_def marked_def same_entry_def mem_ids_def list_all2_map2 list.rel_refl Let_def
      split: if_splits)




interpretation mem_cleaned: cleaned_outbox memory_gorm "map_of \<circ> md_rows" mem_ids md_outbox
  by unfold_locales (auto simp: memory_gorm_def mem_ids_def expired_def Let_def)

section \<open>Properties\<close>

text \<open>
  C23. No event is marked as published before it was handed to a writer. Starting with an outbox in which
  nothing is published, after any sequence of dispatcher ticks, insertions and clean-ups, whatever the database
  and the writers answer, every published entry of a known type has a message with its id as key among
  those for which \<open>WriteMessages\<close> reported no error. The program's writers are asynchronous, so such a message
  is queued; that it reached the broker does not follow.
\<close>

theorem outbox_published_was_sent:
  assumes contract: "outbox db out kafka accepted" "od_outboxRepo od = db"
    and start: "distinct (map ox_EventID (out d))" "\<forall>x \<in> set (out d). \<not> ox_Published x"
    and run: "(outbox_step kafka conf od)\<^sup>*\<^sup>* ((w, k), d) ((w', k'), d')"
  shows "\<forall>x \<in> set (out d'). ox_Published x \<longrightarrow> known_type x \<longrightarrow> ox_EventID x \<in> km_Key ` set (accepted k')"
  using outbox.steps_sent_ok [OF contract(1) run contract(2)] start by (simp add: sent_ok_def)


text \<open>
  C25. Cleaning the outbox forgets trades. The position processor books a trade, the dispatcher marks its entry
  as published, and \<open>CleanPublished\<close> runs more than the retention time later. Then the trade's id is gone, and
  when the trade is delivered again the processor either fails and changes nothing or books it a second time; it
  never recognises it.
\<close>

theorem cleaned_trade_booked_again:
  assumes contract: "cleaned_outbox db rows ids out"
    and first: "PositionProcessor_ProcessEvent t1 (TradeExecuted e) (wired_processor db) d = (None, pp, d1)" "te_TradeID e \<notin> ids d"
    and mark: "MarkPublishedBatch db t is d1 = (None, d2)" "te_TradeID e \<in> set is"
    and clean: "CleanPublished db now retentionDays d2 = (n, None, d3)" "t + retentionDays * (24 * 60 * 60 * 10 ^ 9) < now"
    and again: "PositionProcessor_ProcessEvent t2 (TradeExecuted e) (wired_processor db) d3 = (err, pp', d4)"
  shows "te_TradeID e \<notin> ids d3 \<and> (err \<noteq> None \<and> d4 = d3 \<or>
     Option.bind (apply_trade e (holdings_of (rows d))) (apply_trade e) = Some (holdings_of (rows d4)))"
proof -
  have store: "outbox_store db rows ids" using contract by (simp add: cleaned_outbox_def)
  note c = cleaned_outbox.cleaned_id [OF contract mark clean]
  have once: "err' \<noteq> None \<and> x' = x \<or> apply_trade e (holdings_of (rows x)) = Some (holdings_of (rows x'))"
    if "PositionProcessor_ProcessEvent t' (TradeExecuted e) (wired_processor db) x = (err', q, x')" "te_TradeID e \<notin> ids x"
    for t' x err' q x'
    using that(1)
    by (cases rule: outbox_store.process_event_cases [OF store, consumes 1])
      (use outbox_store.trade_transaction_done(3) [OF store] that(2) in auto)
  show ?thesis using once [OF first] once [OF again c(1)] c by auto
qed

text \<open>
  C26. Entries that cannot be sent block the outbox. If the broker refuses the entries of a set that
  fills a batch and is older than all others, then no tick of the dispatcher ever publishes another
  entry: what is published stays exactly as it was. The number of retries the dispatcher is made with
  plays no part.
\<close>

theorem outbox_head_blocks:
  assumes contract: "outbox db out kafka accepted" "od_outboxRepo od = db"
    and refuse: "\<forall>p msg k. km_Key msg \<in> S \<longrightarrow> fst (kf_WriteMessages kafka p msg k) \<noteq> None"
    and head: "0 \<le> od_batchSize od" "blocked S (od_batchSize od) (out d)"
    and run: "ticks kafka conf od nows ((w, k), d) = Returns ((w', k'), d')"
  shows "map (\<lambda>x. (ox_EventID x, ox_Published x)) (out d') = map (\<lambda>x. (ox_EventID x, ox_Published x)) (out d)"
proof -
  have "map (\<lambda>x. (ox_EventID x, ox_Published x)) ys = map (\<lambda>x. (ox_EventID x, ox_Published x)) xs"
    if "list_all2 (marked {}) xs ys" for xs ys
    using that by (induction rule: list_all2_induct) (auto simp: marked_def same_entry_def)
  from this [OF outbox.blocked_ticks [OF contract(1) refuse contract(2) head run]] show ?thesis .
qed

text \<open>Two entries, a dispatcher with batches of one, and a broker that refuses the first entry or none.\<close>

definition demo_entry :: "string \<Rightarrow> int \<Rightarrow> OutboxEntry" where
  "demo_entry eventID created =
     \<lparr>ox_ID = 0, ox_EventID = eventID, ox_EventType = ''TradeExecuted'', ox_AggregateID = ''BTC'', ox_AggregateType = ''OrderBook'',
      ox_Payload = JNull, ox_Published = False, ox_PublishedAt = None, ox_CreatedAt = created, ox_UpdatedAt = created,
      ox_RetryCount = 0, ox_LastError = []\<rparr>"

definition demo_outbox :: mem_db where
  "demo_outbox = \<lparr>md_rows = [], md_outbox = [demo_entry ''T1'' 1, demo_entry ''T2'' 2], md_processed = []\<rparr>"

definition demo_conf :: "KafkaConf option" where
  "demo_conf = Some \<lparr>kc_Brokers = [''broker:9092''], kc_Topics = [(''trade'', ''trades'')]\<rparr>"

definition demo_ticks :: "string list \<Rightarrow> int list \<Rightarrow> ((writers \<times> KafkaMessage list) \<times> mem_db) outcome" where
  "demo_ticks refused nows = ticks (memory_kafka refused) demo_conf (NewOutboxDispatcher memory_gorm 1 3) nows ((Map.empty, []), demo_outbox)"

definition demo_published :: "string list \<Rightarrow> int list \<Rightarrow> (string \<times> bool) list option" where
  "demo_published refused nows =
     (case demo_ticks refused nows of Panics \<Rightarrow> None | Returns (wk, d) \<Rightarrow> Some (map (\<lambda>x. (ox_EventID x, ox_Published x)) (md_outbox d)))"

lemma demo_sent: "demo_published [] [10] = Some [(''T1'', True), (''T2'', False)]"
  by code_simp

lemma demo_stuck: "demo_published [''T1''] [10, 20] = Some [(''T1'', False), (''T2'', False)]"
  by code_simp

lemma demo_publishedE:
  assumes "demo_published refused nows = Some ps"
  obtains w k d where "demo_ticks refused nows = Returns ((w, k), d)" "ps = map (\<lambda>x. (ox_EventID x, ox_Published x)) (md_outbox d)"
  using assms by (auto simp: demo_published_def split: outcome.splits)

theorem outbox_published_was_sent_witness:
  "\<exists>w k d. demo_ticks [] [10] = Returns ((w, k), d) \<and> map (\<lambda>x. (ox_EventID x, ox_Published x)) (md_outbox d) = [(''T1'', True), (''T2'', False)] \<and>
     (\<forall>x \<in> set (md_outbox d). ox_Published x \<longrightarrow> known_type x \<longrightarrow> ox_EventID x \<in> km_Key ` set k)"
proof -
  obtain w k d where r: "demo_ticks [] [10] = Returns ((w, k), d)"
    "[(''T1'', True), (''T2'', False)] = map (\<lambda>x. (ox_EventID x, ox_Published x)) (md_outbox d)"
    using demo_publishedE [OF demo_sent] .
  let ?od = "NewOutboxDispatcher memory_gorm 1 3"
  have od: "od_outboxRepo ?od = memory_gorm" by (simp add: NewOutboxDispatcher_def)
  have start: "distinct (map ox_EventID (md_outbox demo_outbox))" "\<forall>x \<in> set (md_outbox demo_outbox). \<not> ox_Published x"
    by (simp_all add: demo_outbox_def demo_entry_def)
  have "dispatchBatch (memory_kafka []) demo_conf 10 ?od ((Map.empty, []), demo_outbox) = Returns ((w, k), d)"
    using r(1) by (simp add: demo_ticks_def split: outcome.splits)
  then have "(outbox_step (memory_kafka []) demo_conf ?od)\<^sup>*\<^sup>* ((Map.empty, []), demo_outbox) ((w, k), d)"
    by (intro r_into_rtranclp tick)
  from outbox_published_was_sent [OF mem_dispatch.outbox_axioms od start this] r show ?thesis by auto
qed



text \<open>The entry is published, and eight days later cleaned with a retention of seven.\<close>

definition demo_cleaned :: mem_db where
  "demo_cleaned = demo_booked\<lparr>md_outbox := []\<rparr>"

lemma demo_cleaning:
  "MarkPublishedBatch memory_gorm 3 [''T1''] demo_booked = (None, snd (MarkPublishedBatch memory_gorm 3 [''T1''] demo_booked))"
  "CleanPublished memory_gorm (8 * (24 * 60 * 60 * 10 ^ 9)) 7 (snd (MarkPublishedBatch memory_gorm 3 [''T1''] demo_booked)) = (1, None, demo_cleaned)"
  by (simp_all add: demo_cleaned_def CleanPublished_def MarkPublishedBatch_def memory_gorm_def demo_booked_def
      outbox_entry_def demo_trade_def)

theorem cleaned_trade_booked_again_witness:
  "fst (demo_deliver demo_cleaned) = None \<and>
   Option.bind (apply_trade demo_trade (holdings_of (map_of (md_rows demo_db)))) (apply_trade demo_trade) =
   Some (holdings_of (map_of (md_rows (snd (snd (demo_deliver demo_cleaned))))))"
proof -
  have none: "fst (demo_deliver demo_cleaned) = None" by code_simp
  then have d3: "demo_deliver demo_cleaned = (None, wired_processor memory_gorm, snd (snd (demo_deliver demo_cleaned)))"
    using demo_deliver_state [of demo_cleaned] by (simp add: prod_eq_iff)
  have ids: "te_TradeID demo_trade \<notin> mem_ids demo_db" "te_TradeID demo_trade \<in> set [''T1'']"
    "3 + 7 * (24 * 60 * 60 * 10 ^ 9) < (8 * (24 * 60 * 60 * 10 ^ 9) :: int)"
    by (simp_all add: mem_ids_def demo_db_def demo_trade_def)
  from cleaned_trade_booked_again [OF mem_cleaned.cleaned_outbox_axioms demo_deliveries(1) [unfolded demo_deliver_def]
    ids(1) demo_cleaning(1) ids(2) demo_cleaning(2) ids(3) d3 [unfolded demo_deliver_def]]
  show ?thesis using none by (simp add: demo_deliver_def)
qed

theorem outbox_head_blocks_witness:
  "\<exists>w k d. demo_ticks [''T1''] [10, 20] = Returns ((w, k), d) \<and>
     map (\<lambda>x. (ox_EventID x, ox_Published x)) (md_outbox d) = [(''T1'', False), (''T2'', False)]"
proof -
  obtain w k d where r: "demo_ticks [''T1''] [10, 20] = Returns ((w, k), d)" using demo_publishedE [OF demo_stuck] .
  let ?od = "NewOutboxDispatcher memory_gorm 1 3"
  have od: "od_outboxRepo ?od = memory_gorm" "0 \<le> od_batchSize ?od" by (simp_all add: NewOutboxDispatcher_def)
  have refuse: "\<forall>p msg k. km_Key msg \<in> {''T1''} \<longrightarrow> fst (kf_WriteMessages (memory_kafka [''T1'']) p msg k) \<noteq> None"
    by (simp add: memory_kafka_def)
  have "blocked {''T1''} (od_batchSize ?od) (md_outbox demo_outbox)"
    by (simp add: blocked_def NewOutboxDispatcher_def demo_outbox_def demo_entry_def known_type_def)
  from outbox_head_blocks [OF mem_dispatch.outbox_axioms od(1) refuse od(2) this r [unfolded demo_ticks_def]]
  show ?thesis using r by (simp add: demo_outbox_def demo_entry_def)
qed

end
