(* ===== verification/PostgresLog.thy ===== *)
theory PostgresLog
  imports EventLog Sequencer "HOL-Library.Multiset"
begin

text \<open>
  \<^verbatim>\<open>src/biz/dal/pg/event_store_postgres.go\<close> and \<^verbatim>\<open>src/biz/service/event_log_postgres.go\<close>: the table of
  events and the event log on top of it that the program runs with. The queries made through the ORM
  are the fields of \<open>event_db\<close>, over a database state \<open>'d\<close>; the locale \<open>event_table\<close> says what they do to the
  rows. The column \<open>payload\<close> holds JSON text, which is a document tree here as everywhere.
\<close>

section \<open>The table\<close>

record PersistentEvent =
  pe_ID :: int
  pe_GlobalSeq :: int
  pe_EventType :: string
  pe_AggregateID :: string
  pe_AggregateType :: string
  pe_Symbol :: string
  pe_Payload :: "json option"
  pe_EventTimestamp :: int
  pe_CreatedAt :: int
  pe_Version :: int

datatype event_order = by_global_seq | by_created_at_desc

text \<open>
  \<open>ed_Find P order limit\<close> lists the rows that satisfy \<open>P\<close>; \<open>ed_MaxSeq\<close> is
  \<^verbatim>\<open>COALESCE(MAX(global_seq), 0)\<close>; \<open>ed_Duplicates\<close> is \<^verbatim>\<open>COUNT(*) - COUNT(DISTINCT global_seq)\<close>, with the
  value it leaves in the variable beside an error.
\<close>

record 'd event_db =
  ed_Create :: "PersistentEvent \<Rightarrow> 'd \<Rightarrow> go_error option \<times> 'd"
  ed_Transaction :: "('d \<Rightarrow> go_error option \<times> 'd) \<Rightarrow> 'd \<Rightarrow> go_error option \<times> 'd"
  ed_Find :: "(PersistentEvent \<Rightarrow> bool) \<Rightarrow> event_order \<Rightarrow> int option \<Rightarrow> 'd \<Rightarrow> go_error + PersistentEvent list"
  ed_MaxSeq :: "'d \<Rightarrow> go_error + int"
  ed_Count :: "(PersistentEvent \<Rightarrow> bool) \<Rightarrow> 'd \<Rightarrow> go_error + int"
  ed_Delete :: "(PersistentEvent \<Rightarrow> bool) \<Rightarrow> 'd \<Rightarrow> (go_error + int) \<times> 'd"
  ed_Duplicates :: "'d \<Rightarrow> go_error option \<times> int"

definition WriteEvent :: "'d event_db \<Rightarrow> PersistentEvent \<Rightarrow> 'd \<Rightarrow> go_error option \<times> 'd" where
  "WriteEvent db event d = ed_Create db event d"

fun create_all :: "'d event_db \<Rightarrow> PersistentEvent list \<Rightarrow> 'd \<Rightarrow> go_error option \<times> 'd" where
  "create_all db [] d = (None, d)"
| "create_all db (event # events) d =
     (case ed_Create db event d of
        (Some err, d') \<Rightarrow> (Some err, d')
      | (None, d') \<Rightarrow> create_all db events d')"

definition WriteEventsBatch :: "'d event_db \<Rightarrow> PersistentEvent list \<Rightarrow> 'd \<Rightarrow> go_error option \<times> 'd" where
  "WriteEventsBatch db events d =
     (if events = [] then (None, d) else ed_Transaction db (create_all db events) d)"

definition GetAggregateEvents :: "'d event_db \<Rightarrow> string \<Rightarrow> string \<Rightarrow> 'd \<Rightarrow> go_error + PersistentEvent list" where
  "GetAggregateEvents db aggregateType aggregateID d =
     ed_Find db (\<lambda>e. pe_AggregateType e = aggregateType \<and> pe_AggregateID e = aggregateID) by_global_seq None d"

definition GetSymbolEvents :: "'d event_db \<Rightarrow> string \<Rightarrow> int \<Rightarrow> int \<Rightarrow> 'd \<Rightarrow> go_error + PersistentEvent list" where
  "GetSymbolEvents db symbol startSeq endSeq d =
     ed_Find db (\<lambda>e. pe_Symbol e = symbol \<and> pe_GlobalSeq e \<ge> startSeq \<and> pe_GlobalSeq e \<le> endSeq) by_global_seq None d"

definition GetGlobalEventStream :: "'d event_db \<Rightarrow> int \<Rightarrow> int \<Rightarrow> 'd \<Rightarrow> go_error + PersistentEvent list" where
  "GetGlobalEventStream db startSeq limit d =
     (let limit = (if limit \<le> 0 then 1000 else limit)
      in ed_Find db (\<lambda>e. pe_GlobalSeq e \<ge> startSeq) by_global_seq (Some limit) d)"

definition GetLatestGlobalSeq :: "'d event_db \<Rightarrow> 'd \<Rightarrow> go_error + int" where
  "GetLatestGlobalSeq db d = ed_MaxSeq db d"

definition CountEvents :: "'d event_db \<Rightarrow> string \<Rightarrow> string \<Rightarrow> 'd \<Rightarrow> go_error + int" where
  "CountEvents db aggregateType aggregateID d =
     ed_Count db (\<lambda>e. pe_AggregateType e = aggregateType \<and> pe_AggregateID e = aggregateID) d"

definition ArchiveEventsBefore :: "'d event_db \<Rightarrow> int \<Rightarrow> 'd \<Rightarrow> (go_error + int) \<times> 'd" where
  "ArchiveEventsBefore db timestamp d = ed_Delete db (\<lambda>e. pe_CreatedAt e < timestamp) d"

definition GetEventsByType :: "'d event_db \<Rightarrow> string \<Rightarrow> int \<Rightarrow> 'd \<Rightarrow> go_error + PersistentEvent list" where
  "GetEventsByType db eventType limit d =
     (let limit = (if limit \<le> 0 then 100 else limit)
      in ed_Find db (\<lambda>e. pe_EventType e = eventType) by_created_at_desc (Some limit) d)"

definition GetUnprocessedEvents :: "'d event_db \<Rightarrow> int \<Rightarrow> int \<Rightarrow> 'd \<Rightarrow> go_error + PersistentEvent list" where
  "GetUnprocessedEvents db lastProcessedSeq limit d =
     (let limit = (if limit \<le> 0 then 100 else limit)
      in ed_Find db (\<lambda>e. pe_GlobalSeq e > lastProcessedSeq) by_global_seq (Some limit) d)"

definition ValidateEventIntegrity :: "'d event_db \<Rightarrow> 'd \<Rightarrow> go_error option" where
  "ValidateEventIntegrity db d =
     (case ed_Duplicates db d of (err, duplicates) \<Rightarrow>
        if err \<noteq> None \<or> duplicates > 0 then err else None)"

section \<open>The event log\<close>

record 'd PostgresEventLog =
  pl_eventStore :: 'd
  pl_sequencer :: Sequencer
  pl_localSeqMap :: "string \<rightharpoonup> int"

definition NewPostgresEventLog :: "'d \<Rightarrow> Sequencer \<Rightarrow> 'd PostgresEventLog" where
  "NewPostgresEventLog eventStore sequencer =
     \<lparr>pl_eventStore = eventStore, pl_sequencer = sequencer, pl_localSeqMap = Map.empty\<rparr>"

text \<open>\<^verbatim>\<open>int64(x)\<close> and \<^verbatim>\<open>uint64(x)\<close>.\<close>

definition to_int64 :: "u64 \<Rightarrow> int" where
  "to_int64 w = i64 (uint w)"

definition to_uint64 :: "int \<Rightarrow> u64" where
  "to_uint64 i = word_of_int i"

text \<open>\<^verbatim>\<open>json.Marshal\<close> of an envelope; a payload that is no JSON is an error.\<close>

definition envelope_json :: "EventEnvelope \<Rightarrow> json option" where
  "envelope_json env =
     (case ee_Payload env of
        None \<Rightarrow> None
      | Some payload \<Rightarrow> Some (JObj
          [(''seq'', enc_u64 (ee_Seq env)), (''timestamp'', enc_i64 (ee_Timestamp env)),
           (''event_type'', enc_str (ee_EventType env)), (''symbol'', enc_str (ee_Symbol env)),
           (''payload'', payload)]))"

definition persist_event :: "u64 \<Rightarrow> MatchingEngineEvent \<Rightarrow> json \<Rightarrow> PersistentEvent" where
  "persist_event globalSeq event payload =
     (let envelope = MarshalEvent event
      in \<lparr>pe_ID = 0, pe_GlobalSeq = to_int64 globalSeq, pe_EventType = ee_EventType envelope, pe_AggregateID = [],
          pe_AggregateType = ''MatchingEngine'', pe_Symbol = Symbol event, pe_Payload = Some payload,
          pe_EventTimestamp = EventTimestamp event, pe_CreatedAt = ee_Timestamp envelope, pe_Version = 1\<rparr>)"

definition PostgresEventLog_AppendEvent ::
  "'d event_db \<Rightarrow> MatchingEngineEvent option \<Rightarrow> 'd PostgresEventLog \<Rightarrow> go_error option \<times> 'd PostgresEventLog" where
  "PostgresEventLog_AppendEvent db ev pl =
     (case ev of
        None \<Rightarrow> (Some ''event cannot be nil'', pl)
      | Some event \<Rightarrow>
          (case NextGlobalSeq (pl_sequencer pl) of (globalSeq, sequencer) \<Rightarrow>
             let pl = pl\<lparr>pl_sequencer := sequencer\<rparr>
             in case envelope_json (MarshalEvent event) of
                  None \<Rightarrow> (Some ''json'', pl)
                | Some payload \<Rightarrow>
                    (case WriteEvent db (persist_event globalSeq event payload) (pl_eventStore pl) of
                       (Some err, d) \<Rightarrow> (Some err, pl\<lparr>pl_eventStore := d\<rparr>)
                     | (None, d) \<Rightarrow>
                         (None, pl\<lparr>pl_eventStore := d,
                            pl_localSeqMap := (pl_localSeqMap pl)(Symbol event \<mapsto> to_int64 globalSeq)\<rparr>))))"

definition to_envelope :: "PersistentEvent \<Rightarrow> EventEnvelope" where
  "to_envelope pe =
     \<lparr>ee_Seq = to_uint64 (pe_GlobalSeq pe), ee_Timestamp = pe_CreatedAt pe, ee_EventType = pe_EventType pe,
      ee_Symbol = pe_Symbol pe, ee_Payload = pe_Payload pe\<rparr>"

definition PostgresEventLog_GetEventsBySymbol ::
  "'d event_db \<Rightarrow> string \<Rightarrow> u64 \<Rightarrow> int \<Rightarrow> 'd PostgresEventLog \<Rightarrow> go_error + EventEnvelope list" where
  "PostgresEventLog_GetEventsBySymbol db symbol startSeq limit pl =
     (case GetSymbolEvents db symbol (to_int64 startSeq) (i64 (to_int64 startSeq + limit)) (pl_eventStore pl) of
        Inl err \<Rightarrow> Inl err
      | Inr persistEvents \<Rightarrow> Inr (map to_envelope persistEvents))"

definition PostgresEventLog_GetEventsSinceTime ::
  "'d event_db \<Rightarrow> string \<Rightarrow> int \<Rightarrow> 'd PostgresEventLog \<Rightarrow> go_error + EventEnvelope list" where
  "PostgresEventLog_GetEventsSinceTime db symbol timestamp pl =
     (case GetLatestGlobalSeq db (pl_eventStore pl) of
        Inl err \<Rightarrow> Inl err
      | Inr latestSeq \<Rightarrow>
          (case GetSymbolEvents db symbol 0 (i64 (latestSeq + 1)) (pl_eventStore pl) of
             Inl err \<Rightarrow> Inl err
           | Inr persistEvents \<Rightarrow> Inr (map to_envelope (filter (\<lambda>pe. pe_EventTimestamp pe \<ge> timestamp) persistEvents))))"

definition PostgresEventLog_GetLatestSeq :: "'d event_db \<Rightarrow> string \<Rightarrow> 'd PostgresEventLog \<Rightarrow> go_error + u64" where
  "PostgresEventLog_GetLatestSeq db symbol pl =
     (case pl_localSeqMap pl symbol of
        Some seq \<Rightarrow> Inr (to_uint64 seq)
      | None \<Rightarrow>
          (case GetLatestGlobalSeq db (pl_eventStore pl) of
             Inl err \<Rightarrow> Inl err
           | Inr latestSeq \<Rightarrow> Inr (to_uint64 latestSeq)))"

definition PostgresEventLog_GetAllEvents :: "'d event_db \<Rightarrow> 'd PostgresEventLog \<Rightarrow> go_error + EventEnvelope list" where
  "PostgresEventLog_GetAllEvents db pl =
     (case GetGlobalEventStream db 0 100000 (pl_eventStore pl) of
        Inl err \<Rightarrow> Inl err
      | Inr persistEvents \<Rightarrow> Inr (map to_envelope persistEvents))"

definition GetEventsBySymbolRange ::
  "'d event_db \<Rightarrow> string \<Rightarrow> int \<Rightarrow> int \<Rightarrow> int \<Rightarrow> 'd PostgresEventLog \<Rightarrow> go_error + EventEnvelope list" where
  "GetEventsBySymbolRange db symbol startSeq endSeq limit pl =
     (case GetSymbolEvents db symbol startSeq endSeq (pl_eventStore pl) of
        Inl err \<Rightarrow> Inl err
      | Inr persistEvents \<Rightarrow>
          let persistEvents = (if limit > 0 \<and> int (length persistEvents) > limit
                               then take (nat limit) persistEvents else persistEvents)
          in Inr (map to_envelope persistEvents))"

definition ClearSymbolEvents :: "string \<Rightarrow> 'd PostgresEventLog \<Rightarrow> 'd PostgresEventLog" where
  "ClearSymbolEvents symbol pl = pl\<lparr>pl_localSeqMap := (pl_localSeqMap pl)(symbol := None)\<rparr>"

definition postgres_store :: "'d event_db \<Rightarrow> 'd PostgresEventLog event_store_ops" where
  "postgres_store db = \<lparr>es_AppendEvent = PostgresEventLog_AppendEvent db,
     es_GetEventsBySymbol = PostgresEventLog_GetEventsBySymbol db,
     es_GetEventsSinceTime = PostgresEventLog_GetEventsSinceTime db,
     es_GetLatestSeq = PostgresEventLog_GetLatestSeq db\<rparr>"

section \<open>What a stored event decodes to\<close>

text \<open>
  \<open>AppendEvent\<close> stores the JSON of the whole envelope, and the reading functions hand that document on
  as the payload. Decoding it as an event finds two of the event's fields, by their folded names.
\<close>

fun stripped :: "MatchingEngineEvent \<Rightarrow> MatchingEngineEvent" where
  "stripped (OrderSubmitted e) = OrderSubmitted (zero_submitted\<lparr>os_Seq := os_Seq e, os_Timestamp := os_Timestamp e\<rparr>)"
| "stripped (TradeExecuted e) = TradeExecuted (zero_trade\<lparr>te_Seq := te_Seq e, te_Timestamp := te_Timestamp e\<rparr>)"
| "stripped (OrderCancelled e) = OrderCancelled (zero_cancelled\<lparr>oc_Seq := oc_Seq e, oc_Timestamp := oc_Timestamp e\<rparr>)"

lemma envelope_fields:
  "find_field submitted_fields ''seq'' = Some (\<lambda>j. dec_u64 j (\<lambda>v. os_Seq_update (\<lambda>_. v)))"
  "find_field submitted_fields ''timestamp'' = Some (\<lambda>j. dec_i64 j (\<lambda>v. os_Timestamp_update (\<lambda>_. v)))"
  "find_field submitted_fields ''event_type'' = None" "find_field submitted_fields ''symbol'' = None"
  "find_field submitted_fields ''payload'' = None"
  "find_field trade_fields ''seq'' = Some (\<lambda>j. dec_u64 j (\<lambda>v. te_Seq_update (\<lambda>_. v)))"
  "find_field trade_fields ''timestamp'' = Some (\<lambda>j. dec_i64 j (\<lambda>v. te_Timestamp_update (\<lambda>_. v)))"
  "find_field trade_fields ''event_type'' = None" "find_field trade_fields ''symbol'' = None"
  "find_field trade_fields ''payload'' = None"
  "find_field cancelled_fields ''seq'' = Some (\<lambda>j. dec_u64 j (\<lambda>v. oc_Seq_update (\<lambda>_. v)))"
  "find_field cancelled_fields ''timestamp'' = Some (\<lambda>j. dec_i64 j (\<lambda>v. oc_Timestamp_update (\<lambda>_. v)))"
  "find_field cancelled_fields ''event_type'' = None" "find_field cancelled_fields ''symbol'' = None"
  "find_field cancelled_fields ''payload'' = None"
  by (simp_all add: find_field_def submitted_fields_def trade_fields_def cancelled_fields_def fold_name_ascii)

lemma unmarshal_stored:
  assumes "in_i64 (EventTimestamp e)" "envelope_json (MarshalEvent e) = Some j"
    and "ee_EventType env = EventType e" "ee_Payload env = Some j"
  shows "UnmarshalEvent env = Inr (Some (stripped e))"
  using assms
  by (cases e) (auto simp: UnmarshalEvent_def envelope_json_def MarshalEvent_def dec_struct_def envelope_fields)

lemma to_uint64_to_int64 [simp]: "to_uint64 (to_int64 g) = g"
proof -
  have "word_of_int (i64 (uint g)) = (word_of_int (uint g) :: u64)"
    using i64_mod [of "uint g"] by (intro iffD2 [OF word_of_int_eq_iff]) (simp add: take_bit_eq_mod)
  then show ?thesis by (simp add: to_uint64_def to_int64_def)
qed

text \<open>What the row of an event holds.\<close>

definition holds :: "u64 \<times> MatchingEngineEvent \<Rightarrow> PersistentEvent \<Rightarrow> bool" where
  "holds ge row \<longleftrightarrow> (case ge of (g, e) \<Rightarrow>
     pe_GlobalSeq row = to_int64 g \<and> pe_Symbol row = Symbol e \<and> pe_EventType row = EventType e \<and>
     pe_Payload row = envelope_json (MarshalEvent e))"

section \<open>The contract of the table\<close>

text \<open>An inserted row gets a key, and a creation time if it has none; \<open>global_seq\<close> has a unique index.\<close>

locale event_table =
  fixes db :: "'d event_db" and rows :: "'d \<Rightarrow> PersistentEvent list"
  assumes create_done: "ed_Create db e d = (None, d') \<Longrightarrow>
      pe_GlobalSeq e \<notin> pe_GlobalSeq ` set (rows d) \<and>
      (\<exists>i c. (pe_CreatedAt e \<noteq> 0 \<longrightarrow> c = pe_CreatedAt e) \<and> rows d' = rows d @ [e\<lparr>pe_ID := i, pe_CreatedAt := c\<rparr>])"
    and create_failed: "ed_Create db e d = (Some err, d') \<Longrightarrow> rows d' = rows d"
    and find_by_seq: "ed_Find db P by_global_seq None d = Inr xs \<Longrightarrow>
      mset xs = mset (filter P (rows d)) \<and> sorted (map pe_GlobalSeq xs)"
begin

lemma append_row:
  assumes "PostgresEventLog_AppendEvent db (Some e) pl = (err, pl')"
  shows "err = None \<Longrightarrow> \<exists>row. holds (fst (NextGlobalSeq (pl_sequencer pl)), e) row \<and>
      rows (pl_eventStore pl') = rows (pl_eventStore pl) @ [row]" (is "_ \<Longrightarrow> ?stored")
    and "err \<noteq> None \<Longrightarrow> rows (pl_eventStore pl') = rows (pl_eventStore pl)"
    and "pl_sequencer pl' = snd (NextGlobalSeq (pl_sequencer pl))"
proof -
  obtain g sq where n: "NextGlobalSeq (pl_sequencer pl) = (g, sq)" by (cases "NextGlobalSeq (pl_sequencer pl)")
  obtain j where j: "envelope_json (MarshalEvent e) = Some j" by (simp add: envelope_json_def MarshalEvent_def)
  obtain r d where c: "ed_Create db (persist_event g e j) (pl_eventStore pl) = (r, d)"
    by (cases "ed_Create db (persist_event g e j) (pl_eventStore pl)")
  have out: "err = r" "pl_eventStore pl' = d" "pl_sequencer pl' = sq"
    using assms n j c by (auto simp: PostgresEventLog_AppendEvent_def WriteEvent_def Let_def split: option.splits)
  show ?stored if done_: "err = None"
  proof -
    obtain i c' where "rows d = rows (pl_eventStore pl) @ [(persist_event g e j)\<lparr>pe_ID := i, pe_CreatedAt := c'\<rparr>]"
      using create_done c done_ out(1) by blast
    moreover have "holds (g, e) ((persist_event g e j)\<lparr>pe_ID := i, pe_CreatedAt := c'\<rparr>)"
      using j by (simp add: holds_def persist_event_def MarshalEvent_def Let_def)
    ultimately show ?thesis using out n by auto
  qed
  show "rows (pl_eventStore pl') = rows (pl_eventStore pl)" if "err \<noteq> None"
    using create_failed that out c by auto
  show "pl_sequencer pl' = snd (NextGlobalSeq (pl_sequencer pl))" using out n by simp
qed

lemma read_back:
  assumes hold: "list_all2 holds tr (rows (pl_eventStore pl))"
    and ts: "\<forall>(g, e) \<in> set tr. in_i64 (EventTimestamp e)"
    and get: "PostgresEventLog_GetEventsBySymbol db s n limit pl = Inr envs"
  shows "mset (map (\<lambda>env. (ee_Seq env, UnmarshalEvent env)) envs) =
    mset (map (\<lambda>(g, e). (g, Inr (Some (stripped e))))
      (filter (\<lambda>(g, e). Symbol e = s \<and> to_int64 n \<le> to_int64 g \<and> to_int64 g \<le> i64 (to_int64 n + limit)) tr))"
proof -
  let ?P = "\<lambda>row. pe_Symbol row = s \<and> pe_GlobalSeq row \<ge> to_int64 n \<and> pe_GlobalSeq row \<le> i64 (to_int64 n + limit)"
  let ?f = "\<lambda>row. (ee_Seq (to_envelope row), UnmarshalEvent (to_envelope row))"
  obtain xs where "ed_Find db ?P by_global_seq None (pl_eventStore pl) = Inr xs" "envs = map to_envelope xs"
    using get by (auto simp: PostgresEventLog_GetEventsBySymbol_def GetSymbolEvents_def split: sum.splits)
  with find_by_seq have "mset (map (\<lambda>env. (ee_Seq env, UnmarshalEvent env)) envs) =
      mset (map ?f (filter ?P (rows (pl_eventStore pl))))"
    by (simp add: o_def)
  moreover have "map ?f (filter ?P rs) = map (\<lambda>(g, e). (g, Inr (Some (stripped e))))
      (filter (\<lambda>(g, e). Symbol e = s \<and> to_int64 n \<le> to_int64 g \<and> to_int64 g \<le> i64 (to_int64 n + limit)) ts)"
    if "list_all2 holds ts rs" "\<forall>(g, e) \<in> set ts. in_i64 (EventTimestamp e)" for ts rs
    using that
  proof (induction rule: list_all2_induct)
    case (Cons ge ts row rs)
    obtain g e where ge: "ge = (g, e)" by (cases ge)
    obtain j where j: "envelope_json (MarshalEvent e) = Some j" by (simp add: envelope_json_def MarshalEvent_def)
    have "UnmarshalEvent (to_envelope row) = Inr (Some (stripped e))"
      using Cons ge j by (intro unmarshal_stored [OF _ j]) (auto simp: holds_def to_envelope_def)
    with Cons ge show ?case by (auto simp: holds_def to_envelope_def)
  qed simp
  ultimately show ?thesis using hold ts by simp
qed

end

text \<open>
  Appending a list of events: the numbers and events that were stored. The sequencer is shared with the rest of
  the engine; each event comes with how many numbers others drew from it since the append before.
\<close>

fun postgres_append_all :: "'d event_db \<Rightarrow> (nat \<times> MatchingEngineEvent) list \<Rightarrow> 'd PostgresEventLog \<Rightarrow>
    (u64 \<times> MatchingEngineEvent) list \<times> 'd PostgresEventLog" where
  "postgres_append_all db [] pl = ([], pl)"
| "postgres_append_all db ((n, e) # es) pl =
     (let pl0 = pl\<lparr>pl_sequencer := others_draw n (pl_sequencer pl)\<rparr>
      in case PostgresEventLog_AppendEvent db (Some e) pl0 of (err, pl1) \<Rightarrow>
        (case postgres_append_all db es pl1 of (tr, pl2) \<Rightarrow>
           ((if err = None then [(fst (NextGlobalSeq (pl_sequencer pl0)), e)] else []) @ tr, pl2)))"

context event_table
begin

lemma append_all_rows:
  "postgres_append_all db es pl = (tr, pl') \<Longrightarrow>
   (\<exists>rs. list_all2 holds tr rs \<and> rows (pl_eventStore pl') = rows (pl_eventStore pl) @ rs) \<and>
   snd ` set tr \<subseteq> snd ` set es \<and> fst ` set tr \<subseteq> range (global_seq (sq_nodeID (pl_sequencer pl)))"
proof (induction es arbitrary: pl tr pl')
  case (Cons ne es)
  obtain n e where ne: "ne = (n, e)" by (cases ne)
  define pl0 where "pl0 = pl\<lparr>pl_sequencer := others_draw n (pl_sequencer pl)\<rparr>"
  have pl0: "pl_eventStore pl0 = pl_eventStore pl" "sq_nodeID (pl_sequencer pl0) = sq_nodeID (pl_sequencer pl)"
    by (simp_all add: pl0_def others_draw_run)
  obtain err pl1 where a: "PostgresEventLog_AppendEvent db (Some e) pl0 = (err, pl1)"
    by (cases "PostgresEventLog_AppendEvent db (Some e) pl0")
  obtain tr1 pl2 where r: "postgres_append_all db es pl1 = (tr1, pl2)" by (cases "postgres_append_all db es pl1")
  let ?g = "fst (NextGlobalSeq (pl_sequencer pl0))"
  have out: "tr = (if err = None then [(?g, e)] else []) @ tr1" "pl' = pl2"
    using Cons.prems a r by (auto simp: ne Let_def simp flip: pl0_def)
  have node: "sq_nodeID (pl_sequencer pl1) = sq_nodeID (pl_sequencer pl)"
    and g: "?g \<in> range (global_seq (sq_nodeID (pl_sequencer pl)))"
    using append_row(3) [OF a] pl0(2) by (auto simp: NextGlobalSeq_def Let_def)
  obtain rs where rs: "list_all2 holds tr1 rs" "rows (pl_eventStore pl2) = rows (pl_eventStore pl1) @ rs"
    using Cons.IH [OF r] by auto
  have "\<exists>rs. list_all2 holds tr rs \<and> rows (pl_eventStore pl') = rows (pl_eventStore pl) @ rs"
  proof (cases "err = None")
    case True
    then obtain row where "holds (?g, e) row" "rows (pl_eventStore pl1) = rows (pl_eventStore pl) @ [row]"
      using append_row(1) [OF a] pl0(1) by auto
    with rs out True show ?thesis by (auto intro!: exI [of _ "row # rs"])
  next
    case False
    with rs out append_row(2) [OF a] pl0(1) show ?thesis by auto
  qed
  with Cons.IH [OF r] out node g show ?case by (auto simp: ne)
qed auto

end

section \<open>A table in memory\<close>

definition memory_events :: "PersistentEvent list event_db" where
  "memory_events =
     \<lparr>ed_Create = (\<lambda>e d. if pe_GlobalSeq e \<in> set (map pe_GlobalSeq d) then (Some ''duplicate key'', d)
        else (None, d @ [e\<lparr>pe_ID := int (length d) + 1, pe_CreatedAt := if pe_CreatedAt e = 0 then 1 else pe_CreatedAt e\<rparr>])),
      ed_Transaction = (\<lambda>f d. case f d of (None, d') \<Rightarrow> (None, d') | (Some err, d') \<Rightarrow> (Some err, d)),
      ed_Find = (\<lambda>P order limit d.
        let xs = sort_key (case order of by_global_seq \<Rightarrow> pe_GlobalSeq | by_created_at_desc \<Rightarrow> (\<lambda>e. - pe_CreatedAt e)) (filter P d)
        in Inr (case limit of None \<Rightarrow> xs | Some n \<Rightarrow> take (nat n) xs)),
      ed_MaxSeq = (\<lambda>d. Inr (foldr max (map pe_GlobalSeq d) 0)),
      ed_Count = (\<lambda>P d. Inr (int (length (filter P d)))),
      ed_Delete = (\<lambda>P d. (Inr (int (length (filter P d))), filter (\<lambda>e. \<not> P e) d)),
      ed_Duplicates = (\<lambda>d. (None, int (length d) - int (length (remdups (map pe_GlobalSeq d)))))\<rparr>"

interpretation mem_events: event_table memory_events "\<lambda>d. d"
  by unfold_locales (auto simp: memory_events_def Let_def split: if_splits)

section \<open>Properties\<close>

text \<open>
  C21. What comes back from the event log the program runs with. After any appends to an empty table, whatever
  numbers others draw from the sequencer in between,
  reading a symbol gives, each once, the events of that symbol whose number in the table lies in the
  window of \<open>limit\<close> numbers from \<open>startSeq\<close> on, but each decodes to an event that kept its sequence
  number and time stamp and lost everything else: its symbol, ids, price and quantity are empty or
  zero. The envelope carries the number of the row, not the one of the event.
\<close>

theorem postgres_log_strips_events:
  assumes table: "event_table db rows" and empty: "rows d = []"
    and ts: "\<forall>e \<in> snd ` set es. in_i64 (EventTimestamp e)"
    and run: "postgres_append_all db es (NewPostgresEventLog d sq) = (tr, pl)"
    and get: "PostgresEventLog_GetEventsBySymbol db s startSeq limit pl = Inr envs"
  shows "mset (map (\<lambda>env. (ee_Seq env, UnmarshalEvent env)) envs) =
      mset (map (\<lambda>(g, e). (g, Inr (Some (stripped e))))
        (filter (\<lambda>(g, e). Symbol e = s \<and> to_int64 startSeq \<le> to_int64 g \<and> to_int64 g \<le> i64 (to_int64 startSeq + limit)) tr)) \<and>
    snd ` set tr \<subseteq> snd ` set es \<and>
    (\<forall>env \<in> set envs. \<exists>e. UnmarshalEvent env = Inr (Some e) \<and> Symbol e = [])"
proof -
  have tr: "list_all2 holds tr (rows (pl_eventStore pl))" "snd ` set tr \<subseteq> snd ` set es"
    using event_table.append_all_rows [OF table run] empty by (auto simp: NewPostgresEventLog_def)
  have "\<forall>(g, e) \<in> set tr. in_i64 (EventTimestamp e)"
  proof (clarify)
    fix g e assume "(g, e) \<in> set tr"
    then have "e \<in> snd ` set es" using tr(2) by force
    with ts show "in_i64 (EventTimestamp e)" by blast
  qed
  note eq = event_table.read_back [OF table tr(1) this get]
  have sym: "Symbol (stripped e) = []" for e
    by (cases e) (simp_all add: zero_submitted_def zero_trade_def zero_cancelled_def)
  have "\<exists>e. UnmarshalEvent env = Inr (Some e) \<and> Symbol e = []" if "env \<in> set envs" for env
  proof -
    have "(ee_Seq env, UnmarshalEvent env) \<in># mset (map (\<lambda>env. (ee_Seq env, UnmarshalEvent env)) envs)"
      using that by (auto simp del: mset_map)
    then show ?thesis unfolding eq using sym by (auto simp del: mset_map)
  qed
  with eq tr(2) show ?thesis by blast
qed

text \<open>
  C22. A replay from the beginning finds nothing on a numbered node. Sequence numbers start above
  \<open>2 ^ 40\<close> there, and the limit bounds the numbers of the window instead of the number of events.
\<close>

theorem postgres_replay_from_zero_empty:
  assumes table: "event_table db rows" and empty: "rows d = []"
    and new: "NewSequencerWithNodeID n = Returns sq" "n \<noteq> 0"
    and run: "postgres_append_all db es (NewPostgresEventLog d sq) = (tr, pl)"
    and limit: "0 \<le> limit" "limit < 2 ^ 40"
    and get: "PostgresEventLog_GetEventsBySymbol db s 0 limit pl = Inr envs"
  shows "envs = []"
proof -
  have n: "sq_nodeID sq = n" "n \<le> 1023" using NewSequencerWithNodeID_id [OF new(1)] by auto
  have tr: "list_all2 holds tr (rows (pl_eventStore pl))" "fst ` set tr \<subseteq> range (global_seq n)"
    using event_table.append_all_rows [OF table run] empty n by (auto simp: NewPostgresEventLog_def)
  have big: "pe_GlobalSeq row \<ge> 2 ^ 40" if row: "row \<in> set (rows (pl_eventStore pl))" for row
  proof -
    obtain g e where ge: "(g, e) \<in> set tr" "holds (g, e) row"
      using tr(1) row by (auto simp: list_all2_conv_all_nth in_set_conv_nth) (metis nth_mem surj_pair)
    define t where "t = uint (take_bit 40 g)"
    from ge have "drop_bit 40 g = n" using tr(2) drop_global_seq [OF new(2) n(2)] by auto
    then have u: "uint g = 2 ^ 40 * uint n + t" using uint_fields [of g] by (simp add: t_def)
    have "uint n \<noteq> 0" using new(2) by (simp add: uint_0_iff)
    then have "1 \<le> uint n" using uint_ge_0 [of n] by linarith
    moreover have "uint n \<le> 1023" using n(2) by (simp add: word_le_def)
    moreover have "0 \<le> t" "t < 2 ^ 40"
      unfolding t_def take_bit_eq_mask by (rule uint_ge_0, rule and_mask_lt_2p)
    ultimately have "2 ^ 40 \<le> uint g" "in_i64 (uint g)" unfolding u in_i64_def by simp_all
    with ge(2) show ?thesis by (simp add: holds_def to_int64_def i64_id)
  qed
  have "i64 limit = limit" "to_int64 0 = 0" using limit by (simp_all add: i64_id in_i64_def to_int64_def)
  with get obtain xs where xs: "envs = map to_envelope xs"
    "ed_Find db (\<lambda>e. pe_Symbol e = s \<and> pe_GlobalSeq e \<ge> 0 \<and> pe_GlobalSeq e \<le> limit) by_global_seq None (pl_eventStore pl) = Inr xs"
    by (auto simp: PostgresEventLog_GetEventsBySymbol_def GetSymbolEvents_def split: sum.splits)
  have "filter (\<lambda>e. pe_Symbol e = s \<and> pe_GlobalSeq e \<ge> 0 \<and> pe_GlobalSeq e \<le> limit) (rows (pl_eventStore pl)) = []"
    using big limit(2) by (fastforce simp: filter_empty_conv)
  with event_table.find_by_seq [OF table xs(2)] xs(1) show ?thesis by simp
qed

text \<open>A cancellation on node 1, read back from the number of its row and from zero.\<close>

definition demo_cancelled :: MatchingEngineEvent where
  "demo_cancelled = OrderCancelled \<lparr>oc_Seq = 7, oc_Timestamp = 1000, oc_OrderID = ''o1'', oc_SymbolStr = ''BTC'', oc_Reason = ''user''\<rparr>"

definition node1 :: Sequencer where
  "node1 = \<lparr>sq_nodeID = 1, sq_localSeq = 0, sq_symbolSeq = Map.empty\<rparr>"

lemma demo_log:
  "\<exists>pl envs. postgres_append_all memory_events [(2, demo_cancelled)] (NewPostgresEventLog [] node1) = ([(1099511627779, demo_cancelled)], pl) \<and>
     PostgresEventLog_GetEventsBySymbol memory_events ''BTC'' 1099511627779 1000 pl = Inr envs \<and> length envs = 1 \<and>
     PostgresEventLog_GetEventsBySymbol memory_events ''BTC'' 0 1000 pl = Inr []"
  by (simp add: demo_cancelled_def node1_def NewPostgresEventLog_def PostgresEventLog_AppendEvent_def memory_events_def
      others_draw_run NextGlobalSeq_def global_seq_def envelope_json_def MarshalEvent_def WriteEvent_def persist_event_def Let_def
      PostgresEventLog_GetEventsBySymbol_def GetSymbolEvents_def to_int64_def i64_def)

theorem postgres_log_strips_events_witness:
  "\<exists>pl envs. postgres_append_all memory_events [(2, demo_cancelled)] (NewPostgresEventLog [] node1) = ([(1099511627779, demo_cancelled)], pl) \<and>
     PostgresEventLog_GetEventsBySymbol memory_events ''BTC'' 1099511627779 1000 pl = Inr envs \<and> length envs = 1 \<and>
     (\<forall>env \<in> set envs. \<exists>e. UnmarshalEvent env = Inr (Some e) \<and> Symbol e = [])"
proof -
  obtain pl envs where run: "postgres_append_all memory_events [(2, demo_cancelled)] (NewPostgresEventLog [] node1) = ([(1099511627779, demo_cancelled)], pl)"
    and get: "PostgresEventLog_GetEventsBySymbol memory_events ''BTC'' 1099511627779 1000 pl = Inr envs" "length envs = 1"
    using demo_log by blast
  have "\<forall>e \<in> snd ` set [(2 :: nat, demo_cancelled)]. in_i64 (EventTimestamp e)" by (simp add: demo_cancelled_def in_i64_def)
  from postgres_log_strips_events [OF mem_events.event_table_axioms refl this run get(1)] run get show ?thesis by blast
qed

theorem postgres_replay_from_zero_empty_witness:
  "\<exists>pl envs. NewSequencerWithNodeID 1 = Returns node1 \<and>
     postgres_append_all memory_events [(2, demo_cancelled)] (NewPostgresEventLog [] node1) = ([(1099511627779, demo_cancelled)], pl) \<and>
     PostgresEventLog_GetEventsBySymbol memory_events ''BTC'' 0 1000 pl = Inr envs \<and> envs = []"
proof -
  obtain pl where run: "postgres_append_all memory_events [(2, demo_cancelled)] (NewPostgresEventLog [] node1) = ([(1099511627779, demo_cancelled)], pl)"
    and get: "PostgresEventLog_GetEventsBySymbol memory_events ''BTC'' 0 1000 pl = Inr []"
    using demo_log by blast
  have new: "NewSequencerWithNodeID 1 = Returns node1" by (simp add: NewSequencerWithNodeID_def node1_def)
  from postgres_replay_from_zero_empty [OF mem_events.event_table_axioms refl new _ run _ _ get] new run get
  show ?thesis by auto
qed

end
