(* ===== verification/NodeIds.thy ===== *)
theory NodeIds
  imports ParseFloat Json Sequencer "HOL-Library.Code_Target_Nat"
begin

text \<open>
  \<^verbatim>\<open>src/biz/service/node_id_manager.go\<close>: every node of the cluster gets a number from a counter in
  Consul and registers it under its address, so that it finds it again after a restart. The calls to
  Consul's key-value store are the fields of \<open>consul_ops\<close>, over a state \<open>'k\<close>; the locale \<open>consul_kv\<close> says
  what they do. Several nodes allocate at the same time: \<open>cluster_step\<close> interleaves their calls.
\<close>

section \<open>The key-value store\<close>

text \<open>
  The bytes of a value: \<open>Doc\<close> is a JSON object or \<^verbatim>\<open>null\<close>, \<open>Text\<close> is everything else.
\<close>

datatype kv_bytes = Text string | Doc json

record KVPair =
  kv_Value :: kv_bytes
  kv_ModifyIndex :: u64

record 'k consul_ops =
  cs_Get :: "string \<Rightarrow> 'k \<Rightarrow> (go_error + KVPair option) \<times> 'k"
  cs_Put :: "string \<Rightarrow> kv_bytes \<Rightarrow> 'k \<Rightarrow> go_error option \<times> 'k"
  cs_CAS :: "string \<Rightarrow> kv_bytes \<Rightarrow> u64 \<Rightarrow> 'k \<Rightarrow> (go_error + bool) \<times> 'k"

section \<open>The manager\<close>

definition nodeRegistryPrefix :: string where
  "nodeRegistryPrefix = ''node_registry/''"

definition nodeIDCounterKey :: string where
  "nodeIDCounterKey = ''node_registry/next_id''"

record NodeIDManager =
  nm_nodeAddr :: string
  nm_nodeID :: u64

record NodeIDEntry =
  ne_NodeID :: u64
  ne_NodeAddr :: string
  ne_Timestamp :: int

definition NewNodeIDManager :: "string \<Rightarrow> NodeIDManager" where
  "NewNodeIDManager nodeAddr = \<lparr>nm_nodeAddr = nodeAddr, nm_nodeID = 0\<rparr>"

text \<open>\<^verbatim>\<open>json.Marshal\<close> and \<^verbatim>\<open>json.Unmarshal\<close> of an entry.\<close>

definition entry_json :: "NodeIDEntry \<Rightarrow> json" where
  "entry_json e = JObj [(''node_id'', enc_u64 (ne_NodeID e)), (''node_addr'', enc_str (ne_NodeAddr e)),
     (''timestamp'', enc_i64 (ne_Timestamp e))]"

definition entry_fields :: "NodeIDEntry fields" where
  "entry_fields =
     [(''node_id'', \<lambda>j. dec_u64 j (\<lambda>v. ne_NodeID_update (\<lambda>_. v))),
      (''node_addr'', \<lambda>j. dec_str j (\<lambda>v. ne_NodeAddr_update (\<lambda>_. v))),
      (''timestamp'', \<lambda>j. dec_i64 j (\<lambda>v. ne_Timestamp_update (\<lambda>_. v)))]"

definition decode_entry :: "kv_bytes \<Rightarrow> NodeIDEntry option" where
  "decode_entry b =
     (case b of
        Text s \<Rightarrow> None
      | Doc j \<Rightarrow> dec_struct entry_fields \<lparr>ne_NodeID = 0, ne_NodeAddr = [], ne_Timestamp = 0\<rparr> (Some j))"

text \<open>\<^verbatim>\<open>fmt.Sscanf(s, "%d", &id)\<close> for a \<open>uint64\<close>; on an error, which is ignored, the variable stays 0.\<close>

definition scan_uint64 :: "string \<Rightarrow> u64 option" where
  "scan_uint64 s =
     (let rest = trim_left (filter (\<lambda>p. p \<noteq> [char_of (10 :: nat)]) spaces) s
      in parse_uint (takeWhile is_digit rest))"

definition parseNodeID :: "kv_bytes \<Rightarrow> u64" where
  "parseNodeID data =
     (case data of
        Text s \<Rightarrow> (case scan_uint64 s of None \<Rightarrow> 0 | Some v \<Rightarrow> v)
      | Doc j \<Rightarrow> 0)"

text \<open>The first call of \<open>GetOrAllocateNodeID\<close>: the number registered for the address, if there is one.\<close>

definition lookup_node :: "'k consul_ops \<Rightarrow> string \<Rightarrow> 'k \<Rightarrow> (go_error + u64 option) \<times> 'k" where
  "lookup_node ops nodeAddr k =
     (case cs_Get ops (nodeRegistryPrefix @ nodeAddr) k of
        (Inl err, k') \<Rightarrow> (Inl (''failed to query node registry: '' @ err), k')
      | (Inr None, k') \<Rightarrow> (Inr None, k')
      | (Inr (Some pair), k') \<Rightarrow> (Inr (map_option ne_NodeID (decode_entry (kv_Value pair))), k'))"

text \<open>The two calls of one attempt of \<open>allocateNewNodeID\<close>.\<close>

definition read_counter :: "'k consul_ops \<Rightarrow> 'k \<Rightarrow> (go_error + u64 \<times> u64) \<times> 'k" where
  "read_counter ops k =
     (case cs_Get ops nodeIDCounterKey k of
        (Inl err, k') \<Rightarrow> (Inl (''failed to read counter: '' @ err), k')
      | (Inr pair, k') \<Rightarrow>
          let (currentID, modifyIndex) =
                (case pair of None \<Rightarrow> (1, 0) | Some p \<Rightarrow> (parseNodeID (kv_Value p), kv_ModifyIndex p))
          in if currentID > 1023
             then (Inl (''NodeID exhausted: max 1024 nodes supported, current='' @ show_nat (unat currentID)), k')
             else (Inr (currentID, modifyIndex), k'))"

definition swap_counter :: "'k consul_ops \<Rightarrow> u64 \<Rightarrow> u64 \<Rightarrow> 'k \<Rightarrow> (go_error + bool) \<times> 'k" where
  "swap_counter ops currentID modifyIndex k =
     (let nextID = currentID + 1
      in case cs_CAS ops nodeIDCounterKey (Text (show_nat (unat nextID))) modifyIndex k of
           (Inl err, k') \<Rightarrow> (Inl (''CAS operation failed: '' @ err), k')
         | (Inr success, k') \<Rightarrow> (Inr success, k'))"

fun allocate_loop :: "'k consul_ops \<Rightarrow> nat \<Rightarrow> 'k \<Rightarrow> (go_error + u64) \<times> 'k" where
  "allocate_loop ops 0 k = (Inl ''failed to allocate NodeID after 3 retries (CAS conflict)'', k)"
| "allocate_loop ops (Suc n) k =
     (case read_counter ops k of
        (Inl err, k1) \<Rightarrow> (Inl err, k1)
      | (Inr (currentID, modifyIndex), k1) \<Rightarrow>
          (case swap_counter ops currentID modifyIndex k1 of
             (Inl err, k2) \<Rightarrow> (Inl err, k2)
           | (Inr True, k2) \<Rightarrow> (Inr currentID, k2)
           | (Inr False, k2) \<Rightarrow> allocate_loop ops n k2))"

definition allocateNewNodeID :: "'k consul_ops \<Rightarrow> 'k \<Rightarrow> (go_error + u64) \<times> 'k" where
  "allocateNewNodeID ops k = allocate_loop ops 3 k"

text \<open>The registration; \<open>now\<close> is the clock in seconds.\<close>

definition save_node :: "'k consul_ops \<Rightarrow> int \<Rightarrow> string \<Rightarrow> u64 \<Rightarrow> 'k \<Rightarrow> go_error option \<times> 'k" where
  "save_node ops now nodeAddr newNodeID k =
     (let entry = \<lparr>ne_NodeID = newNodeID, ne_NodeAddr = nodeAddr, ne_Timestamp = now\<rparr>
      in case cs_Put ops (nodeRegistryPrefix @ nodeAddr) (Doc (entry_json entry)) k of
           (Some err, k') \<Rightarrow> (Some (''failed to save node registry: '' @ err), k')
         | (None, k') \<Rightarrow> (None, k'))"

definition GetOrAllocateNodeID ::
  "'k consul_ops \<Rightarrow> int \<Rightarrow> NodeIDManager \<Rightarrow> 'k \<Rightarrow> (go_error + u64) \<times> NodeIDManager \<times> 'k" where
  "GetOrAllocateNodeID ops now m k =
     (if nm_nodeAddr m = [] then (Inl ''nodeAddr must not be empty'', m, k)
      else case lookup_node ops (nm_nodeAddr m) k of
        (Inl err, k1) \<Rightarrow> (Inl err, m, k1)
      | (Inr (Some nodeID), k1) \<Rightarrow> (Inr nodeID, m\<lparr>nm_nodeID := nodeID\<rparr>, k1)
      | (Inr None, k1) \<Rightarrow>
          (case allocateNewNodeID ops k1 of
             (Inl err, k2) \<Rightarrow> (Inl (''failed to allocate new NodeID: '' @ err), m, k2)
           | (Inr newNodeID, k2) \<Rightarrow>
               (case save_node ops now (nm_nodeAddr m) newNodeID k2 of
                  (Some err, k3) \<Rightarrow> (Inl err, m, k3)
                | (None, k3) \<Rightarrow> (Inr newNodeID, m\<lparr>nm_nodeID := newNodeID\<rparr>, k3))))"

definition NodeIDManager_GetNodeID :: "NodeIDManager \<Rightarrow> u64" where
  "NodeIDManager_GetNodeID m = nm_nodeID m"

section \<open>Several nodes\<close>

text \<open>
  Where a node is in \<open>GetOrAllocateNodeID\<close>: before the lookup, in the loop with a number of attempts
  left, between reading and swapping the counter, before the registration, or past the call.
\<close>

datatype phase = Starting | Allocating nat | Swapping nat u64 u64 | Saving u64 | Running u64 | Failed

text \<open>One call of a node to Consul, or a crash after which it starts again.\<close>

inductive cluster_step :: "'k consul_ops \<Rightarrow> string set \<Rightarrow> 'k \<times> (string \<Rightarrow> phase) \<Rightarrow> 'k \<times> (string \<Rightarrow> phase) \<Rightarrow> bool"
  for ops nodes where
  lookup: "a \<in> nodes \<Longrightarrow> ph a = Starting \<Longrightarrow> a \<noteq> [] \<Longrightarrow> lookup_node ops a k = (r, k') \<Longrightarrow>
    cluster_step ops nodes (k, ph) (k', ph(a := (case r of Inl _ \<Rightarrow> Failed | Inr None \<Rightarrow> Allocating 3 | Inr (Some n) \<Rightarrow> Running n)))"
| read: "a \<in> nodes \<Longrightarrow> ph a = Allocating (Suc n) \<Longrightarrow> read_counter ops k = (r, k') \<Longrightarrow>
    cluster_step ops nodes (k, ph) (k', ph(a := (case r of Inl _ \<Rightarrow> Failed | Inr (currentID, modifyIndex) \<Rightarrow> Swapping n currentID modifyIndex)))"
| give_up: "a \<in> nodes \<Longrightarrow> ph a = Allocating 0 \<Longrightarrow> cluster_step ops nodes (k, ph) (k, ph(a := Failed))"
| swap: "a \<in> nodes \<Longrightarrow> ph a = Swapping n currentID modifyIndex \<Longrightarrow> swap_counter ops currentID modifyIndex k = (r, k') \<Longrightarrow>
    cluster_step ops nodes (k, ph) (k', ph(a := (case r of Inl _ \<Rightarrow> Failed | Inr True \<Rightarrow> Saving currentID | Inr False \<Rightarrow> Allocating n)))"
| save: "a \<in> nodes \<Longrightarrow> ph a = Saving n \<Longrightarrow> in_i64 now \<Longrightarrow> save_node ops now a n k = (err, k') \<Longrightarrow>
    cluster_step ops nodes (k, ph) (k', ph(a := (if err = None then Running n else Failed)))"
| no_addr: "a \<in> nodes \<Longrightarrow> ph a = Starting \<Longrightarrow> a = [] \<Longrightarrow> cluster_step ops nodes (k, ph) (k, ph(a := Failed))"
| restart: "a \<in> nodes \<Longrightarrow> cluster_step ops nodes (k, ph) (k, ph(a := Starting))"

text \<open>
  The engine's node number in \<^verbatim>\<open>NewPartitionAwareMatchEngine\<close>: a node whose call failed does not stop but goes on
  with the number 0.
\<close>

definition engine_node_id :: "go_error + u64 \<Rightarrow> u64" where
  "engine_node_id r = (case r of Inl err \<Rightarrow> 0 | Inr nodeID \<Rightarrow> nodeID)"

fun runs_with :: "phase \<Rightarrow> u64 option" where
  "runs_with (Running n) = Some n"
| "runs_with Failed = Some 0"
| "runs_with ph = None"

text \<open>The phase after the loop, and after the whole call.\<close>

fun after_loop :: "go_error + u64 \<Rightarrow> phase" where
  "after_loop (Inl err) = Failed"
| "after_loop (Inr n) = Saving n"

fun after_call :: "go_error + u64 \<Rightarrow> phase" where
  "after_call (Inl err) = Failed"
| "after_call (Inr n) = Running n"

lemma runs_with_call: "runs_with (after_call r) = Some (engine_node_id r)"
  by (cases r) (simp_all add: engine_node_id_def)

text \<open>A node that runs alone takes these steps in the order of the code.\<close>

lemma allocate_loop_steps:
  assumes "a \<in> nodes"
  shows "allocate_loop ops n k = (r, k') \<Longrightarrow> ph a = Allocating n \<Longrightarrow>
    (cluster_step ops nodes)\<^sup>*\<^sup>* (k, ph) (k', ph(a := after_loop r))"
proof (induction n arbitrary: k ph)
  case 0
  then have "k' = k" "r = Inl ''failed to allocate NodeID after 3 retries (CAS conflict)''" by simp_all
  with r_into_rtranclp [of "cluster_step ops nodes", OF give_up [where ph = ph and k = k, OF assms]] 0 show ?case
    by (simp del: fun_upd_apply)
next
  case (Suc n)
  obtain r1 k1 where rd: "read_counter ops k = (r1, k1)" by (cases "read_counter ops k")
  let ?ph1 = "ph(a := (case r1 of Inl _ \<Rightarrow> Failed | Inr (c, i) \<Rightarrow> Swapping n c i))"
  note s1 = read [where ph = ph, OF assms Suc.prems(2) rd]
  show ?case
  proof (cases r1)
    case (Inl err)
    with Suc.prems rd s1 show ?thesis by (auto simp del: fun_upd_apply)
  next
    case (Inr ci)
    obtain c i where ci: "ci = (c, i)" by (cases ci)
    obtain r2 k2 where sw: "swap_counter ops c i k1 = (r2, k2)" by (cases "swap_counter ops c i k1")
    have s2: "cluster_step ops nodes (k1, ?ph1) (k2, ?ph1(a := (case r2 of Inl _ \<Rightarrow> Failed | Inr True \<Rightarrow> Saving c | Inr False \<Rightarrow> Allocating n)))"
      by (rule swap [OF assms _ sw]) (simp add: Inr ci)
    show ?thesis
    proof (cases "r2 = Inr False")
      case True
      have "(cluster_step ops nodes)\<^sup>*\<^sup>* (k2, ?ph1(a := Allocating n)) (k', ?ph1(a := Allocating n, a := after_loop r))"
        by (rule Suc.IH) (use Suc.prems rd Inr ci sw True in simp_all)
      with s1 s2 True Inr ci show ?thesis by (auto simp del: fun_upd_apply intro: converse_rtranclp_into_rtranclp)
    next
      case False
      with Suc.prems rd Inr ci sw s1 s2 show ?thesis
        by (auto simp del: fun_upd_apply split: sum.splits bool.splits intro: converse_rtranclp_into_rtranclp)
    qed
  qed
qed

lemma GetOrAllocateNodeID_steps:
  assumes a0: "a \<in> nodes" "ph a = Starting" and now: "in_i64 now"
    and get: "GetOrAllocateNodeID ops now (NewNodeIDManager a) k = (r, m, k')"
  shows "(cluster_step ops nodes)\<^sup>*\<^sup>* (k, ph) (k', ph(a := after_call r))"
proof (cases "a = []")
  case True
  then have "r = Inl ''nodeAddr must not be empty''" "k' = k" using get by (simp_all add: GetOrAllocateNodeID_def NewNodeIDManager_def)
  with no_addr [where ph = ph and k = k, OF a0 True] show ?thesis by (auto simp del: fun_upd_apply)
next
  case False
  note a = a0 False
  obtain r1 k1 where lk: "lookup_node ops a k = (r1, k1)" by (cases "lookup_node ops a k")
  note s1 = lookup [where ph = ph, OF a lk]
  show ?thesis
  proof (cases "r1 = Inr None")
    case False
    with get a lk s1 show ?thesis
      by (auto simp: GetOrAllocateNodeID_def NewNodeIDManager_def split: sum.splits option.splits)
  next
    case True
    obtain r2 k2 where al: "allocate_loop ops 3 k1 = (r2, k2)" by (cases "allocate_loop ops 3 k1")
    have s2: "(cluster_step ops nodes)\<^sup>*\<^sup>* (k1, ph(a := Allocating 3)) (k2, ph(a := after_loop r2))"
      using allocate_loop_steps [OF a(1) al, of "ph(a := Allocating 3)"] by simp
    show ?thesis
    proof (cases r2)
      case (Inl err)
      with get a lk True al s1 s2 show ?thesis
        by (auto simp: GetOrAllocateNodeID_def NewNodeIDManager_def allocateNewNodeID_def intro: converse_rtranclp_into_rtranclp)
    next
      case (Inr n)
      obtain err k3 where sv: "save_node ops now a n k2 = (err, k3)" by (cases "save_node ops now a n k2")
      have "cluster_step ops nodes (k2, ph(a := Saving n)) (k3, ph(a := Saving n, a := (if err = None then Running n else Failed)))"
        by (rule save [OF a(1) _ now sv]) simp
      with get a lk True al s1 s2 Inr sv show ?thesis
        by (auto simp: GetOrAllocateNodeID_def NewNodeIDManager_def allocateNewNodeID_def split: option.splits
            intro: converse_rtranclp_into_rtranclp rtranclp.rtrancl_into_rtrancl)
    qed
  qed
qed

section \<open>Reading back what was written\<close>

lemma decode_entry_json:
  assumes "in_i64 (ne_Timestamp e)"
  shows "map_option ne_NodeID (decode_entry (Doc (entry_json e))) = Some (ne_NodeID e)"
proof -
  let ?js = "[enc_u64 (ne_NodeID e), enc_str (ne_NodeAddr e), enc_i64 (ne_Timestamp e)]"
  have "fields_ok entry_fields" by (rule fields_okI; simp add: entry_fields_def)
  from dec_struct_all [OF this, of ?js] have
    "decode_entry (Doc (entry_json e)) = dec_each (map snd entry_fields) ?js \<lparr>ne_NodeID = 0, ne_NodeAddr = [], ne_Timestamp = 0\<rparr>"
    by (simp add: decode_entry_def entry_json_def entry_fields_def)
  with assms show ?thesis by (simp add: entry_fields_def dec_str_def enc_str_def)
qed

lemma parseNodeID_show: "parseNodeID (Text (show_nat (unat w))) = w"
proof -
  let ?s = "show_nat (unat w)"
  have digits: "\<forall>c \<in> set ?s. is_digit c" using show_nat_all_digits by (simp add: list_all_iff)
  have ne: "?s \<noteq> []" using show_nat_Cons [of "unat w"] by auto
  have "trim_left (filter (\<lambda>p. p \<noteq> [char_of (10 :: nat)]) spaces) ?s = ?s"
    using spaces_not_digits digits hd_in_set [OF ne] by (intro trim_left_id [OF ne]) (auto simp: list_all_iff)
  moreover have "takeWhile is_digit ?s = ?s" using digits by (intro iffD2 [OF takeWhile_eq_all_conv])
  ultimately show ?thesis unfolding parseNodeID_def scan_uint64_def kv_bytes.case Let_def by (simp only: parse_uint_show option.case)
qed

section \<open>The contract of the store\<close>

text \<open>
  \<open>kv\<close> is what the keys of the registry hold, with the index of the last change, and \<open>idx\<close> the largest
  index given out. A call that reports an error may have had its effect.
\<close>

type_synonym registry = "string \<rightharpoonup> kv_bytes \<times> u64"

definition written :: "registry \<Rightarrow> nat \<Rightarrow> string \<Rightarrow> kv_bytes \<Rightarrow> registry \<Rightarrow> nat \<Rightarrow> bool" where
  "written m n key v m' n' \<longleftrightarrow> (\<exists>i. n < unat i \<and> unat i \<le> n' \<and> m' = m(key \<mapsto> (v, i)))"

definition unmodified :: "registry \<Rightarrow> string \<Rightarrow> u64 \<Rightarrow> bool" where
  "unmodified m key i \<longleftrightarrow> (case m key of None \<Rightarrow> i = 0 | Some (v, j) \<Rightarrow> i = j)"

locale consul_kv =
  fixes ops :: "'k consul_ops" and kv :: "'k \<Rightarrow> registry" and idx :: "'k \<Rightarrow> nat"
  assumes index: "kv k key = Some (v, i) \<Longrightarrow> unat i \<le> idx k"
    and get: "cs_Get ops key k = (r, k') \<Longrightarrow> kv k' = kv k \<and> idx k \<le> idx k' \<and>
      (\<forall>p. r = Inr p \<longrightarrow> p = map_option (\<lambda>(v, i). \<lparr>kv_Value = v, kv_ModifyIndex = i\<rparr>) (kv k key))"
    and put: "cs_Put ops key v k = (err, k') \<Longrightarrow> idx k \<le> idx k' \<and>
      (written (kv k) (idx k) key v (kv k') (idx k') \<or> err \<noteq> None \<and> kv k' = kv k)"
    and cas: "cs_CAS ops key v i k = (s, k') \<Longrightarrow> idx k \<le> idx k' \<and>
      (unmodified (kv k) key i \<and> s \<noteq> Inr False \<and> written (kv k) (idx k) key v (kv k') (idx k') \<or>
       s \<noteq> Inr True \<and> kv k' = kv k)"
begin

end

section \<open>The invariant of the cluster\<close>

definition counter :: "registry \<Rightarrow> u64" where
  "counter m = (case m nodeIDCounterKey of None \<Rightarrow> 1 | Some (v, i) \<Rightarrow> parseNodeID v)"

definition registered :: "registry \<Rightarrow> string \<Rightarrow> u64 option" where
  "registered m a = (case m (nodeRegistryPrefix @ a) of None \<Rightarrow> None | Some (v, i) \<Rightarrow> map_option ne_NodeID (decode_entry v))"

text \<open>The number a node has drawn: it is in its registration, or about to be.\<close>

definition drawn :: "registry \<Rightarrow> (string \<Rightarrow> phase) \<Rightarrow> string \<Rightarrow> u64 option" where
  "drawn m ph a = (case ph a of Saving n \<Rightarrow> Some n | _ \<Rightarrow> registered m a)"

fun phase_ok :: "registry \<Rightarrow> nat \<Rightarrow> string \<Rightarrow> phase \<Rightarrow> bool" where
  "phase_ok m j a (Running n) \<longleftrightarrow> registered m a = Some n"
| "phase_ok m j a (Allocating r) \<longleftrightarrow> m (nodeRegistryPrefix @ a) = None"
| "phase_ok m j a (Swapping r c i) \<longleftrightarrow> m (nodeRegistryPrefix @ a) = None \<and> 1 \<le> c \<and> c \<le> 1023 \<and> unat i \<le> j \<and>
     (unmodified m nodeIDCounterKey i \<longrightarrow> c = counter m)"
| "phase_ok m j a (Saving n) \<longleftrightarrow> m (nodeRegistryPrefix @ a) = None"
| "phase_ok m j a ph \<longleftrightarrow> True"

definition cluster_ok :: "string set \<Rightarrow> registry \<Rightarrow> nat \<Rightarrow> (string \<Rightarrow> phase) \<Rightarrow> bool" where
  "cluster_ok nodes m j ph \<longleftrightarrow>
     1 \<le> counter m \<and> counter m \<le> 1024 \<and>
     (\<forall>a \<in> nodes. phase_ok m j a (ph a) \<and> (m (nodeRegistryPrefix @ a) \<noteq> None \<longrightarrow> registered m a \<noteq> None) \<and>
        (\<forall>n. drawn m ph a = Some n \<longrightarrow> 1 \<le> n \<and> n < counter m \<and> (\<forall>b \<in> nodes. drawn m ph b = Some n \<longrightarrow> b = a)))"

lemma cluster_okD:
  assumes "cluster_ok nodes m j ph" "a \<in> nodes"
  shows "phase_ok m j a (ph a)" "registered m a = None \<Longrightarrow> m (nodeRegistryPrefix @ a) = None"
    "drawn m ph a = Some n \<Longrightarrow> 1 \<le> n \<and> n < counter m"
    "drawn m ph a = Some n \<Longrightarrow> b \<in> nodes \<Longrightarrow> drawn m ph b = Some n \<Longrightarrow> b = a"
  using assms unfolding cluster_ok_def by blast+

lemma cluster_okI:
  assumes ok: "cluster_ok nodes m j ph" and cnt: "counter m' = counter m"
    and ph: "\<And>b. b \<in> nodes \<Longrightarrow> phase_ok m' j' b (ph' b)"
    and reg: "\<And>b. b \<in> nodes \<Longrightarrow> registered m' b = None \<Longrightarrow> m' (nodeRegistryPrefix @ b) = None"
    and drawn: "\<And>b n. b \<in> nodes \<Longrightarrow> drawn m' ph' b = Some n \<Longrightarrow> drawn m ph b = Some n"
  shows "cluster_ok nodes m' j' ph'"
proof -
  have "1 \<le> counter m" "counter m \<le> 1024" using ok by (simp_all add: cluster_ok_def)
  moreover have "1 \<le> n \<and> n < counter m \<and> (\<forall>b' \<in> nodes. drawn m' ph' b' = Some n \<longrightarrow> b' = b)"
    if "b \<in> nodes" "drawn m' ph' b = Some n" for b n
    using drawn [OF that] drawn cluster_okD(3,4) [OF ok that(1)] by blast
  ultimately show ?thesis
    unfolding cluster_ok_def cnt using ph reg by fastforce
qed

lemma cluster_ok_phase:
  assumes ok: "cluster_ok nodes m j ph" and le: "j \<le> j'" and ph: "phase_ok m j' a p"
    and drawn: "\<And>n. drawn m (ph(a := p)) a = Some n \<Longrightarrow> drawn m ph a = Some n"
  shows "cluster_ok nodes m j' (ph(a := p))"
proof (rule cluster_okI [OF ok refl])
  have "phase_ok m j b q \<Longrightarrow> phase_ok m j' b q" for b q using le by (cases q) auto
  with ph cluster_okD(1) [OF ok] show "phase_ok m j' b ((ph(a := p)) b)" if "b \<in> nodes" for b using that by simp
  show "drawn m ph b = Some n" if "drawn m (ph(a := p)) b = Some n" for b n
    using that drawn by (cases "b = a") (simp_all add: drawn_def)
qed (rule cluster_okD(2) [OF ok])

lemma registered_upd:
  "nodeRegistryPrefix @ a \<noteq> nodeIDCounterKey \<Longrightarrow> registered (m(nodeIDCounterKey \<mapsto> x)) a = registered m a"
  "counter (m(nodeIDCounterKey \<mapsto> (v, i))) = parseNodeID v"
  "nodeRegistryPrefix @ a \<noteq> nodeIDCounterKey \<Longrightarrow> counter (m(nodeRegistryPrefix @ a \<mapsto> x)) = counter m"
  "registered (m(nodeRegistryPrefix @ a \<mapsto> (v, i))) b = (if b = a then map_option ne_NodeID (decode_entry v) else registered m b)"
  by (auto simp: registered_def counter_def)

lemma counter_key: "nodeRegistryPrefix @ a = nodeIDCounterKey \<longleftrightarrow> a = ''next_id''"
  by (simp add: nodeRegistryPrefix_def nodeIDCounterKey_def)

context consul_kv
begin

lemma ok_lookup:
  assumes ok: "cluster_ok nodes (kv k) (idx k) ph" and a: "a \<in> nodes" "ph a = Starting"
    and lk: "lookup_node ops a k = (r, k')"
  shows "cluster_ok nodes (kv k') (idx k') (ph(a := (case r of Inl _ \<Rightarrow> Failed | Inr None \<Rightarrow> Allocating 3 | Inr (Some n) \<Rightarrow> Running n)))"
proof -
  obtain g where g: "cs_Get ops (nodeRegistryPrefix @ a) k = (g, k')"
    using lk by (auto simp: lookup_node_def split: prod.splits sum.splits option.splits)
  note get [OF g]
  then have kv: "kv k' = kv k" "idx k \<le> idx k'" by simp_all
  have r: "n = registered (kv k) a" if "r = Inr n" for n
    using lk g get [OF g] that by (auto simp: lookup_node_def registered_def split: sum.splits option.splits)
  have none: "registered (kv k) a = None \<Longrightarrow> kv k (nodeRegistryPrefix @ a) = None"
    by (rule cluster_okD(2) [OF ok a(1)])
  show ?thesis
    unfolding kv(1) using r none a(2)
    by (intro cluster_ok_phase [OF ok kv(2)]) (auto simp: drawn_def split: sum.splits option.splits)
qed

lemma ok_read:
  assumes ok: "cluster_ok nodes (kv k) (idx k) ph" and a: "a \<in> nodes" "ph a = Allocating (Suc n)"
    and rd: "read_counter ops k = (r, k')"
  shows "cluster_ok nodes (kv k') (idx k') (ph(a := (case r of Inl _ \<Rightarrow> Failed | Inr (c, i) \<Rightarrow> Swapping n c i)))"
proof -
  obtain g where g: "cs_Get ops nodeIDCounterKey k = (g, k')"
    using rd by (auto simp: read_counter_def Let_def split: prod.splits sum.splits option.splits if_splits)
  have kv: "kv k' = kv k" "idx k \<le> idx k'" using get [OF g] by simp_all
  have "c = counter (kv k) \<and> c \<le> 1023 \<and> unat i \<le> idx k" if "r = Inr (c, i)" for c i
    using rd g get [OF g] that index [of k nodeIDCounterKey]
    by (auto simp: read_counter_def counter_def Let_def not_less split: sum.splits option.splits if_splits)
  moreover have "1 \<le> counter (kv k)" using ok by (simp add: cluster_ok_def)
  moreover have "kv k (nodeRegistryPrefix @ a) = None" using cluster_okD(1) [OF ok a(1)] a(2) by simp
  ultimately show ?thesis
    unfolding kv(1) using a(2) kv(2)
    by (intro cluster_ok_phase [OF ok kv(2)]) (fastforce simp: drawn_def split: sum.splits)+
qed

lemma ok_swap:
  assumes ok: "cluster_ok nodes (kv k) (idx k) ph" and a: "a \<in> nodes" "ph a = Swapping n c i" and "''next_id'' \<notin> nodes"
    and sw: "swap_counter ops c i k = (r, k')"
  shows "cluster_ok nodes (kv k') (idx k') (ph(a := (case r of Inl _ \<Rightarrow> Failed | Inr True \<Rightarrow> Saving c | Inr False \<Rightarrow> Allocating n)))"
    (is "cluster_ok _ _ _ (ph(a := ?p))")
proof -
  obtain g where g: "cs_CAS ops nodeIDCounterKey (Text (show_nat (unat (c + 1)))) i k = (g, k')"
    and r: "g = Inr b \<longleftrightarrow> r = Inr b" for b
    using sw by (auto simp: swap_counter_def Let_def split: prod.splits sum.splits)
  have c: "1 \<le> c" "c \<le> 1023" "kv k (nodeRegistryPrefix @ a) = None" "unmodified (kv k) nodeIDCounterKey i \<Longrightarrow> c = counter (kv k)"
    using cluster_okD(1) [OF ok a(1)] a(2) by auto
  show ?thesis
  proof (cases "kv k' = kv k \<and> r \<noteq> Inr True")
    case True
    with c a(2) cas [OF g] show ?thesis
      by (auto intro!: cluster_ok_phase [OF ok] simp: drawn_def split: sum.splits bool.splits)
  next
    case False
    with cas [OF g] r obtain x where u: "unmodified (kv k) nodeIDCounterKey i" "r \<noteq> Inr False"
      and x: "idx k < unat x" "unat x \<le> idx k'" "kv k' = (kv k)(nodeIDCounterKey \<mapsto> (Text (show_nat (unat (c + 1))), x))"
      by (auto simp: written_def)
    have cnt: "counter (kv k') = c + 1" "counter (kv k) = c" using c(4) u(1) by (simp_all add: x(3) registered_upd parseNodeID_show)
    have key: "nodeRegistryPrefix @ b \<noteq> nodeIDCounterKey" if "b \<in> nodes" for b using that assms(4) counter_key by auto
    have reg: "registered (kv k') b = registered (kv k) b" "kv k' (nodeRegistryPrefix @ b) = kv k (nodeRegistryPrefix @ b)"
      if "b \<in> nodes" for b using key [OF that] by (simp_all add: x(3) registered_upd)
    have old: "\<not> unmodified (kv k') nodeIDCounterKey y" if "unat y \<le> idx k" for y
      using that x by (auto simp: unmodified_def)
    have ph: "phase_ok (kv k') (idx k') b q" if "b \<in> nodes" "phase_ok (kv k) (idx k) b q" for b q
      using that reg [OF that(1)] old x by (cases q) auto
    have p: "?p = Failed \<or> ?p = Saving c" using u(2) by (auto split: sum.splits bool.splits)
    have "1 + c \<noteq> 0" using c(2) by (auto simp: add_eq_0_iff word_le_nat_alt unsigned_minus_1_eq_mask mask_eq_exp_minus_1)
    then have suc: "unat (c + 1) = Suc (unat c)" using unatSuc [of c] by (simp add: add.commute)
    then have bound: "1 \<le> c + 1" "c + 1 \<le> 1024" "c < c + 1" and below: "y < c \<Longrightarrow> y < c + 1" for y
      using c(2) by (simp_all add: word_le_nat_alt word_less_nat_alt)
    have drawn: "drawn (kv k') (ph(a := ?p)) b = (if b = a \<and> ?p = Saving c then Some c else if b = a then None else drawn (kv k) ph b)"
      if "b \<in> nodes" for b
      using reg [OF that] p c(3) by (auto simp: drawn_def registered_def split: phase.split)
    have drawn_c: "drawn (kv k) ph b \<noteq> Some c" if "b \<in> nodes" for b
      using cluster_okD(3) [OF ok that, of c] cnt(2) by auto
    show ?thesis
      unfolding cluster_ok_def cnt(1)
    proof (intro conjI ballI allI impI)
      fix b assume b: "b \<in> nodes"
      note okb = cluster_okD(1,2) [OF ok b] cluster_okD(3) [OF ok b, unfolded cnt(2)] cluster_okD(4) [OF ok b]
      show "phase_ok (kv k') (idx k') b ((ph(a := ?p)) b)"
        using ph [OF b okb(1)] p c(3) reg [OF b] by auto
      show "registered (kv k') b \<noteq> None" if "kv k' (nodeRegistryPrefix @ b) \<noteq> None"
        using okb(2) that reg [OF b] by metis
      fix y assume y: "drawn (kv k') (ph(a := ?p)) b = Some y"
      show "1 \<le> y" "y < c + 1" using y okb(3) [of y] c(1) bound below by (auto simp: drawn [OF b] split: if_splits)
      show "b' = b" if "b' \<in> nodes" "drawn (kv k') (ph(a := ?p)) b' = Some y" for b'
        using y that(2) okb(4) [of y, OF _ that(1)] drawn_c [OF b] drawn_c [OF that(1)]
        by (auto simp: drawn [OF b] drawn [OF that(1)] split: if_splits)
    qed (use bound in auto)
  qed
qed

lemma ok_save:
  assumes ok: "cluster_ok nodes (kv k) (idx k) ph" and a: "a \<in> nodes" "ph a = Saving n" and "''next_id'' \<notin> nodes" "in_i64 now"
    and sv: "save_node ops now a n k = (err, k')"
  shows "cluster_ok nodes (kv k') (idx k') (ph(a := (if err = None then Running n else Failed)))"
    (is "cluster_ok _ _ _ (ph(a := ?p))")
proof -
  let ?v = "Doc (entry_json \<lparr>ne_NodeID = n, ne_NodeAddr = a, ne_Timestamp = now\<rparr>)"
  obtain g where g: "cs_Put ops (nodeRegistryPrefix @ a) ?v k = (g, k')" and err: "g = None \<longleftrightarrow> err = None"
    using sv by (auto simp: save_node_def Let_def split: prod.splits option.splits)
  have none: "kv k (nodeRegistryPrefix @ a) = None" using cluster_okD(1) [OF ok a(1)] a(2) by simp
  show ?thesis
  proof (cases "written (kv k) (idx k) (nodeRegistryPrefix @ a) ?v (kv k') (idx k')")
    case True
    then obtain x where x: "kv k' = (kv k)(nodeRegistryPrefix @ a \<mapsto> (?v, x))" by (auto simp: written_def)
    have le: "idx k \<le> idx k'" using put [OF g] by simp
    have key: "nodeRegistryPrefix @ a \<noteq> nodeIDCounterKey" using a(1) assms(4) counter_key by auto
    have cnt: "counter (kv k') = counter (kv k)" "unmodified (kv k') nodeIDCounterKey i = unmodified (kv k) nodeIDCounterKey i" for i
      using key by (simp_all add: x registered_upd unmodified_def)
    have reg: "registered (kv k') b = (if b = a then Some n else registered (kv k) b)" for b
      using decode_entry_json [of "\<lparr>ne_NodeID = n, ne_NodeAddr = a, ne_Timestamp = now\<rparr>"] assms(5)
      by (simp add: x registered_upd)
    have drawn: "drawn (kv k') (ph(a := ?p)) b = drawn (kv k) ph b" for b
      using a(2) by (auto simp: drawn_def reg split: phase.split)
    have keys: "kv k' (nodeRegistryPrefix @ b) = (if b = a then Some (?v, x) else kv k (nodeRegistryPrefix @ b))" for b
      by (simp add: x)
    show ?thesis
    proof (rule cluster_okI [OF ok cnt(1)])
      fix b assume b: "b \<in> nodes"
      show "phase_ok (kv k') (idx k') b ((ph(a := ?p)) b)"
        using cluster_okD(1) [OF ok b] le reg cnt keys by (cases "b = a"; cases "ph b") auto
      show "kv k' (nodeRegistryPrefix @ b) = None" if "registered (kv k') b = None"
        using that cluster_okD(2) [OF ok b] by (auto simp: reg keys split: if_splits)
    qed (simp only: drawn)
  next
    case False
    then have kv: "kv k' = kv k" "err \<noteq> None" "idx k \<le> idx k'" using put [OF g] err by auto
    then show ?thesis
      unfolding kv(1) using none by (intro cluster_ok_phase [OF ok kv(3)]) (auto simp: drawn_def registered_def)
  qed
qed

lemma ok_restart:
  assumes ok: "cluster_ok nodes m j ph" and a: "a \<in> nodes"
  shows "cluster_ok nodes m j (ph(a := Starting))" "ph a = Allocating 0 \<Longrightarrow> cluster_ok nodes m j (ph(a := Failed))"
proof -
  have "drawn m (ph(a := Starting)) a = Some n \<Longrightarrow> drawn m ph a = Some n" for n
    using cluster_okD(1) [OF ok a] by (cases "ph a") (auto simp: drawn_def registered_def)
  then show "cluster_ok nodes m j (ph(a := Starting))" by (intro cluster_ok_phase [OF ok]) auto
  show "ph a = Allocating 0 \<Longrightarrow> cluster_ok nodes m j (ph(a := Failed))"
    by (rule cluster_ok_phase [OF ok]) (auto simp: drawn_def)
qed

lemma ok_step:
  assumes "cluster_step ops nodes s s'" "cluster_ok nodes (kv (fst s)) (idx (fst s)) (snd s)" "''next_id'' \<notin> nodes"
  shows "cluster_ok nodes (kv (fst s')) (idx (fst s')) (snd s')"
  using assms
proof cases
  case lookup with assms ok_lookup show ?thesis by simp
next
  case read with assms ok_read show ?thesis by simp
next
  case give_up with assms ok_restart(2) show ?thesis by simp
next
  case swap with assms ok_swap show ?thesis by simp
next
  case save with assms ok_save show ?thesis by simp
next
  case no_addr with assms show ?thesis by (auto simp: drawn_def intro!: cluster_ok_phase)
next
  case restart with assms ok_restart(1) show ?thesis by simp
qed

text \<open>A registration is never changed.\<close>

lemma step_registered:
  assumes "cluster_step ops nodes s s'" "cluster_ok nodes (kv (fst s)) (idx (fst s)) (snd s)"
    and a: "a \<in> nodes" "''next_id'' \<notin> nodes" "registered (kv (fst s)) a = Some n"
  shows "registered (kv (fst s')) a = Some n"
  using assms(1)
proof cases
  case (lookup b ph k r k')
  then have "kv k' = kv k" using get by (auto simp: lookup_node_def split: prod.splits sum.splits option.splits)
  with lookup a show ?thesis by simp
next
  case (read b ph r k r' k')
  then have "kv k' = kv k" using get by (auto simp: read_counter_def Let_def split: prod.splits sum.splits option.splits if_splits)
  with read a show ?thesis by simp
next
  case (swap b ph r c i k g k')
  obtain g' where g: "cs_CAS ops nodeIDCounterKey (Text (show_nat (unat (c + 1)))) i k = (g', k')"
    using swap by (auto simp: swap_counter_def Let_def split: prod.splits sum.splits)
  have "nodeRegistryPrefix @ a \<noteq> nodeIDCounterKey" using a counter_key by auto
  with cas [OF g] have "kv k' (nodeRegistryPrefix @ a) = kv k (nodeRegistryPrefix @ a)" by (auto simp: written_def)
  with swap a show ?thesis by (simp add: registered_def)
next
  case (save b ph n' now k err k')
  have "registered (kv k) b = None" using cluster_okD(1) [OF assms(2), of b] save by (simp add: registered_def)
  then have "a \<noteq> b" using a save by auto
  obtain v g' where g: "cs_Put ops (nodeRegistryPrefix @ b) v k = (g', k')"
    using save by (auto simp: save_node_def Let_def split: prod.splits option.splits)
  from put [OF g] \<open>a \<noteq> b\<close> have "kv k' (nodeRegistryPrefix @ a) = kv k (nodeRegistryPrefix @ a)" by (auto simp: written_def)
  with save a show ?thesis by (simp add: registered_def)
qed (use a in simp_all)

lemma steps_keep:
  assumes "(cluster_step ops nodes)\<^sup>*\<^sup>* s s'" "cluster_ok nodes (kv (fst s)) (idx (fst s)) (snd s)" "''next_id'' \<notin> nodes"
  shows "cluster_ok nodes (kv (fst s')) (idx (fst s')) (snd s') \<and>
    (\<forall>a \<in> nodes. \<forall>n. registered (kv (fst s)) a = Some n \<longrightarrow> registered (kv (fst s')) a = Some n)"
  using assms(1)
proof (induction rule: rtranclp_induct)
  case (step y z)
  with ok_step [OF step.hyps(2)] step_registered [OF step.hyps(2)] assms(3) show ?case by blast
qed (use assms in simp)

lemma GetOrAllocateNodeID_again:
  assumes "registered (kv k) a = Some n" "a \<noteq> []" "GetOrAllocateNodeID ops now (NewNodeIDManager a) k = (r, m, k')"
  shows "r = Inr n \<or> (\<exists>err. r = Inl (''failed to query node registry: '' @ err))"
proof -
  obtain g k1 where g: "cs_Get ops (nodeRegistryPrefix @ a) k = (g, k1)" by (cases "cs_Get ops (nodeRegistryPrefix @ a) k")
  show ?thesis
  proof (cases g)
    case (Inl err)
    with assms g show ?thesis by (auto simp: GetOrAllocateNodeID_def NewNodeIDManager_def lookup_node_def)
  next
    case (Inr p)
    with get [OF g] have p: "p = map_option (\<lambda>(v, i). \<lparr>kv_Value = v, kv_ModifyIndex = i\<rparr>) (kv k (nodeRegistryPrefix @ a))" by simp
    obtain v i where v: "kv k (nodeRegistryPrefix @ a) = Some (v, i)" "map_option ne_NodeID (decode_entry v) = Some n"
      using assms(1) by (auto simp: registered_def split: option.splits)
    have "lookup_node ops a k = (Inr (Some n), k1)" unfolding lookup_node_def g Inr p v(1) by (simp add: v(2) del: map_option_eq_Some)
    with assms show ?thesis by (auto simp: GetOrAllocateNodeID_def NewNodeIDManager_def)
  qed
qed

lemma cluster_ok_start:
  assumes "kv k = Map.empty"
  shows "cluster_ok nodes (kv k) (idx k) (\<lambda>_. Starting)"
  using assms by (simp add: cluster_ok_def counter_def drawn_def registered_def word_le_nat_alt)

end

section \<open>Consul in memory\<close>

definition last_index :: "(string \<times> kv_bytes \<times> u64) list \<Rightarrow> nat" where
  "last_index m = foldr (\<lambda>(key, v, i). max (unat i)) m 0"

definition memory_put :: "string \<Rightarrow> kv_bytes \<Rightarrow> (string \<times> kv_bytes \<times> u64) list \<Rightarrow> ((string \<times> kv_bytes \<times> u64) list) option" where
  "memory_put key v m = (if Suc (last_index m) < 2 ^ 64 then Some ((key, v, of_nat (Suc (last_index m))) # m) else None)"

definition memory_consul :: "((string \<times> kv_bytes \<times> u64) list) consul_ops" where
  "memory_consul =
     \<lparr>cs_Get = (\<lambda>key m. (Inr (map_option (\<lambda>(v, i). \<lparr>kv_Value = v, kv_ModifyIndex = i\<rparr>) (map_of m key)), m)),
      cs_Put = (\<lambda>key v m. case memory_put key v m of None \<Rightarrow> (Some ''index'', m) | Some m' \<Rightarrow> (None, m')),
      cs_CAS = (\<lambda>key v i m.
        if (case map_of m key of None \<Rightarrow> i = 0 | Some (w, j) \<Rightarrow> i = j)
        then (case memory_put key v m of None \<Rightarrow> (Inl ''index'', m) | Some m' \<Rightarrow> (Inr True, m'))
        else (Inr False, m))\<rparr>"

lemma memory_put_written:
  assumes "memory_put key v m = Some m'"
  shows "written (map_of m) (last_index m) key v (map_of m') (last_index m')" "last_index m \<le> last_index m'"
proof -
  have n: "Suc (last_index m) < 2 ^ 64" "m' = (key, v, of_nat (Suc (last_index m))) # m"
    using assms by (auto simp: memory_put_def split: if_splits)
  have "unat (of_nat (Suc (last_index m)) :: u64) = Suc (last_index m)" using n(1) by (simp add: unat_of_nat del: of_nat_Suc)
  with n show "written (map_of m) (last_index m) key v (map_of m') (last_index m')" "last_index m \<le> last_index m'"
    by (auto simp: written_def last_index_def simp del: of_nat_Suc intro!: exI [of _ "of_nat (Suc (foldr (\<lambda>(key, v, i). max (unat i)) m 0))"])
qed

interpretation mem_consul: consul_kv memory_consul map_of last_index
proof unfold_locales
  show "unat i \<le> last_index k" if "map_of k key = Some (v, i)" for k key v i
    using map_of_SomeD [OF that] by (induction k) (auto simp: last_index_def)
qed (auto simp: memory_consul_def unmodified_def memory_put_written split: option.splits if_splits)

lemma running_ids:
  assumes consul: "consul_kv ops kv idx" and empty: "kv k = Map.empty" and names: "''next_id'' \<notin> nodes"
    and before: "(cluster_step ops nodes)\<^sup>*\<^sup>* (k, \<lambda>_. Starting) (k1, ph1)"
    and after: "(cluster_step ops nodes)\<^sup>*\<^sup>* (k1, ph1) (k2, ph2)"
    and a: "a \<in> nodes" "ph1 a = Running m" and b: "b \<in> nodes" "ph2 b = Running n"
  shows "m = n \<longleftrightarrow> a = b" "1 \<le> m" "m \<le> 1023" "registered (kv k1) a = Some m"
proof -
  note ok1 = conjunct1 [OF consul_kv.steps_keep [OF consul before _ names], simplified, OF consul_kv.cluster_ok_start [OF consul empty]]
  have keep: "cluster_ok nodes (kv k2) (idx k2) ph2" "registered (kv k1) a = Some i \<Longrightarrow> registered (kv k2) a = Some i" for i
    using consul_kv.steps_keep [OF consul after _ names] ok1 a(1) by auto
  have m: "registered (kv k1) a = Some m" using cluster_okD(1) [OF ok1 a(1)] a(2) by simp
  have n: "registered (kv k2) b = Some n" using cluster_okD(1) [OF keep(1) b(1)] b(2) by simp
  have drawn: "drawn (kv k1) ph1 a = Some m" "drawn (kv k2) ph2 b = Some n" using m n a b by (simp_all add: drawn_def)
  have m2: "drawn (kv k2) ph2 a = Some m"
    using keep(2) [OF m] cluster_okD(1) [OF keep(1) a(1)] by (cases "ph2 a") (simp_all add: drawn_def registered_def)
  show "m = n \<longleftrightarrow> a = b"
    using m2 drawn(2) cluster_okD(4) [OF keep(1) b(1) drawn(2) a(1)] by auto
  have "m < counter (kv k1)" "counter (kv k1) \<le> 1024" and "1 \<le> m"
    using cluster_okD(3) [OF ok1 a(1) drawn(1)] ok1 by (auto simp: cluster_ok_def)
  then show "1 \<le> m" "m \<le> 1023" by (simp_all add: word_le_nat_alt word_less_nat_alt)
  show "registered (kv k1) a = Some m" by (rule m)
qed

section \<open>Properties\<close>

text \<open>
  C19. Node numbers are unique and stable. However the calls of the nodes to Consul interleave, whichever
  of them fail, and however often nodes restart: the number a node runs with at one time and the number
  a node runs with at a later time are the same if and only if the nodes are the same, and they are
  between 1 and 1023. Asking again in a running node's place gives its number, unless Consul fails.
\<close>

theorem node_ids_unique_and_stable:
  assumes consul: "consul_kv ops kv idx" and empty: "kv k = Map.empty" and names: "''next_id'' \<notin> nodes"
    and before: "(cluster_step ops nodes)\<^sup>*\<^sup>* (k, \<lambda>_. Starting) (k1, ph1)"
    and after: "(cluster_step ops nodes)\<^sup>*\<^sup>* (k1, ph1) (k2, ph2)"
    and a: "a \<in> nodes" "ph1 a = Running m" and b: "b \<in> nodes" "ph2 b = Running n"
  shows "(m = n \<longleftrightarrow> a = b) \<and> 1 \<le> m \<and> m \<le> 1023 \<and>
    (a \<noteq> [] \<longrightarrow> (\<forall>now r mgr k'. GetOrAllocateNodeID ops now (NewNodeIDManager a) k1 = (r, mgr, k') \<longrightarrow>
       r = Inr m \<or> (\<exists>err. r = Inl (''failed to query node registry: '' @ err))))"
  using running_ids [OF consul empty names before after a b]
    consul_kv.GetOrAllocateNodeID_again [OF consul running_ids(4) [OF consul empty names before after a b]] by blast

text \<open>Two nodes start one after the other.\<close>

definition demo_first :: "(go_error + u64) \<times> NodeIDManager \<times> (string \<times> kv_bytes \<times> u64) list" where
  "demo_first = GetOrAllocateNodeID memory_consul 1000 (NewNodeIDManager ''worker-0'') []"

definition demo_second :: "(go_error + u64) \<times> NodeIDManager \<times> (string \<times> kv_bytes \<times> u64) list" where
  "demo_second = GetOrAllocateNodeID memory_consul 1001 (NewNodeIDManager ''worker-1'') (snd (snd demo_first))"

lemma demo_ids: "fst demo_first = Inr 1" "fst demo_second = Inr 2"
  by code_simp+

lemma demo_cluster:
  fixes k1 k2 ph1 ph2 nodes
  defines "k1 \<equiv> snd (snd demo_first)" and "k2 \<equiv> snd (snd demo_second)" and "nodes \<equiv> {''worker-0'', ''worker-1''}"
    and "ph1 \<equiv> (\<lambda>_. Starting)(''worker-0'' := Running 1)" and "ph2 \<equiv> ph1(''worker-1'' := Running 2)"
  shows "(cluster_step memory_consul nodes)\<^sup>*\<^sup>* ([], \<lambda>_. Starting) (k1, ph1)"
    "(cluster_step memory_consul nodes)\<^sup>*\<^sup>* (k1, ph1) (k2, ph2)"
proof -
  have now: "in_i64 1000" "in_i64 1001" by (simp_all add: in_i64_def)
  have "GetOrAllocateNodeID memory_consul 1000 (NewNodeIDManager ''worker-0'') [] = (Inr 1, fst (snd demo_first), k1)"
    "GetOrAllocateNodeID memory_consul 1001 (NewNodeIDManager ''worker-1'') k1 = (Inr 2, fst (snd demo_second), k2)"
    using demo_ids by (simp_all add: k1_def k2_def demo_second_def prod_eq_iff flip: demo_first_def)
  from GetOrAllocateNodeID_steps [OF _ _ now(1) this(1), of nodes "\<lambda>_. Starting"]
    GetOrAllocateNodeID_steps [OF _ _ now(2) this(2), of nodes ph1]
  show "(cluster_step memory_consul nodes)\<^sup>*\<^sup>* ([], \<lambda>_. Starting) (k1, ph1)"
    "(cluster_step memory_consul nodes)\<^sup>*\<^sup>* (k1, ph1) (k2, ph2)"
    unfolding ph2_def by (simp_all add: ph1_def nodes_def del: fun_upd_apply) (simp_all add: fun_upd_def)
qed

text \<open>A cluster that cannot reach Consul.\<close>

definition down_consul :: "unit consul_ops" where
  "down_consul = \<lparr>cs_Get = (\<lambda>key k. (Inl ''connection refused'', k)), cs_Put = (\<lambda>key v k. (Some ''connection refused'', k)),
     cs_CAS = (\<lambda>key v i k. (Inl ''connection refused'', k))\<rparr>"

interpretation down_consul: consul_kv down_consul "\<lambda>_. Map.empty" "\<lambda>_. 0"
  by unfold_locales (auto simp: down_consul_def)

lemma demo_down:
  fixes nodes defines "nodes \<equiv> {''worker-0'', ''worker-1''}"
  shows "(cluster_step down_consul nodes)\<^sup>*\<^sup>* ((), \<lambda>_. Starting) ((), (\<lambda>_. Starting)(''worker-0'' := Failed, ''worker-1'' := Failed))"
proof -
  let ?ph = "\<lambda>_ :: string. Starting"
  have down: "\<exists>err m. GetOrAllocateNodeID down_consul 1000 (NewNodeIDManager a) () = (Inl err, m, ())" for a
    by (simp add: GetOrAllocateNodeID_def NewNodeIDManager_def lookup_node_def down_consul_def)
  have now: "in_i64 1000" by (simp add: in_i64_def)
  obtain err m where d: "GetOrAllocateNodeID down_consul 1000 (NewNodeIDManager ''worker-0'') () = (Inl err, m, ())" using down by blast
  obtain err' m' where d': "GetOrAllocateNodeID down_consul 1000 (NewNodeIDManager ''worker-1'') () = (Inl err', m', ())" using down by blast
  from GetOrAllocateNodeID_steps [OF _ _ now d, of nodes ?ph] GetOrAllocateNodeID_steps [OF _ _ now d', of nodes "?ph(''worker-0'' := Failed)"]
  show ?thesis by (simp add: nodes_def del: fun_upd_apply) (simp add: rtranclp_trans)
qed

theorem node_ids_unique_and_stable_witness:
  "fst demo_first = Inr 1 \<and> fst demo_second = Inr 2 \<and> ((1 :: u64) = 2 \<longleftrightarrow> ''worker-0'' = ''worker-1'') \<and> (1 :: u64) \<le> 1023"
proof -
  from node_ids_unique_and_stable [OF mem_consul.consul_kv_axioms _ _ demo_cluster, of "''worker-0''" 1 "''worker-1''" 2]
  have "((1 :: u64) = 2 \<longleftrightarrow> ''worker-0'' = ''worker-1'') \<and> (1 :: u64) \<le> 1023" by simp
  with demo_ids show ?thesis by blast
qed

end
