(* ===== verification/Spec2Isabelle.thy ===== *)
theory Spec2Isabelle
  imports OrderBookLaws EventPipeline TransferProtocol StateSnapshot OffsetTracker OwnershipEpoch MatchEngine Outbox PostgresLog NodeIds
begin

text \<open>
  A verification of the matching backend of an exchange, \<^verbatim>\<open>src/\<close>. Paths below are relative to
  \<^verbatim>\<open>src/biz/\<close>.

  \<^bold>\<open>The program.\<close> Clients submit limit orders. The match engine numbers an order with the
  sequencer, puts an event for it through the event pipeline and queues it; one worker per symbol
  takes the orders from its queue, matches them against the order book and puts the trades through
  the pipeline too. The pipeline appends every event to an event log and hands it to the processors,
  among them the one that turns trades into positions; it remembers in checkpoints how far each
  processor got, from which recovery replays the log. Partitions of symbols move between nodes by a
  transfer protocol that drives an ownership state machine; an epoch in Redis, raised under a
  distributed lock at each change of owner, keeps requests of former owners out.

  \<^bold>\<open>The theories.\<close>
  \<^item> \<open>Prelude\<close>: Go's integers (\<open>int64\<close> as \<open>int\<close> with \<open>i64\<close> for the wrap-around, \<open>uint64\<close> as \<open>64 word\<close>),
    \<^verbatim>\<open>%d\<close>, maps with a zero value, panics.
  \<^item> \<open>Float64\<close>, \<open>ParseFloat\<close>: \<open>float64\<close> as rationals rounded to 53 bits, \<^verbatim>\<open>%.8f\<close>, \<^verbatim>\<open>strconv.ParseFloat\<close> and
    \<^verbatim>\<open>Sscanf\<close>. \<open>Json\<close>: \<^verbatim>\<open>encoding/json\<close> on document trees. \<open>Sha256\<close>: \<^verbatim>\<open>crypto/sha256\<close> and \<^verbatim>\<open>encoding/hex\<close>.
  \<^item> \<open>SkipList\<close>: the contract of the skip list package. \<open>OrderBook\<close>: \<^verbatim>\<open>service/orderbook.go\<close>, the entries in
    a heap because queues and the order index alias them. \<open>Matching\<close>: matching on plain lists (\<open>fill\<close>),
    the invariant \<open>ob_ok\<close>, and that the loop of the code returns and computes \<open>fill\<close>. \<open>OrderBookLaws\<close>:
    the properties of the book for every skip list order, and those of the order the code's scores give.
  \<^item> \<open>Sequencer\<close>: \<^verbatim>\<open>service/sequencer.go\<close>. \<open>Events\<close>: \<^verbatim>\<open>model/event.go\<close>, \<^verbatim>\<open>model/event_context.go\<close>.
    \<open>EventLog\<close>: \<^verbatim>\<open>service/event_log_memory.go\<close> and the contract of event stores. \<open>PostgresLog\<close>:
    \<^verbatim>\<open>service/event_log_postgres.go\<close> and \<^verbatim>\<open>dal/pg/event_store_postgres.go\<close>, the log the program runs with.
    \<open>NodeIds\<close>: \<^verbatim>\<open>service/node_id_manager.go\<close>; its relation \<open>cluster_step\<close> interleaves the nodes.
  \<^item> \<open>Checkpoint\<close>: \<^verbatim>\<open>service/checkpoint_manager.go\<close>, \<^verbatim>\<open>dal/pg/checkpoint_repo.go\<close>. \<open>EventPipeline\<close>:
    \<^verbatim>\<open>service/event_pipeline.go\<close> over any event store and checkpoint table. \<open>OffsetTracker\<close>:
    \<^verbatim>\<open>service/kafka_offset_tracker.go\<close>. \<open>StateSnapshot\<close>: \<^verbatim>\<open>service/state_snapshot.go\<close>.
  \<^item> \<open>Orders\<close>: \<^verbatim>\<open>model/order.go\<close>. \<open>MatchEngine\<close>: \<^verbatim>\<open>service/match_engine.go\<close>; its relation \<open>engine_reach\<close>
    interleaves the steps of the calls of \<open>SubmitOrder\<close>, of the workers and of a shutdown. \<open>Positions\<close>:
    \<^verbatim>\<open>service/event_processor_position.go\<close>, \<^verbatim>\<open>service/asset_service.go\<close>, \<^verbatim>\<open>dal/pg/outbox_repo.go\<close>,
    \<^verbatim>\<open>dal/pg/processed_repo.go\<close>. \<open>Outbox\<close>: \<^verbatim>\<open>service/outbox_dispatcher.go\<close>, with the writer cache of
    \<^verbatim>\<open>dal/kafka/init.go\<close>.
  \<^item> \<open>TransferCoordinator\<close>: \<^verbatim>\<open>service/db_transfer_coordinator.go\<close>. \<open>Ownership\<close>:
    \<^verbatim>\<open>model/partition_ownership.go\<close>. \<open>TransferProtocol\<close>: \<^verbatim>\<open>model/transfer_protocol.go\<close>.
    \<open>OwnershipEpoch\<close>: \<^verbatim>\<open>service/redis_lock_manager.go\<close>, \<^verbatim>\<open>service/ownership_epoch_manager.go\<close>,
    \<^verbatim>\<open>handler/order_fencing.go\<close>.

  \<^bold>\<open>Conventions.\<close> A Go struct is a record whose fields carry a short prefix and the source's names, a
  method a function that returns the changed struct. An error result is the left summand of a sum, or an
  optional error beside the state. Clock readings are arguments. A method that holds a mutex is one step;
  where the code gives a lock up between two sections, or leaves work to a goroutine, the sections are
  steps of their own. Code outside the repository is a record of operations that the definitions take
  as an argument; a locale states what is relied on (\<open>skip_list\<close>, \<open>event_store\<close>, \<open>checkpoint_table\<close>,
  \<open>position_table\<close>, \<open>outbox_store\<close>, \<open>outbox_rows\<close>, \<open>kafka_log\<close>, \<open>event_table\<close>, \<open>consul_kv\<close>,
  \<open>transfer_coordinator\<close>, \<open>transfer_table\<close>, \<open>redis_store\<close>), and each is
  interpreted on executable operations, on which the witnesses run. Extensions of these contracts carry
  single groups of properties: \<open>score_first\<close> for a skip list that sorts by score, \<open>async_writer\<close> and \<open>async_outbox\<close>
  for writers that only queue a message, \<open>cleaned_outbox\<close> for an outbox that is cleaned while trades are booked,
  \<open>expiring_redis\<close> for the passing of time in Redis.

  \<^bold>\<open>What is shown.\<close>
  \<^item> The order book: matching computes \<open>fill\<close> on every reachable book, conserves quantity, trades at
    the maker's price within the taker's limit, and numbers trades upwards whatever others draw from the
    sequencer; cancelling and depth are exact. The skip list package sorts by the comparators' scores, and
    those of the code run against the order the comments promise: an order takes the worst prices first
    (\<open>match_order_worst_price\<close>) and may cross the book without trading (\<open>score_order_crosses_book\<close>). An order
    that was matched after it rested can still be cancelled as if it were whole (\<open>cancel_ignores_fills\<close>).
  \<^item> Numbers and events: sequence numbers increase until the 40-bit counter wraps. Node numbers are unique
    and stable over restarts, so that the numbers of two nodes never collide, unless both could get no node
    number and run with 0 (\<open>cluster_sequence_numbers_disjoint\<close> below). Events survive their JSON form and a
    replay of the in-memory log, but not one of the log in Postgres (\<open>postgres_log_strips_events\<close>).
  \<^item> The engine: no interleaving doubles or reorders an order of a symbol or, before a shutdown, loses one;
    but a trade may be skipped by all processors (\<open>late_trade_skipped\<close>), because it gets its number before it
    is published.
  \<^item> Positions: each trade is booked exactly once through the outbox, rows stay well-formed; amounts may
    lose one unit on their way through text, and a cleaned outbox entry lets a trade be booked again. The
    dispatcher marks as published only what it handed to a writer, but the writers of the program are
    asynchronous, so that the broker may never get it (\<open>tick_publishes_undelivered\<close>), and entries that
    cannot be sent block the rest.
  \<^item> Pipeline and checkpoints: a dispatch hands an event once to each processor that is behind it, and what
    was flushed is recovered. With a checkpoint manager and no event context, as the program runs it, the
    pipeline panics at the first processor that accepts an event (\<open>no_context_no_progress\<close>).
  \<^item> Migration: the owner changes only on commit, the state machine keeps its invariants under any
    interleaving, the protocol keeps those it checks if its calls do not overlap, and a migration whose
    messages are answered completes. A request that overlaps a commit can change who becomes the owner
    (\<open>target_write_redirects_commit\<close>).
  \<^item> Snapshots, offsets, epochs: two snapshots are identical iff their canonical content is, up to a
    collision of the hash; committed offsets never exceed consumed ones, and recovery starts after the
    committed offset; a change of owner fences the old epoch, but a day without a change of owner lets
    the key expire and the epoch restart at 1 (\<open>epoch_restarts_after_expiry\<close>).

  \<^bold>\<open>Bounds and fuel.\<close> The matching loop, the JSON functions and the retry loop of the lock are total
  functions, the first by a proof that every round consumes an entry or ends. Rounding of floating-point
  numbers is exact for every value the program can hold. No definition is cut off by fuel except the
  bitwise root extraction for the constants of SHA-256, which runs once per bit of the result.

  \<^bold>\<open>Not modelled.\<close>
  \<^item> \<^verbatim>\<open>service/partition_aware_match_engine.go\<close>, \<^verbatim>\<open>service/partition_manager.go\<close>, \<^verbatim>\<open>service/partition_autoscaler.go\<close>:
    wiring, and a partition table polled from Consul by goroutines.
  \<^item> \<^verbatim>\<open>service/recovery_executor.go\<close>, \<^verbatim>\<open>service/state_validator.go\<close>: they run the replay and the lock that are
    modelled; their check compares printed Go values, addresses and clock included.
  \<^item> \<^verbatim>\<open>service/event_processor_db.go\<close>, \<^verbatim>\<open>service/event_processor_websocket.go\<close>: the pipeline is verified for
    processors of any behaviour.
  \<^item> Candlesticks, queries, HTTP handlers, the WebSocket server, configuration and start-up, which derive,
    transport or wire; what they rely on is in the components above.
  \<^item> The textual form of JSON, log output, and reports that are only printed.
\<close>

section \<open>Node numbers and sequence numbers\<close>

text \<open>
  C20. When sequence numbers are unique in the cluster. Take two different nodes that have started, whenever
  and in whatever interleaving with other nodes, restarts and failures of Consul, and the sequencers the
  engine makes for them: with the node's number, or with 0 if the node could not get one. Before either counter
  has run out of its 40 bits, the sequencers return no number in common, unless both nodes fell back to 0; in
  this case they do.
\<close>

theorem cluster_sequence_numbers_disjoint:
  assumes consul: "consul_kv ops kv idx" and empty: "kv k = Map.empty" and names: "''next_id'' \<notin> nodes"
    and before: "(cluster_step ops nodes)\<^sup>*\<^sup>* (k, \<lambda>_. Starting) (k1, ph1)"
    and after: "(cluster_step ops nodes)\<^sup>*\<^sup>* (k1, ph1) (k2, ph2)"
    and a: "a \<in> nodes" "runs_with (ph1 a) = Some m" and b: "b \<in> nodes" "runs_with (ph2 b) = Some n" and "a \<noteq> b"
    and i: "0 < i" "i < 2 ^ 40" and j: "0 < j" "j < 2 ^ 40"
  shows "\<exists>sa sb. NewSequencerWithNodeID m = Returns sa \<and> NewSequencerWithNodeID n = Returns sb \<and>
    (set (fst (next_seqs i sa)) \<inter> set (fst (next_seqs j sb)) = {} \<longleftrightarrow> \<not> (ph1 a = Failed \<and> ph2 b = Failed))"
proof -
  have m: "ph1 a = Failed \<and> m = 0 \<or> ph1 a = Running m \<and> 1 \<le> m \<and> m \<le> 1023"
    using a(2) running_ids(2,3) [OF consul empty names before rtranclp.rtrancl_refl a(1) _ a(1)] by (cases "ph1 a") auto
  have n: "ph2 b = Failed \<and> n = 0 \<or> ph2 b = Running n \<and> 1 \<le> n \<and> n \<le> 1023"
    using b(2) running_ids(2,3) [OF consul empty names rtranclp_trans [OF before after] rtranclp.rtrancl_refl b(1) _ b(1)]
    by (cases "ph2 b") auto
  have "ph1 a = Running m \<Longrightarrow> ph2 b = Running n \<Longrightarrow> m \<noteq> n"
    using running_ids(1) [OF consul empty names before after a(1) _ b(1)] \<open>a \<noteq> b\<close> by blast
  with m n have iff: "m \<noteq> n \<longleftrightarrow> \<not> (ph1 a = Failed \<and> ph2 b = Failed)" by auto
  have "m \<le> 1023" "n \<le> 1023" using m n by auto
  then obtain sa sb where s: "NewSequencerWithNodeID m = Returns sa" "NewSequencerWithNodeID n = Returns sb"
    by (simp add: NewSequencerWithNodeID_def not_less)
  from next_global_seq_disjoint_iff [OF s i j] s iff show ?thesis by blast
qed

theorem cluster_sequence_numbers_disjoint_witness:
  "\<exists>sa sb s0. NewSequencerWithNodeID 1 = Returns sa \<and> NewSequencerWithNodeID 2 = Returns sb \<and> NewSequencerWithNodeID 0 = Returns s0 \<and>
    set (fst (next_seqs 3 sa)) \<inter> set (fst (next_seqs 5 sb)) = {} \<and> set (fst (next_seqs 3 s0)) \<inter> set (fst (next_seqs 5 s0)) \<noteq> {}"
proof -
  have "\<exists>sa sb. NewSequencerWithNodeID 0 = Returns sa \<and> NewSequencerWithNodeID 0 = Returns sb \<and>
      set (fst (next_seqs 3 sa)) \<inter> set (fst (next_seqs 5 sb)) \<noteq> {}"
    using cluster_sequence_numbers_disjoint [OF down_consul.consul_kv_axioms _ _ demo_down rtranclp.rtrancl_refl,
        of "''worker-0''" 0 "''worker-1''" 0 3 5] by simp
  then obtain s0 where "NewSequencerWithNodeID 0 = Returns s0" "set (fst (next_seqs 3 s0)) \<inter> set (fst (next_seqs 5 s0)) \<noteq> {}"
    by (metis outcome.inject)
  moreover obtain sa sb where "NewSequencerWithNodeID 1 = Returns sa" "NewSequencerWithNodeID 2 = Returns sb"
    "set (fst (next_seqs 3 sa)) \<inter> set (fst (next_seqs 5 sb)) = {}"
    using cluster_sequence_numbers_disjoint [OF mem_consul.consul_kv_axioms _ _ demo_cluster,
        of "''worker-0''" 1 "''worker-1''" 2 3 5] by auto
  ultimately show ?thesis by blast
qed

end
